(* ===== verification/Prelude.thy ===== *)
theory Prelude
  imports Main "HOL-Library.Word"
begin

unbundle bit_operations_syntax

text \<open>
  Shared vocabulary of the development: the C integer types at their widths, the faults a
  C execution can run into, the sequencing of fallible steps, big-endian loads from a
  packet, and the arithmetic of circular arrays that the ring buffer and the sliding
  window have in common.
\<close>

section \<open>Fact collections\<close>

named_theorems fault_simps \<open>unfolding of the fallible-step combinators\<close>
named_theorems load_simps \<open>unfolding of loads from packet memory\<close>

section \<open>C integer types\<close>

type_synonym u8 = "8 word"
type_synonym u16 = "16 word"
type_synonym u32 = "32 word"
type_synonym u64 = "64 word"
type_synonym size_t = "64 word"

lemma unat_succ_mod:
  fixes e :: size_t
  assumes "e < sz"
  shows "unat ((e + 1) mod sz) = Suc (unat e) mod unat sz"
proof -
  have "unat e < unat sz" "unat sz < 2 ^ 64"
    using assms unsigned_less [of sz] by (simp_all add: word_less_nat_alt)
  then have "unat (e + 1) = Suc (unat e)"
    by (simp add: unat_word_ariths)
  then show ?thesis by (simp add: unat_mod)
qed

section \<open>Faults and fallible steps\<close>

text \<open>
  \<open>OutOfBounds p\<close> is a load at offset \<open>p\<close> that lies outside the object it addresses,
  \<open>AssertFail\<close> an \<open>assert\<close> of the source that does not hold, \<open>NullDeref\<close> an access
  through a null pointer and \<open>Uninitialised\<close> the use of memory that was never written.
\<close>

datatype fault = OutOfBounds nat | AssertFail | NullDeref | Uninitialised

type_synonym 'a res = "fault + 'a"

definition bindr :: "'a res \<Rightarrow> ('a \<Rightarrow> 'b res) \<Rightarrow> 'b res" where
  "bindr m f = (case m of Inl e \<Rightarrow> Inl e | Inr x \<Rightarrow> f x)"

definition assertr :: "bool \<Rightarrow> 'b res \<Rightarrow> 'b res" where
  "assertr b k = (if b then k else Inl AssertFail)"

lemma bindr_Inl [simp, fault_simps]: "bindr (Inl e) f = Inl e"
  by (simp add: bindr_def)

lemma bindr_Inr [simp, fault_simps]: "bindr (Inr x) f = f x"
  by (simp add: bindr_def)

lemma bindr_eq_Inr: "bindr m f = Inr y \<longleftrightarrow> (\<exists>x. m = Inr x \<and> f x = Inr y)"
  by (cases m) auto

lemma bindr_Inr_E [elim!]:
  assumes "bindr m f = Inr y"
  obtains x where "m = Inr x" "f x = Inr y"
  using assms by (auto simp: bindr_eq_Inr)

lemma bindr_if [simp]: "bindr (if c then a else b) f = (if c then bindr a f else bindr b f)"
  by simp

lemma assertr_eq_Inr [simp, fault_simps]: "assertr b k = Inr y \<longleftrightarrow> b \<and> k = Inr y"
  by (simp add: assertr_def)

lemma assertr_True [simp, fault_simps]: "assertr True k = k"
  by (simp add: assertr_def)

section \<open>Packet memory\<close>

text \<open>
  The captured bytes of a packet. A pointer into the packet is an offset; loading a
  multi-byte field and converting it with \<open>ntohs\<close> reads the bytes most significant
  first on every host.
\<close>

type_synonym pktmem = "u8 list"
type_synonym ptr = nat

definition rd8 :: "pktmem \<Rightarrow> ptr \<Rightarrow> u8 res" where
  "rd8 m p = (if p < length m then Inr (m ! p) else Inl (OutOfBounds p))"

definition be16 :: "u8 \<Rightarrow> u8 \<Rightarrow> u16" where
  "be16 hi lo = push_bit 8 (ucast hi) OR ucast lo"

definition rd16 :: "pktmem \<Rightarrow> ptr \<Rightarrow> u16 res" where
  "rd16 m p = bindr (rd8 m p) (\<lambda>hi. bindr (rd8 m (p + 1)) (\<lambda>lo. Inr (be16 hi lo)))"

lemma rd8_Inr [simp, load_simps]: "p < length m \<Longrightarrow> rd8 m p = Inr (m ! p)"
  by (simp add: rd8_def)

lemma rd8_eq_Inr: "rd8 m p = Inr x \<longleftrightarrow> p < length m \<and> x = m ! p"
  by (auto simp: rd8_def)

lemma rd16_Inr [simp, load_simps]:
  "p + 1 < length m \<Longrightarrow> rd16 m p = Inr (be16 (m ! p) (m ! (p + 1)))"
  by (simp add: rd16_def)

lemma rd16_eq_Inr:
  "rd16 m p = Inr x \<longleftrightarrow> p + 1 < length m \<and> x = be16 (m ! p) (m ! (p + 1))"
  by (auto simp: rd16_def rd8_def)

section \<open>Circular arrays\<close>

text \<open>\<open>ring_slice xs s n\<close> are the \<open>n\<close> cells of the circular array \<open>xs\<close> from index \<open>s\<close> on.\<close>

definition ring_slice :: "'a list \<Rightarrow> nat \<Rightarrow> nat \<Rightarrow> 'a list" where
  "ring_slice xs s n = map (\<lambda>k. xs ! ((s + k) mod length xs)) [0..<n]"

lemma length_ring_slice [simp]: "length (ring_slice xs s n) = n"
  by (simp add: ring_slice_def)

lemma ring_slice_0 [simp]: "ring_slice xs s 0 = []"
  by (simp add: ring_slice_def)

lemma ring_slice_eq_Nil [simp]: "ring_slice xs s n = [] \<longleftrightarrow> n = 0"
  by (simp add: ring_slice_def)

lemma nth_ring_slice: "k < n \<Longrightarrow> ring_slice xs s n ! k = xs ! ((s + k) mod length xs)"
  by (simp add: ring_slice_def)

lemma ring_slice_Suc: "ring_slice xs s (Suc n) = ring_slice xs s n @ [xs ! ((s + n) mod length xs)]"
  by (simp add: ring_slice_def)

lemma mod_add_inj:
  fixes s :: nat
  assumes "k < n" "n < L" "(s + k) mod L = (s + n) mod L"
  shows False
proof -
  have "L dvd (s + n) - (s + k)"
    using assms by (metis add_le_cancel_left less_imp_le mod_eq_dvd_iff_nat)
  then have "L dvd n - k" by simp
  with assms(1,2) show False by (auto dest: dvd_imp_le)
qed

lemma ring_slice_upd_end:
  assumes "n < length xs"
  shows "ring_slice (xs[(s + n) mod length xs := v]) s (Suc n) = ring_slice xs s n @ [v]"
proof -
  have "(s + n) mod length xs < length xs"
    using assms by (intro mod_less_divisor) (cases xs, simp_all)
  moreover have "(s + n) mod length xs \<noteq> (s + k) mod length xs" if "k < n" for k
    using mod_add_inj [OF that assms, of s] by auto
  ultimately show ?thesis
    by (simp add: ring_slice_def)
qed

lemma ring_slice_Cons:
  assumes "s < length xs"
  shows "ring_slice xs s (Suc n) = xs ! s # ring_slice xs (Suc s mod length xs) n"
proof (rule nth_equalityI)
  show "length (ring_slice xs s (Suc n)) = length (xs ! s # ring_slice xs (Suc s mod length xs) n)"
    by simp
next
  fix i assume "i < length (ring_slice xs s (Suc n))"
  then show "ring_slice xs s (Suc n) ! i = (xs ! s # ring_slice xs (Suc s mod length xs) n) ! i"
    using assms by (cases i) (simp_all add: nth_ring_slice mod_add_left_eq)
qed

end
