(* ===== verification/Interfaces.thy ===== *)
theory Interfaces
  imports Prelude
begin

text \<open>
  What the components promise each other. A component that provides an interface
  interprets its locale on its own operations; the lemmas proved here about any provider then
  hold for it.
\<close>

section \<open>Bounded FIFO queues\<close>

text \<open>
  A producer that stops at the first refused value, and the loop
  \<open>while (try_get(q, &v)) ...\<close> that empties a queue. Both return \<open>None\<close> if an operation
  they call does not return.
\<close>

fun put_all :: "('q \<Rightarrow> 'v \<Rightarrow> (int \<times> 'q) option) \<Rightarrow> 'q \<Rightarrow> 'v list \<Rightarrow> (nat \<times> 'q) option" where
  "put_all put q [] = Some (0, q)"
| "put_all put q (v # vs) =
     (case put q v of
        None \<Rightarrow> None
      | Some (r, q') \<Rightarrow>
          if r = 0 then Some (0, q')
          else map_option (\<lambda>(n, q''). (Suc n, q'')) (put_all put q' vs))"

partial_function (option) drain_loop ::
  "('q \<Rightarrow> 'v \<Rightarrow> (int \<times> 'v \<times> 'q) option) \<Rightarrow> 'v list \<Rightarrow> 'q \<Rightarrow> 'v \<Rightarrow> ('v list \<times> 'q) option" where
  "drain_loop get acc q out =
     (case get q out of
        None \<Rightarrow> None
      | Some (r, v, q') \<Rightarrow> if r = 0 then Some (acc, q') else drain_loop get (acc @ [v]) q' v)"

locale bounded_fifo =
  fixes invar :: "'q \<Rightarrow> bool"
    and contents :: "'q \<Rightarrow> 'v list"
    and capacity :: "'q \<Rightarrow> nat"
    and try_put :: "'q \<Rightarrow> 'v \<Rightarrow> (int \<times> 'q) option"
    and try_get :: "'q \<Rightarrow> 'v \<Rightarrow> (int \<times> 'v \<times> 'q) option"
  assumes bounded: "invar q \<Longrightarrow> length (contents q) \<le> capacity q"
    and put_full: "invar q \<Longrightarrow> length (contents q) = capacity q \<Longrightarrow> try_put q v = Some (0, q)"
    and put_room: "invar q \<Longrightarrow> length (contents q) < capacity q \<Longrightarrow>
      \<exists>q'. try_put q v = Some (1, q') \<and> invar q' \<and> capacity q' = capacity q \<and>
        contents q' = contents q @ [v]"
    and get_empty: "invar q \<Longrightarrow> contents q = [] \<Longrightarrow> try_get q out = Some (0, out, q)"
    and get_front: "invar q \<Longrightarrow> contents q = x # xs \<Longrightarrow>
      \<exists>q'. try_get q out = Some (1, x, q') \<and> invar q' \<and> capacity q' = capacity q \<and>
        contents q' = xs"
begin

lemma put_all_accepts:
  assumes "invar q"
  shows "\<exists>q'. put_all try_put q vs =
      Some (min (length vs) (capacity q - length (contents q)), q') \<and>
    invar q' \<and> capacity q' = capacity q \<and>
    contents q' = contents q @ take (min (length vs) (capacity q - length (contents q))) vs"
  using assms
proof (induction vs arbitrary: q)
  case Nil
  then show ?case by simp
next
  case (Cons v vs)
  show ?case
  proof (cases "length (contents q) = capacity q")
    case True
    then show ?thesis using put_full [OF Cons.prems(1) True, of v] Cons.prems by simp
  next
    case False
    then have room: "length (contents q) < capacity q"
      using bounded [OF Cons.prems(1)] by simp
    then obtain q' where q': "try_put q v = Some (1, q')" "invar q'" "capacity q' = capacity q"
        "contents q' = contents q @ [v]"
      using put_room [OF Cons.prems(1)] by blast
    obtain q'' where "put_all try_put q' vs =
        Some (min (length vs) (capacity q' - length (contents q')), q'')" "invar q''"
      "capacity q'' = capacity q'"
      "contents q'' = contents q' @ take (min (length vs) (capacity q' - length (contents q'))) vs"
      using Cons.IH [OF q'(2)] by blast
    moreover have "min (length (v # vs)) (capacity q - length (contents q)) =
        Suc (min (length vs) (capacity q - Suc (length (contents q))))"
      using room by simp
    ultimately show ?thesis using q' by simp
  qed
qed

lemma drain_returns_all:
  assumes "invar q"
  shows "\<exists>q'. drain_loop try_get acc q out = Some (acc @ contents q, q') \<and> invar q' \<and>
    contents q' = [] \<and> capacity q' = capacity q"
  using assms
proof (induction "contents q" arbitrary: q acc out)
  case Nil
  then show ?case using get_empty by (subst drain_loop.simps) simp
next
  case (Cons x xs)
  then obtain q' where q': "try_get q out = Some (1, x, q')" "invar q'" "capacity q' = capacity q"
      "contents q' = xs"
    using get_front by metis
  then show ?case
    using Cons.hyps(1) [of q' "acc @ [x]" x] Cons.hyps(2) [symmetric] q'
    by (subst drain_loop.simps) simp
qed

text \<open>What goes in comes out, in order: the accepted prefix behind what was already there.\<close>

lemma fifo_roundtrip:
  assumes "invar q" "put_all try_put q vs = Some (n, q')"
  shows "\<exists>q''. drain_loop try_get [] q' out = Some (contents q @ take n vs, q'') \<and> contents q'' = []"
proof -
  have "invar q'" "contents q' = contents q @ take n vs"
    using put_all_accepts [OF assms(1), of vs] assms(2) by auto
  then show ?thesis using drain_returns_all [of q' "[]" out] by auto
qed

end

text \<open>Bulk transfers: all that fits, at least a minimum, or waiting (\<open>Inr None\<close>).\<close>

locale bulk_fifo = bounded_fifo invar contents capacity try_put try_get
  for invar :: "'q \<Rightarrow> bool" and contents :: "'q \<Rightarrow> 'v list" and capacity :: "'q \<Rightarrow> nat"
    and try_put :: "'q \<Rightarrow> 'v \<Rightarrow> (int \<times> 'q) option"
    and try_get :: "'q \<Rightarrow> 'v \<Rightarrow> (int \<times> 'v \<times> 'q) option" +
  fixes put_bulk :: "'q \<Rightarrow> 'v list \<Rightarrow> nat \<Rightarrow> nat \<Rightarrow> (nat \<times> 'q) option res"
    and get_bulk :: "'q \<Rightarrow> nat \<Rightarrow> nat \<Rightarrow> ('v list \<times> nat \<times> 'q) option res"
  assumes put_bulk_room: "invar q \<Longrightarrow> nb \<le> length vs \<Longrightarrow> mn \<le> nb \<Longrightarrow>
      k = min nb (capacity q - length (contents q)) \<Longrightarrow> mn \<le> k \<Longrightarrow>
      \<exists>q'. put_bulk q vs nb mn = Inr (Some (k, q')) \<and> invar q' \<and> capacity q' = capacity q \<and>
        contents q' = contents q @ take k vs"
    and put_bulk_waits: "invar q \<Longrightarrow> nb \<le> length vs \<Longrightarrow> mn \<le> nb \<Longrightarrow>
      capacity q - length (contents q) < mn \<Longrightarrow> put_bulk q vs nb mn = Inr None"
    and get_bulk_data: "invar q \<Longrightarrow> mn \<le> nb \<Longrightarrow>
      k = min nb (length (contents q)) \<Longrightarrow> mn \<le> k \<Longrightarrow>
      \<exists>q'. get_bulk q nb mn = Inr (Some (take k (contents q), k, q')) \<and> invar q' \<and>
        capacity q' = capacity q \<and> contents q' = drop k (contents q)"
    and get_bulk_waits: "invar q \<Longrightarrow> mn \<le> nb \<Longrightarrow>
      length (contents q) < mn \<Longrightarrow> get_bulk q nb mn = Inr None"
begin

lemma put_bulk_Some:
  assumes "invar q" "nb \<le> length vs" "mn \<le> nb" "put_bulk q vs nb mn = Inr (Some (k, q'))"
  shows "invar q' \<and> capacity q' = capacity q \<and> k = min nb (capacity q - length (contents q)) \<and>
    mn \<le> k \<and> contents q' = contents q @ take k vs"
proof (cases "mn \<le> min nb (capacity q - length (contents q))")
  case True
  then show ?thesis using put_bulk_room [OF assms(1-3) refl True] assms(4) by auto
next
  case False
  then have "capacity q - length (contents q) < mn" using assms(3) by simp
  then show ?thesis using put_bulk_waits [OF assms(1-3)] assms(4) by simp
qed

lemma get_bulk_Some:
  assumes "invar q" "mn \<le> nb" "get_bulk q nb mn = Inr (Some (vs, k, q'))"
  shows "invar q' \<and> capacity q' = capacity q \<and> k = min nb (length (contents q)) \<and>
    mn \<le> k \<and> vs = take k (contents q) \<and> contents q = vs @ contents q'"
proof (cases "mn \<le> min nb (length (contents q))")
  case True
  then show ?thesis using get_bulk_data [OF assms(1-2) refl True] assms(3) by auto
next
  case False
  then have "length (contents q) < mn" using assms(2) by simp
  then show ?thesis using get_bulk_waits [OF assms(1-2)] assms(3) by simp
qed

lemma put_bulk_no_fault:
  assumes "invar q" "nb \<le> length vs" "mn \<le> nb"
  shows "put_bulk q vs nb mn \<noteq> Inl e"
  using put_bulk_room [OF assms refl] put_bulk_waits [OF assms] assms(3)
  by (cases "mn \<le> min nb (capacity q - length (contents q))") fastforce+

lemma get_bulk_no_fault:
  assumes "invar q" "mn \<le> nb"
  shows "get_bulk q nb mn \<noteq> Inl e"
  using get_bulk_data [OF assms refl] get_bulk_waits [OF assms] assms(2)
  by (cases "mn \<le> min nb (length (contents q))") fastforce+

end

section \<open>Double-ended queues\<close>

fun push_all :: "('q \<Rightarrow> 'v \<Rightarrow> 'q res) \<Rightarrow> 'q \<Rightarrow> 'v list \<Rightarrow> 'q res" where
  "push_all push q [] = Inr q"
| "push_all push q (v # vs) = bindr (push q v) (\<lambda>q'. push_all push q' vs)"

fun pop_n :: "('q \<Rightarrow> ('v option \<times> 'q) res) \<Rightarrow> nat \<Rightarrow> 'q \<Rightarrow> ('v option list \<times> 'q) res" where
  "pop_n pop 0 q = Inr ([], q)"
| "pop_n pop (Suc n) q =
     bindr (pop q) (\<lambda>(v, q'). bindr (pop_n pop n q') (\<lambda>(vs, q''). Inr (v # vs, q'')))"

locale deque_impl =
  fixes invar :: "'q \<Rightarrow> bool"
    and contents :: "'q \<Rightarrow> 'v list"
    and push_back push_front :: "'q \<Rightarrow> 'v \<Rightarrow> 'q res"
    and pop_front pop_back :: "'q \<Rightarrow> ('v option \<times> 'q) res"
    and get_size :: "'q \<Rightarrow> nat"
  assumes push_back: "invar q \<Longrightarrow> \<exists>q'. push_back q x = Inr q' \<and> invar q' \<and> contents q' = contents q @ [x]"
    and push_front: "invar q \<Longrightarrow> \<exists>q'. push_front q x = Inr q' \<and> invar q' \<and> contents q' = x # contents q"
    and pop_front_empty: "invar q \<Longrightarrow> contents q = [] \<Longrightarrow> pop_front q = Inr (None, q)"
    and pop_front: "invar q \<Longrightarrow> contents q = x # xs \<Longrightarrow>
      \<exists>q'. pop_front q = Inr (Some x, q') \<and> invar q' \<and> contents q' = xs"
    and pop_back_empty: "invar q \<Longrightarrow> contents q = [] \<Longrightarrow> pop_back q = Inr (None, q)"
    and pop_back: "invar q \<Longrightarrow> contents q = xs @ [x] \<Longrightarrow>
      \<exists>q'. pop_back q = Inr (Some x, q') \<and> invar q' \<and> contents q' = xs"
    and get_size: "invar q \<Longrightarrow> get_size q = length (contents q)"
begin

lemma push_all_back:
  "invar q \<Longrightarrow> \<exists>q'. push_all push_back q xs = Inr q' \<and> invar q' \<and> contents q' = contents q @ xs"
proof (induction xs arbitrary: q)
  case Nil
  then show ?case by simp
next
  case (Cons x xs)
  obtain q1 where "push_back q x = Inr q1" "invar q1" "contents q1 = contents q @ [x]"
    using push_back [OF Cons.prems] by blast
  then show ?case using Cons.IH [of q1] by simp
qed

lemma pop_n_front:
  "invar q \<Longrightarrow> contents q = xs @ ys \<Longrightarrow>
   \<exists>q'. pop_n pop_front (length xs) q = Inr (map Some xs, q') \<and> invar q' \<and> contents q' = ys"
proof (induction xs arbitrary: q)
  case Nil
  then show ?case by simp
next
  case (Cons x xs)
  obtain q1 where "pop_front q = Inr (Some x, q1)" "invar q1" "contents q1 = xs @ ys"
    using pop_front [OF Cons.prems(1)] Cons.prems(2) by auto
  then show ?case using Cons.IH [of q1] by auto
qed

lemma pop_n_back:
  "invar q \<Longrightarrow> contents q = ys @ rev xs \<Longrightarrow>
   \<exists>q'. pop_n pop_back (length xs) q = Inr (map Some xs, q') \<and> invar q' \<and> contents q' = ys"
proof (induction xs arbitrary: q)
  case Nil
  then show ?case by simp
next
  case (Cons x xs)
  obtain q1 where "pop_back q = Inr (Some x, q1)" "invar q1" "contents q1 = ys @ rev xs"
    using pop_back [OF Cons.prems(1), of "ys @ rev xs" x] Cons.prems(2) by auto
  then show ?case using Cons.IH [of q1] by auto
qed

text \<open>Values pushed at the back leave at the front in order, and at the back in reverse.\<close>

lemma queue_then_stack:
  assumes "invar q" "contents q = []"
  shows "\<exists>q1 q2 q3. push_all push_back q xs = Inr q1 \<and> get_size q1 = length xs \<and>
    pop_n pop_front (length xs) q1 = Inr (map Some xs, q2) \<and> contents q2 = [] \<and>
    pop_n pop_back (length xs) q1 = Inr (map Some (rev xs), q3) \<and> contents q3 = []"
proof -
  obtain q1 where q1: "push_all push_back q xs = Inr q1" "invar q1" "contents q1 = xs"
    using push_all_back [OF assms(1), of xs] assms(2) by auto
  then show ?thesis
    using pop_n_front [of q1 xs "[]"] pop_n_back [of q1 "[]" "rev xs"] get_size [of q1] by auto
qed

end

end
