(* ===== verification/Ring_Buffer.thy ===== *)
theory Ring_Buffer
  imports Interfaces
begin

text \<open>
  The bounded FIFO of \<open>lib/data-struct/ring_buffer.c\<close>: an array of \<open>size\<close> slots of
  which one always stays unused, a read index \<open>start\<close> and a write index \<open>end\<close>.
  A \<open>void *\<close> slot is an \<open>'a option\<close>, with \<open>None\<close> the null pointer; the null
  \<open>elements\<close> array of a zeroed buffer is the empty list.

  This theory gives the operations as one thread executes them. An operation that waits for
  another thread returns \<open>None\<close>: nothing else runs, so it never returns. The mutexes
  and the condition variables have no effect on such a run; they are the subject of the
  theory \<open>Ring_Buffer_Conc\<close>.
\<close>

section \<open>The structure and its operations\<close>

record 'a libtrace_ringbuffer =
  rb_start :: size_t
  rb_size :: size_t
  rb_mode :: int
  rb_elements :: "'a option list"
  rb_end :: size_t

definition LIBTRACE_RINGBUFFER_BLOCKING :: int where
  "LIBTRACE_RINGBUFFER_BLOCKING = 0"

definition LIBTRACE_RINGBUFFER_POLLING :: int where
  "LIBTRACE_RINGBUFFER_POLLING = 1"

text \<open>
  \<open>calloc_ok n\<close> tells whether \<open>calloc\<close> finds room for \<open>n\<close> pointers. The caller's
  \<open>size\<close> is incremented first, so that \<open>SIZE_MAX\<close> wraps to \<open>0\<close> and is refused.
\<close>

definition libtrace_ringbuffer_init ::
  "(nat \<Rightarrow> bool) \<Rightarrow> 'a libtrace_ringbuffer \<Rightarrow> size_t \<Rightarrow> int \<Rightarrow> int \<times> 'a libtrace_ringbuffer" where
  "libtrace_ringbuffer_init calloc_ok rb size0 mode =
     (let sz = size0 + 1 in
      if \<not> sz > 1 then (-1, rb)
      else let rb1 = rb\<lparr>rb_size := sz, rb_start := 0, rb_end := 0\<rparr> in
        if \<not> calloc_ok (unat sz) then (-1, rb1\<lparr>rb_elements := []\<rparr>)
        else (0, rb1\<lparr>rb_elements := replicate (unat sz) None, rb_mode := mode\<rparr>))"

definition libtrace_ringbuffer_destroy :: "'a libtrace_ringbuffer \<Rightarrow> 'a libtrace_ringbuffer" where
  "libtrace_ringbuffer_destroy rb =
     rb\<lparr>rb_size := 0, rb_start := 0, rb_end := 0, rb_elements := []\<rparr>"

definition libtrace_zero_ringbuffer :: "'a libtrace_ringbuffer \<Rightarrow> 'a libtrace_ringbuffer" where
  "libtrace_zero_ringbuffer rb =
     rb\<lparr>rb_start := 0, rb_end := 0, rb_size := 0, rb_elements := []\<rparr>"

definition libtrace_ringbuffer_is_empty :: "'a libtrace_ringbuffer \<Rightarrow> bool" where
  "libtrace_ringbuffer_is_empty rb \<longleftrightarrow> rb_start rb = rb_end rb"

definition libtrace_ringbuffer_is_full :: "'a libtrace_ringbuffer \<Rightarrow> bool" where
  "libtrace_ringbuffer_is_full rb \<longleftrightarrow> rb_start rb = (rb_end rb + 1) mod rb_size rb"

definition libtrace_ringbuffer_nb_full :: "'a libtrace_ringbuffer \<Rightarrow> size_t" where
  "libtrace_ringbuffer_nb_full rb =
     (if rb_end rb < rb_start rb then rb_end rb + rb_size rb - rb_start rb
      else rb_end rb - rb_start rb)"

definition libtrace_ringbuffer_nb_empty :: "'a libtrace_ringbuffer \<Rightarrow> size_t" where
  "libtrace_ringbuffer_nb_empty rb =
     (if rb_start rb \<le> rb_end rb then rb_start rb + rb_size rb - rb_end rb - 1
      else rb_start rb - rb_end rb - 1)"

text \<open>Both modes of waiting return exactly when the condition they wait for holds.\<close>

definition wait_for_empty :: "'a libtrace_ringbuffer \<Rightarrow> unit option" where
  "wait_for_empty rb = (if libtrace_ringbuffer_is_full rb then None else Some ())"

definition wait_for_full :: "'a libtrace_ringbuffer \<Rightarrow> unit option" where
  "wait_for_full rb = (if libtrace_ringbuffer_is_empty rb then None else Some ())"

definition libtrace_ringbuffer_write ::
  "'a libtrace_ringbuffer \<Rightarrow> 'a option \<Rightarrow> 'a libtrace_ringbuffer option" where
  "libtrace_ringbuffer_write rb value =
     (case wait_for_empty rb of
        None \<Rightarrow> None
      | Some _ \<Rightarrow>
          Some (rb\<lparr>rb_elements := (rb_elements rb)[unat (rb_end rb) := value],
                   rb_end := (rb_end rb + 1) mod rb_size rb\<rparr>))"

definition libtrace_ringbuffer_read ::
  "'a libtrace_ringbuffer \<Rightarrow> ('a option \<times> 'a libtrace_ringbuffer) option" where
  "libtrace_ringbuffer_read rb =
     (case wait_for_full rb of
        None \<Rightarrow> None
      | Some _ \<Rightarrow>
          Some (rb_elements rb ! unat (rb_start rb),
                rb\<lparr>rb_start := (rb_start rb + 1) mod rb_size rb\<rparr>))"

text \<open>A \<open>try\<close> operation returns 0 and leaves the buffer alone when it cannot proceed.\<close>

definition libtrace_ringbuffer_try_write ::
  "'a libtrace_ringbuffer \<Rightarrow> 'a option \<Rightarrow> (int \<times> 'a libtrace_ringbuffer) option" where
  "libtrace_ringbuffer_try_write rb value =
     (if libtrace_ringbuffer_is_full rb then Some (0, rb)
      else map_option (\<lambda>rb'. (1, rb')) (libtrace_ringbuffer_write rb value))"

definition libtrace_ringbuffer_try_read ::
  "'a libtrace_ringbuffer \<Rightarrow> 'a option \<Rightarrow> (int \<times> 'a option \<times> 'a libtrace_ringbuffer) option" where
  "libtrace_ringbuffer_try_read rb out =
     (if libtrace_ringbuffer_is_empty rb then Some (0, out, rb)
      else map_option (\<lambda>(v, rb'). (1, v, rb')) (libtrace_ringbuffer_read rb))"

text \<open>
  The copying loops of the bulk operations. \<open>write_loop\<close> stores the values it is given
  from index \<open>end\<close> on, \<open>read_loop\<close> collects \<open>n\<close> slots from index \<open>start\<close> on.
\<close>

fun write_loop ::
  "size_t \<Rightarrow> 'a option list \<Rightarrow> size_t \<Rightarrow> 'a option list \<Rightarrow> 'a option list \<times> size_t" where
  "write_loop sz elements en [] = (elements, en)"
| "write_loop sz elements en (v # vs) =
     write_loop sz (elements[unat en := v]) ((en + 1) mod sz) vs"

fun read_loop ::
  "size_t \<Rightarrow> 'a option list \<Rightarrow> size_t \<Rightarrow> nat \<Rightarrow> 'a option list \<times> size_t" where
  "read_loop sz elements st 0 = ([], st)"
| "read_loop sz elements st (Suc n) =
     (let (vs, st') = read_loop sz elements ((st + 1) mod sz) n
      in (elements ! unat st # vs, st'))"

text \<open>
  The \<open>do\<close> \<open>while\<close> loops. \<open>i\<close> counts the buffers moved so far and never passes
  \<open>nb_buffers\<close>, so it is kept as a natural number.
\<close>

partial_function (option) write_bulk_loop ::
  "'a libtrace_ringbuffer \<Rightarrow> 'a option list \<Rightarrow> nat \<Rightarrow> nat \<Rightarrow> nat \<Rightarrow> (nat \<times> 'a libtrace_ringbuffer) option"
  where
  "write_bulk_loop rb values nb_buffers min_nb_buffers i =
     (case wait_for_empty rb of
        None \<Rightarrow> None
      | Some _ \<Rightarrow>
          (let nb_ready = min (unat (libtrace_ringbuffer_nb_empty rb)) (nb_buffers - i);
               (elements, en) = write_loop (rb_size rb) (rb_elements rb) (rb_end rb)
                                  (take nb_ready (drop i values));
               rb' = rb\<lparr>rb_elements := elements, rb_end := en\<rparr>;
               i' = i + nb_ready
           in if i' < min_nb_buffers
              then write_bulk_loop rb' values nb_buffers min_nb_buffers i'
              else Some (i', rb')))"

partial_function (option) read_bulk_loop ::
  "'a libtrace_ringbuffer \<Rightarrow> 'a option list \<Rightarrow> nat \<Rightarrow> nat \<Rightarrow> nat \<Rightarrow>
     ('a option list \<times> nat \<times> 'a libtrace_ringbuffer) option"
  where
  "read_bulk_loop rb values nb_buffers min_nb_buffers i =
     (case wait_for_full rb of
        None \<Rightarrow> None
      | Some _ \<Rightarrow>
          (let nb_ready = min (unat (libtrace_ringbuffer_nb_full rb)) (nb_buffers - i);
               (vs, st) = read_loop (rb_size rb) (rb_elements rb) (rb_start rb) nb_ready;
               rb' = rb\<lparr>rb_start := st\<rparr>;
               values' = values @ vs;
               i' = i + nb_ready
           in if i' < min_nb_buffers
              then read_bulk_loop rb' values' nb_buffers min_nb_buffers i'
              else Some (values', i', rb')))"

text \<open>
  The bulk operations. A failed \<open>assert\<close> is the fault \<open>AssertFail\<close>; \<open>Inr None\<close> is
  a call that waits forever. Reading returns the values that were filled in.
\<close>

definition libtrace_ringbuffer_write_bulk ::
  "'a libtrace_ringbuffer \<Rightarrow> 'a option list \<Rightarrow> nat \<Rightarrow> nat \<Rightarrow> (nat \<times> 'a libtrace_ringbuffer) option res" where
  "libtrace_ringbuffer_write_bulk rb values nb_buffers min_nb_buffers =
     assertr (min_nb_buffers \<le> nb_buffers)
       (if min_nb_buffers = 0 \<and> libtrace_ringbuffer_is_full rb then Inr (Some (0, rb))
        else Inr (write_bulk_loop rb values nb_buffers min_nb_buffers 0))"

definition libtrace_ringbuffer_read_bulk ::
  "'a libtrace_ringbuffer \<Rightarrow> nat \<Rightarrow> nat \<Rightarrow> ('a option list \<times> nat \<times> 'a libtrace_ringbuffer) option res" where
  "libtrace_ringbuffer_read_bulk rb nb_buffers min_nb_buffers =
     assertr (min_nb_buffers \<le> nb_buffers)
       (if min_nb_buffers = 0 \<and> libtrace_ringbuffer_is_empty rb then Inr (Some ([], 0, rb))
        else Inr (read_bulk_loop rb [] nb_buffers min_nb_buffers 0))"

text \<open>
  The thread safe operations. Acquiring a free mutex succeeds, so in a run of one thread only
  the early checks remain of what they add.
\<close>

definition libtrace_ringbuffer_swrite ::
  "'a libtrace_ringbuffer \<Rightarrow> 'a option \<Rightarrow> 'a libtrace_ringbuffer option" where
  "libtrace_ringbuffer_swrite rb value = libtrace_ringbuffer_write rb value"

definition libtrace_ringbuffer_swrite_bulk ::
  "'a libtrace_ringbuffer \<Rightarrow> 'a option list \<Rightarrow> nat \<Rightarrow> nat \<Rightarrow> (nat \<times> 'a libtrace_ringbuffer) option res" where
  "libtrace_ringbuffer_swrite_bulk rb values nb_buffers min_nb_buffers =
     (if min_nb_buffers = 0 \<and> libtrace_ringbuffer_is_full rb then Inr (Some (0, rb))
      else libtrace_ringbuffer_write_bulk rb values nb_buffers min_nb_buffers)"

definition libtrace_ringbuffer_try_swrite ::
  "'a libtrace_ringbuffer \<Rightarrow> 'a option \<Rightarrow> (int \<times> 'a libtrace_ringbuffer) option" where
  "libtrace_ringbuffer_try_swrite rb value =
     (if libtrace_ringbuffer_is_full rb then Some (0, rb)
      else libtrace_ringbuffer_try_write rb value)"

definition libtrace_ringbuffer_try_swrite_bl ::
  "'a libtrace_ringbuffer \<Rightarrow> 'a option \<Rightarrow> (int \<times> 'a libtrace_ringbuffer) option" where
  "libtrace_ringbuffer_try_swrite_bl rb value =
     (if libtrace_ringbuffer_is_full rb then Some (0, rb)
      else libtrace_ringbuffer_try_write rb value)"

definition libtrace_ringbuffer_sread ::
  "'a libtrace_ringbuffer \<Rightarrow> ('a option \<times> 'a libtrace_ringbuffer) option" where
  "libtrace_ringbuffer_sread rb = libtrace_ringbuffer_read rb"

definition libtrace_ringbuffer_sread_bulk ::
  "'a libtrace_ringbuffer \<Rightarrow> nat \<Rightarrow> nat \<Rightarrow> ('a option list \<times> nat \<times> 'a libtrace_ringbuffer) option res" where
  "libtrace_ringbuffer_sread_bulk rb nb_buffers min_nb_buffers =
     (if min_nb_buffers = 0 \<and> libtrace_ringbuffer_is_empty rb then Inr (Some ([], 0, rb))
      else libtrace_ringbuffer_read_bulk rb nb_buffers min_nb_buffers)"

definition libtrace_ringbuffer_try_sread ::
  "'a libtrace_ringbuffer \<Rightarrow> 'a option \<Rightarrow> (int \<times> 'a option \<times> 'a libtrace_ringbuffer) option" where
  "libtrace_ringbuffer_try_sread rb out =
     (if libtrace_ringbuffer_is_empty rb then Some (0, out, rb)
      else libtrace_ringbuffer_try_read rb out)"

definition libtrace_ringbuffer_try_sread_bl ::
  "'a libtrace_ringbuffer \<Rightarrow> 'a option \<Rightarrow> (int \<times> 'a option \<times> 'a libtrace_ringbuffer) option" where
  "libtrace_ringbuffer_try_sread_bl rb out =
     (if libtrace_ringbuffer_is_empty rb then Some (0, out, rb)
      else libtrace_ringbuffer_try_read rb out)"

section \<open>Well-formed buffers and their contents\<close>

definition rb_inv :: "'a libtrace_ringbuffer \<Rightarrow> bool" where
  "rb_inv rb \<longleftrightarrow> 1 < unat (rb_size rb) \<and> unat (rb_size rb) < 2 ^ 63 \<and>
     length (rb_elements rb) = unat (rb_size rb) \<and>
     rb_start rb < rb_size rb \<and> rb_end rb < rb_size rb"

text \<open>The number of occupied slots, as the commented-out formula of the source computes it.\<close>

definition rb_count :: "'a libtrace_ringbuffer \<Rightarrow> nat" where
  "rb_count rb = (unat (rb_end rb) + unat (rb_size rb) - unat (rb_start rb)) mod unat (rb_size rb)"

definition rb_contents :: "'a libtrace_ringbuffer \<Rightarrow> 'a option list" where
  "rb_contents rb = ring_slice (rb_elements rb) (unat (rb_start rb)) (rb_count rb)"

definition rb_capacity :: "'a libtrace_ringbuffer \<Rightarrow> nat" where
  "rb_capacity rb = unat (rb_size rb) - 1"

lemma rb_invD:
  assumes "rb_inv rb"
  shows "1 < unat (rb_size rb)" "unat (rb_size rb) < 2 ^ 63"
    "length (rb_elements rb) = unat (rb_size rb)"
    "unat (rb_start rb) < unat (rb_size rb)" "unat (rb_end rb) < unat (rb_size rb)"
    "rb_start rb < rb_size rb" "rb_end rb < rb_size rb"
  using assms by (simp_all add: rb_inv_def word_less_nat_alt)

lemma rb_count_cases:
  assumes "rb_inv rb"
  shows "rb_count rb = (if unat (rb_start rb) \<le> unat (rb_end rb)
           then unat (rb_end rb) - unat (rb_start rb)
           else unat (rb_end rb) + unat (rb_size rb) - unat (rb_start rb))"
  using rb_invD [OF assms] by (auto simp: rb_count_def le_mod_geq)

lemma rb_count_less: "rb_inv rb \<Longrightarrow> rb_count rb < unat (rb_size rb)"
  using rb_invD [of rb] by (auto simp: rb_count_def intro: mod_less_divisor)

lemma rb_end_eq:
  assumes "rb_inv rb"
  shows "unat (rb_end rb) = (unat (rb_start rb) + rb_count rb) mod unat (rb_size rb)"
  using rb_invD [OF assms] by (auto simp: rb_count_cases [OF assms])

lemma is_empty_iff:
  assumes "rb_inv rb"
  shows "libtrace_ringbuffer_is_empty rb \<longleftrightarrow> rb_count rb = 0"
  using rb_invD [OF assms]
  by (auto simp: libtrace_ringbuffer_is_empty_def rb_count_cases [OF assms] word_unat_eq_iff)

lemma is_full_iff:
  assumes "rb_inv rb"
  shows "libtrace_ringbuffer_is_full rb \<longleftrightarrow> rb_count rb = rb_capacity rb"
proof -
  note inv = rb_invD [OF assms]
  have "libtrace_ringbuffer_is_full rb \<longleftrightarrow>
      unat (rb_start rb) = Suc (unat (rb_end rb)) mod unat (rb_size rb)"
    using inv by (simp add: libtrace_ringbuffer_is_full_def word_unat_eq_iff unat_succ_mod)
  also have "\<dots> \<longleftrightarrow> rb_count rb = rb_capacity rb"
    using inv by (auto simp: rb_count_cases [OF assms] rb_capacity_def mod_Suc)
  finally show ?thesis .
qed

lemma nb_full_eq:
  assumes "rb_inv rb"
  shows "unat (libtrace_ringbuffer_nb_full rb) = rb_count rb"
  using rb_invD [OF assms]
  by (auto simp: libtrace_ringbuffer_nb_full_def rb_count_cases [OF assms] word_less_nat_alt
      unat_word_ariths unat_sub_if' unat_plus_if')

lemma nb_empty_eq:
  assumes "rb_inv rb"
  shows "unat (libtrace_ringbuffer_nb_empty rb) = rb_capacity rb - rb_count rb"
  using rb_invD [OF assms]
  by (auto simp: libtrace_ringbuffer_nb_empty_def rb_count_cases [OF assms] rb_capacity_def
      word_le_nat_alt unat_sub_if' unat_plus_if')

lemma length_rb_contents [simp]: "length (rb_contents rb) = rb_count rb"
  by (simp add: rb_contents_def)

section \<open>Single transfers\<close>

definition rb_push :: "'a libtrace_ringbuffer \<Rightarrow> 'a option \<Rightarrow> 'a libtrace_ringbuffer" where
  "rb_push rb v = rb\<lparr>rb_elements := (rb_elements rb)[unat (rb_end rb) := v],
                      rb_end := (rb_end rb + 1) mod rb_size rb\<rparr>"

definition rb_pop :: "'a libtrace_ringbuffer \<Rightarrow> 'a libtrace_ringbuffer" where
  "rb_pop rb = rb\<lparr>rb_start := (rb_start rb + 1) mod rb_size rb\<rparr>"

lemma rb_push_sel [simp]:
  "rb_size (rb_push rb v) = rb_size rb" "rb_start (rb_push rb v) = rb_start rb"
  "rb_mode (rb_push rb v) = rb_mode rb" "rb_capacity (rb_push rb v) = rb_capacity rb"
  "rb_end (rb_push rb v) = (rb_end rb + 1) mod rb_size rb"
  "rb_elements (rb_push rb v) = (rb_elements rb)[unat (rb_end rb) := v]"
  by (simp_all add: rb_push_def rb_capacity_def)

lemma rb_pop_sel [simp]:
  "rb_size (rb_pop rb) = rb_size rb" "rb_end (rb_pop rb) = rb_end rb"
  "rb_elements (rb_pop rb) = rb_elements rb" "rb_capacity (rb_pop rb) = rb_capacity rb"
  "rb_mode (rb_pop rb) = rb_mode rb" "rb_start (rb_pop rb) = (rb_start rb + 1) mod rb_size rb"
  by (simp_all add: rb_pop_def rb_capacity_def)

lemma succ_mod_less:
  fixes e :: size_t
  assumes "e < sz"
  shows "(e + 1) mod sz < sz"
proof -
  have "0 < unat sz" using assms by (simp add: word_less_nat_alt)
  then show ?thesis using assms by (simp add: word_less_nat_alt unat_succ_mod)
qed

lemma rb_inv_push: "rb_inv rb \<Longrightarrow> rb_inv (rb_push rb v)"
  by (simp add: rb_inv_def succ_mod_less)

lemma rb_inv_pop: "rb_inv rb \<Longrightarrow> rb_inv (rb_pop rb)"
  by (simp add: rb_inv_def succ_mod_less)

lemma rb_count_push:
  assumes "rb_inv rb" "rb_count rb < rb_capacity rb"
  shows "rb_count (rb_push rb v) = Suc (rb_count rb)"
  using rb_invD [OF assms(1)] assms(2) rb_count_cases [OF rb_inv_push [OF assms(1), of v]]
  by (auto simp: rb_count_cases [OF assms(1)] rb_capacity_def unat_succ_mod mod_Suc
      split: if_splits)

lemma rb_count_pop:
  assumes "rb_inv rb" "0 < rb_count rb"
  shows "rb_count (rb_pop rb) = rb_count rb - 1"
  using rb_invD [OF assms(1)] assms(2) rb_count_cases [OF rb_inv_pop [OF assms(1)]]
  by (auto simp: rb_count_cases [OF assms(1)] unat_succ_mod mod_Suc split: if_splits)

lemma rb_contents_push:
  assumes "rb_inv rb" "rb_count rb < rb_capacity rb"
  shows "rb_contents (rb_push rb v) = rb_contents rb @ [v]"
  using ring_slice_upd_end [of "rb_count rb" "rb_elements rb" "unat (rb_start rb)" v]
    rb_invD [OF assms(1)] assms(2)
  by (simp add: rb_contents_def rb_count_push [OF assms] rb_end_eq [OF assms(1)] rb_capacity_def)

lemma rb_contents_pop:
  assumes "rb_inv rb" "0 < rb_count rb"
  shows "rb_contents rb = rb_elements rb ! unat (rb_start rb) # rb_contents (rb_pop rb)"
  using ring_slice_Cons [of "unat (rb_start rb)" "rb_elements rb" "rb_count rb - 1"]
    rb_invD [OF assms(1)] assms(2)
  by (simp add: rb_contents_def rb_count_pop [OF assms] unat_succ_mod)

lemmas rb_op_defs = libtrace_ringbuffer_write_def libtrace_ringbuffer_read_def
  libtrace_ringbuffer_try_write_def libtrace_ringbuffer_try_read_def
  wait_for_empty_def wait_for_full_def

lemma ringbuffer_write_eq:
  "libtrace_ringbuffer_write rb v = (if libtrace_ringbuffer_is_full rb then None else Some (rb_push rb v))"
  by (simp add: rb_op_defs rb_push_def)

lemma ringbuffer_read_eq:
  "libtrace_ringbuffer_read rb = (if libtrace_ringbuffer_is_empty rb then None
     else Some (rb_elements rb ! unat (rb_start rb), rb_pop rb))"
  by (simp add: rb_op_defs rb_pop_def)

section \<open>Bulk transfers\<close>

lemma write_loop_spec:
  assumes "rb_inv rb" "rb_count rb + length vs \<le> rb_capacity rb"
    and "write_loop (rb_size rb) (rb_elements rb) (rb_end rb) vs = (els, en)"
  shows "rb_inv (rb\<lparr>rb_elements := els, rb_end := en\<rparr>) \<and>
    rb_contents (rb\<lparr>rb_elements := els, rb_end := en\<rparr>) = rb_contents rb @ vs"
  using assms
proof (induction vs arbitrary: rb)
  case Nil
  then show ?case by (cases rb) auto
next
  case (Cons v vs)
  have upd: "(rb_push rb v)\<lparr>rb_elements := els, rb_end := en\<rparr> = rb\<lparr>rb_elements := els, rb_end := en\<rparr>"
    by (simp add: rb_push_def)
  have room: "rb_count rb < rb_capacity rb" using Cons.prems(2) by simp
  show ?case
    using Cons.IH [of "rb_push rb v"] Cons.prems room
    by (simp add: rb_inv_push rb_count_push rb_contents_push upd)
qed

lemma read_loop_spec:
  assumes "rb_inv rb" "n \<le> rb_count rb"
    and "read_loop (rb_size rb) (rb_elements rb) (rb_start rb) n = (vs, st)"
  shows "rb_inv (rb\<lparr>rb_start := st\<rparr>) \<and> vs = take n (rb_contents rb) \<and>
    rb_contents (rb\<lparr>rb_start := st\<rparr>) = drop n (rb_contents rb)"
  using assms
proof (induction n arbitrary: rb vs)
  case 0
  then show ?case by (cases rb) auto
next
  case (Suc n)
  have upd: "(rb_pop rb)\<lparr>rb_start := st\<rparr> = rb\<lparr>rb_start := st\<rparr>"
    by (simp add: rb_pop_def)
  obtain ws where ws: "read_loop (rb_size rb) (rb_elements rb) ((rb_start rb + 1) mod rb_size rb) n
      = (ws, st)" and vs: "vs = rb_elements rb ! unat (rb_start rb) # ws"
    using Suc.prems(3) by (auto split: prod.splits)
  have pos: "0 < rb_count rb" using Suc.prems(2) by simp
  show ?case
    using Suc.IH [of "rb_pop rb" ws] Suc.prems(1,2) ws pos
    by (simp add: vs rb_inv_pop rb_count_pop rb_contents_pop upd)
qed

text \<open>
  One round of a bulk loop moves everything that fits; if that is less than the minimum, the
  next round finds the buffer full (or empty) and waits.
\<close>

lemma rb_capacity_start [simp]: "rb_capacity (rb\<lparr>rb_start := st\<rparr>) = rb_capacity rb"
  by (simp add: rb_capacity_def)

lemma rb_capacity_end [simp]:
  "rb_capacity (rb\<lparr>rb_elements := els, rb_end := en\<rparr>) = rb_capacity rb"
  by (simp add: rb_capacity_def)

lemma write_bulk_loop_blocks:
  "rb_inv rb \<Longrightarrow> rb_count rb = rb_capacity rb \<Longrightarrow> write_bulk_loop rb values nb mn i = None"
  by (subst write_bulk_loop.simps) (simp add: wait_for_empty_def is_full_iff)

lemma read_bulk_loop_blocks:
  "rb_inv rb \<Longrightarrow> rb_count rb = 0 \<Longrightarrow> read_bulk_loop rb values nb mn i = None"
  by (subst read_bulk_loop.simps) (simp add: wait_for_full_def is_empty_iff)

lemma write_bulk_loop_spec:
  assumes inv: "rb_inv rb" and room: "rb_count rb < rb_capacity rb"
    and le: "mn \<le> nb" "nb \<le> length values"
  defines "k \<equiv> min (rb_capacity rb - rb_count rb) nb"
  shows "if mn \<le> k
    then \<exists>rb'. write_bulk_loop rb values nb mn 0 = Some (k, rb') \<and> rb_inv rb' \<and>
           rb_contents rb' = rb_contents rb @ take k values \<and> rb_capacity rb' = rb_capacity rb
    else write_bulk_loop rb values nb mn 0 = None"
proof -
  obtain els en where wl:
    "write_loop (rb_size rb) (rb_elements rb) (rb_end rb) (take k values) = (els, en)"
    by fastforce
  let ?rb' = "rb\<lparr>rb_elements := els, rb_end := en\<rparr>"
  have k: "length (take k values) = k" and fits: "rb_count rb + k \<le> rb_capacity rb"
    using le room by (auto simp: k_def)
  have spec: "rb_inv ?rb'" "rb_contents ?rb' = rb_contents rb @ take k values"
    using write_loop_spec [OF inv _ wl] k fits by simp_all
  have count: "rb_count ?rb' = rb_count rb + k"
    using arg_cong [OF spec(2), of length] k by simp
  have step: "write_bulk_loop rb values nb mn 0 =
      (if k < mn then write_bulk_loop ?rb' values nb mn k else Some (k, ?rb'))"
    using room wl
    by (subst write_bulk_loop.simps)
      (simp add: wait_for_empty_def is_full_iff [OF inv] nb_empty_eq [OF inv] k_def [symmetric])
  show ?thesis
  proof (cases "mn \<le> k")
    case True
    then show ?thesis using step spec by simp
  next
    case False
    then have "k = rb_capacity rb - rb_count rb" using le by (auto simp: k_def)
    then have "write_bulk_loop ?rb' values nb mn k = None"
      using spec(1) count room by (intro write_bulk_loop_blocks) simp_all
    then show ?thesis using False step by simp
  qed
qed

lemma read_bulk_loop_spec:
  assumes inv: "rb_inv rb" and data: "0 < rb_count rb" and le: "mn \<le> nb"
  defines "k \<equiv> min (rb_count rb) nb"
  shows "if mn \<le> k
    then \<exists>rb'. read_bulk_loop rb [] nb mn 0 = Some (take k (rb_contents rb), k, rb') \<and> rb_inv rb' \<and>
           rb_contents rb' = drop k (rb_contents rb) \<and> rb_capacity rb' = rb_capacity rb
    else read_bulk_loop rb [] nb mn 0 = None"
proof -
  obtain vs st where rl: "read_loop (rb_size rb) (rb_elements rb) (rb_start rb) k = (vs, st)"
    by fastforce
  let ?rb' = "rb\<lparr>rb_start := st\<rparr>"
  have spec: "rb_inv ?rb'" "vs = take k (rb_contents rb)" "rb_contents ?rb' = drop k (rb_contents rb)"
    using read_loop_spec [OF inv _ rl] by (simp_all add: k_def)
  have count: "rb_count ?rb' = rb_count rb - k"
    using arg_cong [OF spec(3), of length] by simp
  have step: "read_bulk_loop rb [] nb mn 0 =
      (if k < mn then read_bulk_loop ?rb' vs nb mn k else Some (vs, k, ?rb'))"
    using data rl
    by (subst read_bulk_loop.simps)
      (simp add: wait_for_full_def is_empty_iff [OF inv] nb_full_eq [OF inv] k_def [symmetric])
  show ?thesis
  proof (cases "mn \<le> k")
    case True
    then show ?thesis using step spec by simp
  next
    case False
    then have "k = rb_count rb" using le by (auto simp: k_def)
    then have "read_bulk_loop ?rb' vs nb mn k = None"
      using spec(1) count by (intro read_bulk_loop_blocks) simp_all
    then show ?thesis using False step by simp
  qed
qed

section \<open>The ring buffer is a bounded FIFO with bulk transfers\<close>

lemma try_write_full:
  "rb_inv rb \<Longrightarrow> rb_count rb = rb_capacity rb \<Longrightarrow> libtrace_ringbuffer_try_write rb v = Some (0, rb)"
  by (simp add: libtrace_ringbuffer_try_write_def is_full_iff)

lemma try_write_room:
  "rb_inv rb \<Longrightarrow> rb_count rb < rb_capacity rb \<Longrightarrow>
     libtrace_ringbuffer_try_write rb v = Some (1, rb_push rb v)"
  by (simp add: libtrace_ringbuffer_try_write_def ringbuffer_write_eq is_full_iff)

lemma try_read_empty:
  "rb_inv rb \<Longrightarrow> rb_count rb = 0 \<Longrightarrow> libtrace_ringbuffer_try_read rb out = Some (0, out, rb)"
  by (simp add: libtrace_ringbuffer_try_read_def is_empty_iff)

lemma try_read_data:
  "rb_inv rb \<Longrightarrow> 0 < rb_count rb \<Longrightarrow>
     libtrace_ringbuffer_try_read rb out = Some (1, rb_elements rb ! unat (rb_start rb), rb_pop rb)"
  by (simp add: libtrace_ringbuffer_try_read_def ringbuffer_read_eq is_empty_iff)

lemma rb_count_le_capacity: "rb_inv rb \<Longrightarrow> rb_count rb \<le> rb_capacity rb"
  using rb_count_less [of rb] by (simp add: rb_capacity_def)

interpretation rb_fifo: bounded_fifo rb_inv rb_contents rb_capacity
  libtrace_ringbuffer_try_write libtrace_ringbuffer_try_read
proof (unfold_locales, goal_cases)
  case (1 q) then show ?case by (simp add: rb_count_le_capacity)
next
  case (2 q v) then show ?case by (simp add: try_write_full)
next
  case (3 q v) then show ?case
    by (simp add: try_write_room rb_inv_push rb_contents_push)
next
  case (4 q out) then show ?case
    by (simp add: try_read_empty flip: length_0_conv)
next
  case (5 q x xs out)
  then have "0 < rb_count q" by (metis length_rb_contents length_greater_0_conv list.distinct(1))
  with 5 show ?case
    using rb_contents_pop [of q] by (simp add: try_read_data rb_inv_pop)
qed

lemma swrite_bulk_eq:
  "libtrace_ringbuffer_swrite_bulk rb values nb mn =
     (if mn = 0 \<and> libtrace_ringbuffer_is_full rb then Inr (Some (0, rb))
      else assertr (mn \<le> nb) (Inr (write_bulk_loop rb values nb mn 0)))"
  by (simp add: libtrace_ringbuffer_swrite_bulk_def libtrace_ringbuffer_write_bulk_def)

lemma sread_bulk_eq:
  "libtrace_ringbuffer_sread_bulk rb nb mn =
     (if mn = 0 \<and> libtrace_ringbuffer_is_empty rb then Inr (Some ([], 0, rb))
      else assertr (mn \<le> nb) (Inr (read_bulk_loop rb [] nb mn 0)))"
  by (simp add: libtrace_ringbuffer_sread_bulk_def libtrace_ringbuffer_read_bulk_def)

interpretation rb_bulk: bulk_fifo rb_inv rb_contents rb_capacity
  libtrace_ringbuffer_try_write libtrace_ringbuffer_try_read
  libtrace_ringbuffer_swrite_bulk libtrace_ringbuffer_sread_bulk
proof (unfold_locales, goal_cases)
  case (1 q nb vs mn k)
  then show ?case
    using rb_count_le_capacity [of q] write_bulk_loop_spec [of q mn nb vs]
    by (cases "rb_count q = rb_capacity q")
      (auto simp: swrite_bulk_eq is_full_iff write_bulk_loop_blocks min.commute)
next
  case (2 q nb vs mn)
  then show ?case
    using rb_count_le_capacity [of q] write_bulk_loop_spec [of q mn nb vs]
    by (cases "rb_count q = rb_capacity q")
      (auto simp: swrite_bulk_eq is_full_iff write_bulk_loop_blocks min.commute split: if_splits)
next
  case (3 q mn nb k)
  then show ?case
    using read_bulk_loop_spec [of q mn nb]
    by (cases "rb_count q = 0")
      (auto simp: sread_bulk_eq is_empty_iff read_bulk_loop_blocks min.commute)
next
  case (4 q mn nb)
  then show ?case
    using read_bulk_loop_spec [of q mn nb]
    by (cases "rb_count q = 0")
      (auto simp: sread_bulk_eq is_empty_iff read_bulk_loop_blocks min.commute split: if_splits)
qed

section \<open>Properties\<close>

lemma ringbuffer_init_eq:
  "libtrace_ringbuffer_init calloc_ok rb n mode =
     (if n = 0 \<or> n = -1 then (-1, rb)
      else if \<not> calloc_ok (Suc (unat n))
      then (-1, rb\<lparr>rb_size := n + 1, rb_start := 0, rb_end := 0, rb_elements := []\<rparr>)
      else (0, \<lparr>rb_start = 0, rb_size = n + 1, rb_mode = mode,
                rb_elements = replicate (Suc (unat n)) None, rb_end = 0\<rparr>))"
proof -
  have "unat (n + 1) = Suc (unat n)" if "n \<noteq> -1"
    using that unatSuc [of n] by (simp add: add.commute eq_neg_iff_add_eq_0)
  moreover have "1 < n + 1 \<longleftrightarrow> n \<noteq> 0 \<and> n \<noteq> -1"
    using calculation by (cases "n = -1") (auto simp: word_less_nat_alt unat_gt_0)
  ultimately show ?thesis
    by (cases rb) (auto simp: libtrace_ringbuffer_init_def Let_def)
qed

text \<open>
  Initialisation. Given an allocator that refuses requests whose byte size does not fit
  in a \<open>size_t\<close>, \<open>libtrace_ringbuffer_init\<close> succeeds exactly when the requested size
  is neither 0 nor \<open>SIZE_MAX\<close> and the memory is there; it then leaves a well-formed, empty
  buffer in which all the requested slots are usable.
\<close>

theorem ringbuffer_init_correct:
  assumes "\<And>n. calloc_ok n \<Longrightarrow> n * 8 < 2 ^ 64"
    and "libtrace_ringbuffer_init calloc_ok rb n mode = (r, rb')"
  shows "(r = 0 \<longleftrightarrow> n \<noteq> 0 \<and> n \<noteq> -1 \<and> calloc_ok (Suc (unat n))) \<and>
    (r = 0 \<longrightarrow> rb_inv rb' \<and> rb_contents rb' = [] \<and> rb_capacity rb' = unat n \<and> rb_mode rb' = mode) \<and>
    (r \<noteq> 0 \<longrightarrow> r = -1)"
proof -
  have "unat (n + 1) = Suc (unat n)" if "n \<noteq> -1"
    using that unatSuc [of n] by (simp add: add.commute eq_neg_iff_add_eq_0)
  then show ?thesis
    using assms(2) assms(1) [of "Suc (unat n)"]
    by (auto simp: ringbuffer_init_eq rb_inv_def rb_contents_def rb_count_def rb_capacity_def
        word_less_nat_alt unat_gt_0 split: if_splits)
qed

theorem ringbuffer_init_correct_witness:
  "fst (libtrace_ringbuffer_init (\<lambda>n. n < 100)
     (undefined :: nat libtrace_ringbuffer) 3 LIBTRACE_RINGBUFFER_BLOCKING) = 0"
  using ringbuffer_init_correct [of "\<lambda>n. n < 100" "undefined :: nat libtrace_ringbuffer" 3
      LIBTRACE_RINGBUFFER_BLOCKING
      "fst (libtrace_ringbuffer_init (\<lambda>n. n < 100)
        (undefined :: nat libtrace_ringbuffer) 3 LIBTRACE_RINGBUFFER_BLOCKING)"
      "snd (libtrace_ringbuffer_init (\<lambda>n. n < 100)
        (undefined :: nat libtrace_ringbuffer) 3 LIBTRACE_RINGBUFFER_BLOCKING)"]
  by simp

text \<open>
  (C3) First in, first out. On a well-formed buffer, writing values one after the other with
  \<open>try_write\<close> until one is refused accepts exactly as many as there are free slots, and
  reading with \<open>try_read\<close> until it fails returns the old contents followed by the accepted
  values, in order, and leaves the buffer empty. No call waits.
\<close>

theorem ringbuffer_fifo_roundtrip:
  assumes "rb_inv rb"
  shows "\<exists>rb' rb''. put_all libtrace_ringbuffer_try_write rb vs =
      Some (min (length vs) (rb_capacity rb - length (rb_contents rb)), rb') \<and>
    drain_loop libtrace_ringbuffer_try_read [] rb' out =
      Some (rb_contents rb @ take (rb_capacity rb - length (rb_contents rb)) vs, rb'') \<and>
    rb_contents rb'' = []"
proof -
  obtain rb' where rb': "put_all libtrace_ringbuffer_try_write rb vs =
      Some (min (length vs) (rb_capacity rb - length (rb_contents rb)), rb')"
    using rb_fifo.put_all_accepts [OF assms] by blast
  then show ?thesis
    using rb_fifo.fifo_roundtrip [OF assms rb', of out] by (auto simp: min_def)
qed

definition rb_example :: "nat libtrace_ringbuffer" where
  "rb_example = \<lparr>rb_start = 2, rb_size = 3, rb_mode = 0,
     rb_elements = [None, None, Some 7], rb_end = 0\<rparr>"

lemma rb_example_inv: "rb_inv rb_example"
  by (simp add: rb_example_def rb_inv_def)

lemma rb_example_contents: "rb_contents rb_example = [Some 7]" "rb_capacity rb_example = 2"
  by (simp_all add: rb_example_def rb_contents_def rb_count_def rb_capacity_def ring_slice_def)

theorem ringbuffer_fifo_roundtrip_witness:
  "\<exists>rb' rb''. put_all libtrace_ringbuffer_try_write rb_example [Some 8, Some 9] = Some (1, rb') \<and>
    drain_loop libtrace_ringbuffer_try_read [] rb' None = Some ([Some 7, Some 8], rb'') \<and>
    rb_contents rb'' = []"
  using ringbuffer_fifo_roundtrip [OF rb_example_inv, of "[Some 8, Some 9]" None]
  by (simp add: rb_example_contents)



text \<open>
  Bulk reading. \<open>libtrace_ringbuffer_sread_bulk\<close> of up to \<open>nb\<close> values with the
  minimum \<open>mn\<close> returns the oldest values in order and removes them; if fewer than
  \<open>mn\<close> are there, it waits for a writer.
\<close>

theorem ringbuffer_read_bulk_correct:
  assumes "rb_inv rb" "mn \<le> nb"
  defines "k \<equiv> min nb (length (rb_contents rb))"
  shows "if mn \<le> k
    then \<exists>rb'. libtrace_ringbuffer_sread_bulk rb nb mn = Inr (Some (take k (rb_contents rb), k, rb')) \<and>
      rb_inv rb' \<and> rb_contents rb' = drop k (rb_contents rb) \<and> rb_capacity rb' = rb_capacity rb
    else libtrace_ringbuffer_sread_bulk rb nb mn = Inr None"
  using rb_bulk.get_bulk_data [OF assms(1,2), of k] rb_bulk.get_bulk_waits [OF assms(1,2)] assms(2)
  by (auto simp: k_def min_def)

theorem ringbuffer_read_bulk_correct_witness:
  "\<exists>rb'. libtrace_ringbuffer_sread_bulk rb_example 5 1 = Inr (Some ([Some 7], 1, rb')) \<and>
    rb_contents rb' = []"
  using ringbuffer_read_bulk_correct [OF rb_example_inv, of 1 5]
  by (auto simp: rb_example_contents)

end
