(* ===== verification/Ring_Buffer_Conc.thy ===== *)
theory Ring_Buffer_Conc
  imports Ring_Buffer
begin

text \<open>
  The thread safe operations \<open>libtrace_ringbuffer_swrite\<close> and \<open>libtrace_ringbuffer_sread\<close>
  of any number of threads, interleaved at the granularity of the shared accesses of
  \<open>ring_buffer.c\<close>: taking \<open>wlock\<close> or \<open>rlock\<close>, testing the indices under
  \<open>empty_lock\<close> or \<open>full_lock\<close>, going to sleep on a condition variable, storing or
  loading a slot, moving an index, broadcasting. Memory is sequentially consistent.

  Since every writer holds \<open>wlock\<close> from its first to its last step there is one program
  counter for the writing side and, by \<open>rlock\<close>, one for the reading side.
  \<open>empty_lock\<close> is held exactly in \<open>WCheck\<close>; a reader's
  \<open>lock; broadcast; unlock\<close> in \<open>notify_empty\<close> is one step that needs it free.
  The lists \<open>produced\<close> and \<open>consumed\<close> record the values written and read.
\<close>

section \<open>States and steps\<close>

datatype 'v wpc =
    WIdle
  | WWait 'v      \<comment> \<open>entering \<open>wait_for_empty\<close>\<close>
  | WCheck 'v     \<comment> \<open>holds \<open>empty_lock\<close>, about to test \<open>is_full\<close>\<close>
  | WSleep 'v     \<comment> \<open>in \<open>pthread_cond_wait(empty_cond)\<close>\<close>
  | WStore 'v     \<comment> \<open>about to store into \<open>elements[end]\<close>\<close>
  | WAdvance 'v   \<comment> \<open>about to move \<open>end\<close>\<close>
  | WNotify       \<comment> \<open>about to run \<open>notify_full\<close>\<close>
  | WUnlock       \<comment> \<open>about to release \<open>wlock\<close>\<close>

datatype 'v rpc =
    RIdle
  | RWait
  | RCheck        \<comment> \<open>holds \<open>full_lock\<close>, about to test \<open>is_empty\<close>\<close>
  | RSleep        \<comment> \<open>in \<open>pthread_cond_wait(full_cond)\<close>\<close>
  | RLoad         \<comment> \<open>about to load \<open>elements[start]\<close>\<close>
  | RAdvance 'v   \<comment> \<open>about to move \<open>start\<close>\<close>
  | RNotify 'v    \<comment> \<open>about to run \<open>notify_empty\<close>\<close>
  | RUnlock 'v

record 'a conc =
  c_rb :: "'a libtrace_ringbuffer"
  c_wlock :: "nat option"
  c_rlock :: "nat option"
  c_wpc :: "'a option wpc"
  c_rpc :: "'a option rpc"
  c_produced :: "'a option list"
  c_consumed :: "'a option list"

definition conc_init :: "'a libtrace_ringbuffer \<Rightarrow> 'a conc" where
  "conc_init rb = \<lparr>c_rb = rb, c_wlock = None, c_rlock = None, c_wpc = WIdle, c_rpc = RIdle,
     c_produced = rb_contents rb, c_consumed = []\<rparr>"

definition blocking :: "'a conc \<Rightarrow> bool" where
  "blocking s \<longleftrightarrow> rb_mode (c_rb s) = LIBTRACE_RINGBUFFER_BLOCKING"

fun wake_writer :: "'v wpc \<Rightarrow> 'v wpc" where
  "wake_writer (WSleep v) = WWait v"
| "wake_writer w = w"

fun wake_reader :: "'v rpc \<Rightarrow> 'v rpc" where
  "wake_reader RSleep = RWait"
| "wake_reader r = r"

fun w_holds_empty_lock :: "'v wpc \<Rightarrow> bool" where
  "w_holds_empty_lock (WCheck v) = True"
| "w_holds_empty_lock w = False"

inductive conc_step :: "'a conc \<Rightarrow> 'a conc \<Rightarrow> bool" where
  w_lock: "c_wlock s = None \<Longrightarrow> c_wpc s = WIdle \<Longrightarrow>
     conc_step s (s\<lparr>c_wlock := Some t, c_wpc := WWait v\<rparr>)"
| w_acquire: "c_wpc s = WWait v \<Longrightarrow> blocking s \<Longrightarrow> conc_step s (s\<lparr>c_wpc := WCheck v\<rparr>)"
| w_sleep: "c_wpc s = WCheck v \<Longrightarrow> libtrace_ringbuffer_is_full (c_rb s) \<Longrightarrow>
     conc_step s (s\<lparr>c_wpc := WSleep v\<rparr>)"
| w_pass: "c_wpc s = WCheck v \<Longrightarrow> \<not> libtrace_ringbuffer_is_full (c_rb s) \<Longrightarrow>
     conc_step s (s\<lparr>c_wpc := WStore v\<rparr>)"
| w_spurious: "c_wpc s = WSleep v \<Longrightarrow> conc_step s (s\<lparr>c_wpc := WWait v\<rparr>)"
| w_poll: "c_wpc s = WWait v \<Longrightarrow> \<not> blocking s \<Longrightarrow> \<not> libtrace_ringbuffer_is_full (c_rb s) \<Longrightarrow>
     conc_step s (s\<lparr>c_wpc := WStore v\<rparr>)"
| w_store: "c_wpc s = WStore v \<Longrightarrow>
     conc_step s (s\<lparr>c_wpc := WAdvance v,
       c_rb := (c_rb s)\<lparr>rb_elements := (rb_elements (c_rb s))[unat (rb_end (c_rb s)) := v]\<rparr>\<rparr>)"
| w_advance: "c_wpc s = WAdvance v \<Longrightarrow>
     conc_step s (s\<lparr>c_wpc := WNotify, c_produced := c_produced s @ [v],
       c_rb := (c_rb s)\<lparr>rb_end := (rb_end (c_rb s) + 1) mod rb_size (c_rb s)\<rparr>\<rparr>)"
| w_notify: "c_wpc s = WNotify \<Longrightarrow> blocking s \<longrightarrow> c_rpc s \<noteq> RCheck \<Longrightarrow>
     conc_step s (s\<lparr>c_wpc := WUnlock,
       c_rpc := (if blocking s then wake_reader (c_rpc s) else c_rpc s)\<rparr>)"
| w_unlock: "c_wpc s = WUnlock \<Longrightarrow> conc_step s (s\<lparr>c_wlock := None, c_wpc := WIdle\<rparr>)"
| r_lock: "c_rlock s = None \<Longrightarrow> c_rpc s = RIdle \<Longrightarrow>
     conc_step s (s\<lparr>c_rlock := Some t, c_rpc := RWait\<rparr>)"
| r_acquire: "c_rpc s = RWait \<Longrightarrow> blocking s \<Longrightarrow> conc_step s (s\<lparr>c_rpc := RCheck\<rparr>)"
| r_sleep: "c_rpc s = RCheck \<Longrightarrow> libtrace_ringbuffer_is_empty (c_rb s) \<Longrightarrow>
     conc_step s (s\<lparr>c_rpc := RSleep\<rparr>)"
| r_pass: "c_rpc s = RCheck \<Longrightarrow> \<not> libtrace_ringbuffer_is_empty (c_rb s) \<Longrightarrow>
     conc_step s (s\<lparr>c_rpc := RLoad\<rparr>)"
| r_spurious: "c_rpc s = RSleep \<Longrightarrow> conc_step s (s\<lparr>c_rpc := RWait\<rparr>)"
| r_poll: "c_rpc s = RWait \<Longrightarrow> \<not> blocking s \<Longrightarrow> \<not> libtrace_ringbuffer_is_empty (c_rb s) \<Longrightarrow>
     conc_step s (s\<lparr>c_rpc := RLoad\<rparr>)"
| r_load: "c_rpc s = RLoad \<Longrightarrow>
     conc_step s (s\<lparr>c_rpc := RAdvance (rb_elements (c_rb s) ! unat (rb_start (c_rb s)))\<rparr>)"
| r_advance: "c_rpc s = RAdvance x \<Longrightarrow>
     conc_step s (s\<lparr>c_rpc := RNotify x, c_consumed := c_consumed s @ [x],
       c_rb := (c_rb s)\<lparr>rb_start := (rb_start (c_rb s) + 1) mod rb_size (c_rb s)\<rparr>\<rparr>)"
| r_notify: "c_rpc s = RNotify x \<Longrightarrow> blocking s \<longrightarrow> \<not> w_holds_empty_lock (c_wpc s) \<Longrightarrow>
     conc_step s (s\<lparr>c_rpc := RUnlock x,
       c_wpc := (if blocking s then wake_writer (c_wpc s) else c_wpc s)\<rparr>)"
| r_unlock: "c_rpc s = RUnlock x \<Longrightarrow> conc_step s (s\<lparr>c_rlock := None, c_rpc := RIdle\<rparr>)"

inductive conc_reachable :: "'a libtrace_ringbuffer \<Rightarrow> 'a conc \<Rightarrow> bool" for rb where
  init: "conc_reachable rb (conc_init rb)"
| step: "conc_reachable rb s \<Longrightarrow> conc_step s t \<Longrightarrow> conc_reachable rb t"

section \<open>The invariant\<close>

text \<open>
  What each program counter knows of the buffer. A sleeping writer is in front of a full
  buffer or its wake-up call is on its way; likewise for a reader.
\<close>

fun writer_knows :: "'a libtrace_ringbuffer \<Rightarrow> 'a option rpc \<Rightarrow> 'a option wpc \<Rightarrow> bool" where
  "writer_knows rb r (WCheck v) = (rb_mode rb = LIBTRACE_RINGBUFFER_BLOCKING)"
| "writer_knows rb r (WSleep v) = (rb_mode rb = LIBTRACE_RINGBUFFER_BLOCKING \<and>
     (libtrace_ringbuffer_is_full rb \<or> (\<exists>x. r = RNotify x)))"
| "writer_knows rb r (WStore v) = (\<not> libtrace_ringbuffer_is_full rb)"
| "writer_knows rb r (WAdvance v) =
     (\<not> libtrace_ringbuffer_is_full rb \<and> rb_elements rb ! unat (rb_end rb) = v)"
| "writer_knows rb r _ = True"

fun reader_knows :: "'a libtrace_ringbuffer \<Rightarrow> 'a option wpc \<Rightarrow> 'a option rpc \<Rightarrow> bool" where
  "reader_knows rb w RCheck = (rb_mode rb = LIBTRACE_RINGBUFFER_BLOCKING)"
| "reader_knows rb w RSleep = (rb_mode rb = LIBTRACE_RINGBUFFER_BLOCKING \<and>
     (libtrace_ringbuffer_is_empty rb \<or> w = WNotify))"
| "reader_knows rb w RLoad = (\<not> libtrace_ringbuffer_is_empty rb)"
| "reader_knows rb w (RAdvance x) =
     (\<not> libtrace_ringbuffer_is_empty rb \<and> rb_elements rb ! unat (rb_start rb) = x)"
| "reader_knows rb w _ = True"

definition conc_inv :: "'a conc \<Rightarrow> bool" where
  "conc_inv s \<longleftrightarrow> rb_inv (c_rb s) \<and> c_consumed s @ rb_contents (c_rb s) = c_produced s \<and>
     writer_knows (c_rb s) (c_rpc s) (c_wpc s) \<and> reader_knows (c_rb s) (c_wpc s) (c_rpc s) \<and>
     (c_wlock s = None \<longleftrightarrow> c_wpc s = WIdle) \<and> (c_rlock s = None \<longleftrightarrow> c_rpc s = RIdle)"

text \<open>Storing into the free slot at \<open>end\<close> is invisible to the reading side.\<close>

definition rb_store :: "'a libtrace_ringbuffer \<Rightarrow> 'a option \<Rightarrow> 'a libtrace_ringbuffer" where
  "rb_store rb v = rb\<lparr>rb_elements := (rb_elements rb)[unat (rb_end rb) := v]\<rparr>"

lemma rb_store_sel [simp]:
  "rb_size (rb_store rb v) = rb_size rb" "rb_start (rb_store rb v) = rb_start rb"
  "rb_end (rb_store rb v) = rb_end rb" "rb_mode (rb_store rb v) = rb_mode rb"
  "rb_count (rb_store rb v) = rb_count rb"
  "libtrace_ringbuffer_is_full (rb_store rb v) = libtrace_ringbuffer_is_full rb"
  "libtrace_ringbuffer_is_empty (rb_store rb v) = libtrace_ringbuffer_is_empty rb"
  by (simp_all add: rb_store_def rb_count_def libtrace_ringbuffer_is_full_def
      libtrace_ringbuffer_is_empty_def)

lemma rb_store_inv [simp]: "rb_inv (rb_store rb v) = rb_inv rb"
  by (simp add: rb_inv_def rb_store_def)

lemma rb_store_end:
  "rb_inv rb \<Longrightarrow> rb_elements (rb_store rb v) ! unat (rb_end rb) = v"
  by (simp add: rb_store_def rb_invD)

lemma rb_store_start:
  "\<not> libtrace_ringbuffer_is_empty rb \<Longrightarrow>
     rb_elements (rb_store rb v) ! unat (rb_start rb) = rb_elements rb ! unat (rb_start rb)"
  by (simp add: rb_store_def libtrace_ringbuffer_is_empty_def word_unat_eq_iff nth_list_update_neq)

lemma rb_contents_store:
  assumes "rb_inv rb"
  shows "rb_contents (rb_store rb v) = rb_contents rb"
proof (rule nth_equalityI)
  fix i assume "i < length (rb_contents (rb_store rb v))"
  then have i: "i < rb_count rb" by simp
  let ?L = "unat (rb_size rb)"
  have "(unat (rb_start rb) + i) mod ?L \<noteq> unat (rb_end rb)"
    using mod_add_inj [OF i rb_count_less [OF assms]] by (auto simp: rb_end_eq [OF assms])
  then show "rb_contents (rb_store rb v) ! i = rb_contents rb ! i"
    using i rb_invD(3) [OF assms]
    by (simp add: rb_contents_def nth_ring_slice) (simp add: rb_store_def)
qed simp

lemma rb_advance_eq_push:
  assumes "rb_inv rb" "rb_elements rb ! unat (rb_end rb) = v"
  shows "rb\<lparr>rb_end := (rb_end rb + 1) mod rb_size rb\<rparr> = rb_push rb v"
  using assms by (auto simp: rb_push_def)

lemma not_empty_push:
  assumes "rb_inv rb" "\<not> libtrace_ringbuffer_is_full rb"
  shows "\<not> libtrace_ringbuffer_is_empty (rb_push rb v)"
  using assms rb_count_le_capacity [OF assms(1)]
  by (simp add: is_full_iff is_empty_iff rb_inv_push rb_count_push)

lemma not_full_pop:
  assumes "rb_inv rb" "\<not> libtrace_ringbuffer_is_empty rb"
  shows "\<not> libtrace_ringbuffer_is_full (rb_pop rb)"
  using assms rb_count_le_capacity [OF assms(1)]
  by (simp add: is_full_iff is_empty_iff rb_inv_pop rb_count_pop)

section \<open>Every step keeps the invariant\<close>

text \<open>
  The reading side depends on the writing side's program counter only through a pending
  notification, and conversely.
\<close>

lemma reader_knows_mono:
  "reader_knows rb w r \<Longrightarrow> w = WNotify \<longrightarrow> w' = WNotify \<Longrightarrow> reader_knows rb w' r"
  by (cases r) auto

lemma writer_knows_mono:
  "writer_knows rb r w \<Longrightarrow> \<forall>x. r = RNotify x \<longrightarrow> (\<exists>y. r' = RNotify y) \<Longrightarrow> writer_knows rb r' w"
  by (cases w) auto

lemma conc_invI:
  assumes "rb_inv (c_rb s)" "c_consumed s @ rb_contents (c_rb s) = c_produced s"
    "writer_knows (c_rb s) (c_rpc s) (c_wpc s)" "reader_knows (c_rb s) (c_wpc s) (c_rpc s)"
    "c_wlock s = None \<longleftrightarrow> c_wpc s = WIdle" "c_rlock s = None \<longleftrightarrow> c_rpc s = RIdle"
  shows "conc_inv s"
  using assms by (simp add: conc_inv_def)

lemma store_keeps_inv:
  assumes "conc_inv s" "c_wpc s = WStore v"
  shows "conc_inv (s\<lparr>c_wpc := WAdvance v, c_rb := rb_store (c_rb s) v\<rparr>)"
  using assms
  by (cases "c_rpc s") (auto simp: conc_inv_def rb_contents_store rb_store_end rb_store_start)

lemma w_advance_keeps_inv:
  assumes "conc_inv s" "c_wpc s = WAdvance v"
  shows "conc_inv (s\<lparr>c_wpc := WNotify, c_produced := c_produced s @ [v], c_rb := rb_push (c_rb s) v\<rparr>)"
proof -
  have inv: "rb_inv (c_rb s)" and full: "\<not> libtrace_ringbuffer_is_full (c_rb s)"
    and v: "rb_elements (c_rb s) ! unat (rb_end (c_rb s)) = v"
    using assms by (auto simp: conc_inv_def)
  then have room: "rb_count (c_rb s) < rb_capacity (c_rb s)"
    using rb_count_le_capacity [OF inv] by (simp add: is_full_iff)
  have els: "(rb_elements (c_rb s))[unat (rb_end (c_rb s)) := v] = rb_elements (c_rb s)"
    using v by auto
  show ?thesis
  proof (rule conc_invI)
    show "reader_knows (c_rb (s\<lparr>c_wpc := WNotify, c_produced := c_produced s @ [v],
        c_rb := rb_push (c_rb s) v\<rparr>)) (c_wpc (s\<lparr>c_wpc := WNotify, c_produced := c_produced s @ [v],
        c_rb := rb_push (c_rb s) v\<rparr>)) (c_rpc (s\<lparr>c_wpc := WNotify, c_produced := c_produced s @ [v],
        c_rb := rb_push (c_rb s) v\<rparr>))"
      using assms(1) not_empty_push [OF inv full, of v] els
      by (cases "c_rpc s") (auto simp: conc_inv_def)
  qed (use assms inv room in \<open>auto simp: conc_inv_def rb_inv_push rb_contents_push\<close>)
qed

lemma r_advance_keeps_inv:
  assumes "conc_inv s" "c_rpc s = RAdvance x"
  shows "conc_inv (s\<lparr>c_rpc := RNotify x, c_consumed := c_consumed s @ [x], c_rb := rb_pop (c_rb s)\<rparr>)"
proof -
  have inv: "rb_inv (c_rb s)" and ne: "\<not> libtrace_ringbuffer_is_empty (c_rb s)"
    and x: "rb_elements (c_rb s) ! unat (rb_start (c_rb s)) = x"
    using assms by (auto simp: conc_inv_def)
  then have pos: "0 < rb_count (c_rb s)" by (simp add: is_empty_iff)
  show ?thesis
    using assms not_full_pop [OF inv ne] x rb_contents_pop [OF inv pos]
    by (cases "c_wpc s") (auto simp: conc_inv_def rb_inv_pop)
qed

lemma conc_step_inv:
  assumes "conc_step s t" "conc_inv s"
  shows "conc_inv t"
  using assms
proof (induction rule: conc_step.induct)
  case (w_store s v)
  then show ?case using store_keeps_inv by (simp add: rb_store_def)
next
  case (w_advance s v)
  then have "rb_inv (c_rb s)" "rb_elements (c_rb s) ! unat (rb_end (c_rb s)) = v"
    by (auto simp: conc_inv_def)
  with w_advance show ?case using w_advance_keeps_inv by (simp add: rb_advance_eq_push)
next
  case (w_notify s)
  then show ?case by (cases "c_rpc s") (auto simp: conc_inv_def blocking_def)
next
  case (r_advance s x)
  then show ?case using r_advance_keeps_inv by (simp add: rb_pop_def)
next
  case (r_notify s x)
  then show ?case by (cases "c_wpc s") (auto simp: conc_inv_def blocking_def)
qed (auto simp: conc_inv_def blocking_def elim: reader_knows_mono writer_knows_mono)

lemma conc_reachable_inv:
  assumes "conc_reachable rb s" "rb_inv rb"
  shows "conc_inv s"
  using assms
proof (induction rule: conc_reachable.induct)
  case init
  then show ?case by (simp add: conc_inv_def conc_init_def)
next
  case (step s t)
  then show ?case by (blast intro: conc_step_inv)
qed

section \<open>Properties\<close>

text \<open>
  (C1) Concurrent FIFO. However the operations of any number of writing and reading threads
  interleave, at every moment the values read so far, followed by the contents of the
  buffer, are the values written so far in the order of the writes: nothing is lost,
  duplicated, reordered or overwritten. Only the holder of a side's mutex is inside it.
\<close>

theorem ringbuffer_conc_fifo:
  assumes "conc_reachable rb s" "rb_inv rb"
  shows "c_consumed s @ rb_contents (c_rb s) = c_produced s \<and> rb_inv (c_rb s) \<and>
    (c_wpc s \<noteq> WIdle \<longleftrightarrow> (\<exists>t. c_wlock s = Some t)) \<and>
    (c_rpc s \<noteq> RIdle \<longleftrightarrow> (\<exists>t. c_rlock s = Some t))"
  using conc_reachable_inv [OF assms] by (auto simp: conc_inv_def)

lemma reachable_lock:
  "conc_reachable rb ((conc_init rb)\<lparr>c_wlock := Some t, c_wpc := WWait v\<rparr>)"
  by (rule conc_reachable.step [OF conc_reachable.init], rule conc_step.w_lock)
    (simp_all add: conc_init_def)

lemma reachable_check:
  assumes "rb_mode rb = LIBTRACE_RINGBUFFER_BLOCKING"
  shows "conc_reachable rb ((conc_init rb)\<lparr>c_wlock := Some t, c_wpc := WCheck v\<rparr>)"
  using conc_reachable.step [OF reachable_lock [of rb v t] conc_step.w_acquire [where v = v]] assms
  by (simp add: conc_init_def blocking_def)

lemma reachable_stored:
  assumes "rb_mode rb = LIBTRACE_RINGBUFFER_BLOCKING" "\<not> libtrace_ringbuffer_is_full rb"
  shows "conc_reachable rb ((conc_init rb)\<lparr>c_wlock := Some t, c_wpc := WAdvance v, c_rb := rb_store rb v\<rparr>)"
proof -
  have "conc_reachable rb ((conc_init rb)\<lparr>c_wlock := Some t, c_wpc := WStore v\<rparr>)"
    using conc_reachable.step [OF reachable_check [OF assms(1), of v t] conc_step.w_pass [where v = v]]
      assms(2)
    by (simp add: conc_init_def)
  then show ?thesis
    using conc_reachable.step [OF _ conc_step.w_store [where v = v],
        of rb "(conc_init rb)\<lparr>c_wlock := Some t, c_wpc := WStore v\<rparr>"]
    by (simp add: conc_init_def rb_store_def)
qed

theorem ringbuffer_conc_fifo_witness:
  "c_consumed ((conc_init rb_example)\<lparr>c_wlock := Some 1, c_wpc := WAdvance (Some 8),
       c_rb := rb_store rb_example (Some 8)\<rparr>) @ rb_contents (rb_store rb_example (Some 8)) = [Some 7]"
proof -
  have "conc_reachable rb_example ((conc_init rb_example)\<lparr>c_wlock := Some 1,
      c_wpc := WAdvance (Some 8), c_rb := rb_store rb_example (Some 8)\<rparr>)"
    by (rule reachable_stored)
      (simp_all add: rb_example_def LIBTRACE_RINGBUFFER_BLOCKING_def libtrace_ringbuffer_is_full_def)
  from ringbuffer_conc_fifo [OF this rb_example_inv] show ?thesis
    by (simp add: conc_init_def rb_example_contents)
qed

text \<open>
  (C2) No wake-up is lost. A writer asleep in \<open>wait_for_empty\<close> faces a full buffer or a
  reader that has just made room and is about to broadcast; a reader asleep in
  \<open>wait_for_full\<close> faces an empty buffer or a writer about to broadcast. In particular the
  two sides are never asleep together.
\<close>

theorem ringbuffer_no_lost_wakeup:
  assumes "conc_reachable rb s" "rb_inv rb"
  shows "(c_wpc s = WSleep v \<longrightarrow> libtrace_ringbuffer_is_full (c_rb s) \<or> (\<exists>x. c_rpc s = RNotify x)) \<and>
    (c_rpc s = RSleep \<longrightarrow> libtrace_ringbuffer_is_empty (c_rb s) \<or> c_wpc s = WNotify) \<and>
    \<not> (c_wpc s = WSleep v \<and> c_rpc s = RSleep)"
proof -
  have inv: "conc_inv s" by (rule conc_reachable_inv [OF assms])
  have "\<not> (libtrace_ringbuffer_is_full (c_rb s) \<and> libtrace_ringbuffer_is_empty (c_rb s))"
    using inv rb_invD(1) [of "c_rb s"]
    by (auto simp: conc_inv_def is_full_iff is_empty_iff rb_capacity_def)
  with inv show ?thesis by (auto simp: conc_inv_def)
qed

definition rb_full_example :: "nat libtrace_ringbuffer" where
  "rb_full_example = \<lparr>rb_start = 0, rb_size = 2, rb_mode = 0, rb_elements = [Some 5, None], rb_end = 1\<rparr>"

theorem ringbuffer_no_lost_wakeup_witness:
  "conc_reachable rb_full_example ((conc_init rb_full_example)\<lparr>c_wlock := Some 1, c_wpc := WSleep None\<rparr>) \<and>
   libtrace_ringbuffer_is_full rb_full_example"
proof -
  have full: "libtrace_ringbuffer_is_full rb_full_example"
    by (simp add: rb_full_example_def libtrace_ringbuffer_is_full_def)
  have mode: "rb_mode rb_full_example = LIBTRACE_RINGBUFFER_BLOCKING"
    by (simp add: rb_full_example_def LIBTRACE_RINGBUFFER_BLOCKING_def)
  have reach: "conc_reachable rb_full_example
      ((conc_init rb_full_example)\<lparr>c_wlock := Some 1, c_wpc := WSleep None\<rparr>)"
    using conc_reachable.step [OF reachable_check [OF mode, of None 1] conc_step.w_sleep [where v = None]]
      full
    by (simp add: conc_init_def)
  moreover have "rb_inv rb_full_example" by (simp add: rb_full_example_def rb_inv_def)
  ultimately show ?thesis
    using ringbuffer_no_lost_wakeup [of rb_full_example
        "(conc_init rb_full_example)\<lparr>c_wlock := Some 1, c_wpc := WSleep None\<rparr>" None]
    by (simp add: conc_init_def)
qed

end
