(* ===== verification/Sliding_Window.thy ===== *)
theory Sliding_Window
  imports Prelude
begin

text \<open>
  The reordering window of \<open>lib/data-struct/sliding_window.c\<close>: values arrive tagged with a
  64-bit sequence number, in any order, and leave in the order of their numbers. The window
  holds the \<open>size\<close> numbers from \<open>start_number\<close> on, modulo \<open>2 ^ 64\<close>.
\<close>

section \<open>The structure and its operations\<close>

record 'a libtrace_slidingwindow =
  sw_start :: size_t
  sw_size :: size_t
  sw_start_number :: u64
  sw_elements :: "'a option list"

text \<open>\<open>calloc_ok\<close> tells whether the slots can be allocated; the source asserts it.\<close>

definition libtrace_slidingwindow_init ::
  "(nat \<Rightarrow> bool) \<Rightarrow> size_t \<Rightarrow> u64 \<Rightarrow> 'a libtrace_slidingwindow res" where
  "libtrace_slidingwindow_init calloc_ok sz start_number =
     assertr (calloc_ok (unat sz))
       (Inr \<lparr>sw_start = 0, sw_size = sz, sw_start_number = start_number,
             sw_elements = replicate (unat sz) None\<rparr>)"

definition libtrace_slidingwindow_destroy :: "'a libtrace_slidingwindow \<Rightarrow> 'a libtrace_slidingwindow" where
  "libtrace_slidingwindow_destroy sw =
     sw\<lparr>sw_size := 0, sw_start := 0, sw_start_number := 0, sw_elements := []\<rparr>"

definition libtrace_zero_slidingwindow :: "'a libtrace_slidingwindow \<Rightarrow> 'a libtrace_slidingwindow" where
  "libtrace_zero_slidingwindow sw =
     sw\<lparr>sw_start := 0, sw_start_number := 0, sw_size := 0, sw_elements := []\<rparr>"

definition libtrace_slidingwindow_try_write ::
  "'a libtrace_slidingwindow \<Rightarrow> u64 \<Rightarrow> 'a option \<Rightarrow> int \<times> 'a libtrace_slidingwindow" where
  "libtrace_slidingwindow_try_write sw number value =
     (let adjusted_number = number - sw_start_number sw in
      if adjusted_number < sw_size sw
      then (1, sw\<lparr>sw_elements :=
                 (sw_elements sw)[unat ((adjusted_number + sw_start sw) mod sw_size sw) := value]\<rparr>)
      else (0, sw))"

definition libtrace_slidingwindow_read_ready :: "'a libtrace_slidingwindow \<Rightarrow> bool" where
  "libtrace_slidingwindow_read_ready sw \<longleftrightarrow> sw_elements sw ! unat (sw_start sw) \<noteq> None"

text \<open>The result carries the value and the number read, if any.\<close>

definition libtrace_slidingwindow_try_read ::
  "'a libtrace_slidingwindow \<Rightarrow> ('a \<times> u64) option \<times> 'a libtrace_slidingwindow" where
  "libtrace_slidingwindow_try_read sw =
     (case sw_elements sw ! unat (sw_start sw) of
        Some value \<Rightarrow>
          (Some (value, sw_start_number sw),
           sw\<lparr>sw_elements := (sw_elements sw)[unat (sw_start sw) := None],
              sw_start_number := sw_start_number sw + 1,
              sw_start := (sw_start sw + 1) mod sw_size sw\<rparr>)
      | None \<Rightarrow> (None, sw))"

section \<open>The window as a map from sequence numbers to values\<close>

definition sw_inv :: "'a libtrace_slidingwindow \<Rightarrow> bool" where
  "sw_inv sw \<longleftrightarrow> 0 < unat (sw_size sw) \<and> unat (sw_size sw) < 2 ^ 63 \<and>
     length (sw_elements sw) = unat (sw_size sw) \<and> sw_start sw < sw_size sw"

definition in_window :: "'a libtrace_slidingwindow \<Rightarrow> u64 \<Rightarrow> bool" where
  "in_window sw n \<longleftrightarrow> n - sw_start_number sw < sw_size sw"

definition sw_slot :: "'a libtrace_slidingwindow \<Rightarrow> u64 \<Rightarrow> nat" where
  "sw_slot sw n = (unat (sw_start sw) + unat (n - sw_start_number sw)) mod unat (sw_size sw)"

definition sw_view :: "'a libtrace_slidingwindow \<Rightarrow> u64 \<rightharpoonup> 'a" where
  "sw_view sw n = (if in_window sw n then sw_elements sw ! sw_slot sw n else None)"

lemma sw_elements_upd [simp]:
  "in_window (sw\<lparr>sw_elements := e\<rparr>) n = in_window sw n"
  "sw_slot (sw\<lparr>sw_elements := e\<rparr>) n = sw_slot sw n"
  by (simp_all add: in_window_def sw_slot_def)

lemma sw_invD:
  assumes "sw_inv sw"
  shows "0 < unat (sw_size sw)" "unat (sw_size sw) < 2 ^ 63"
    "length (sw_elements sw) = unat (sw_size sw)" "unat (sw_start sw) < unat (sw_size sw)"
    "sw_start sw < sw_size sw"
  using assms by (simp_all add: sw_inv_def word_less_nat_alt)

lemma sw_slot_less: "sw_inv sw \<Longrightarrow> sw_slot sw n < unat (sw_size sw)"
  by (simp add: sw_slot_def sw_inv_def)

lemma sw_slot_inj:
  assumes "sw_inv sw" "in_window sw m" "in_window sw n" "sw_slot sw m = sw_slot sw n"
  shows "m = n"
proof -
  let ?a = "unat (m - sw_start_number sw)" and ?b = "unat (n - sw_start_number sw)"
  have "?a < unat (sw_size sw)" "?b < unat (sw_size sw)"
    using assms(2,3) by (simp_all add: in_window_def word_less_nat_alt)
  then have "?a = ?b"
    using assms(4) mod_add_inj [of ?a ?b "unat (sw_size sw)" "unat (sw_start sw)"]
      mod_add_inj [of ?b ?a "unat (sw_size sw)" "unat (sw_start sw)"]
    by (cases ?a ?b rule: linorder_cases) (auto simp: sw_slot_def)
  then show ?thesis by (simp add: word_unat_eq_iff [symmetric])
qed

lemma write_index:
  assumes "sw_inv sw" "in_window sw n"
  shows "unat ((n - sw_start_number sw + sw_start sw) mod sw_size sw) = sw_slot sw n"
proof -
  have "unat (n - sw_start_number sw) < 2 ^ 63" "unat (sw_start sw) < 2 ^ 63"
    using assms sw_invD [OF assms(1)] by (auto simp: in_window_def word_less_nat_alt)
  then have "unat (n - sw_start_number sw + sw_start sw) =
      unat (n - sw_start_number sw) + unat (sw_start sw)"
    by (simp add: unat_plus_if')
  then show ?thesis by (simp add: unat_mod sw_slot_def add.commute)
qed

lemma start_in_window: "sw_inv sw \<Longrightarrow> in_window sw (sw_start_number sw)"
  by (simp add: in_window_def sw_inv_def unat_gt_0 word_gt_0)

lemma sw_slot_start: "sw_inv sw \<Longrightarrow> sw_slot sw (sw_start_number sw) = unat (sw_start sw)"
  by (simp add: sw_slot_def sw_inv_def word_less_nat_alt)

lemma view_start:
  "sw_inv sw \<Longrightarrow> sw_view sw (sw_start_number sw) = sw_elements sw ! unat (sw_start sw)"
  by (simp add: sw_view_def start_in_window sw_slot_start)

section \<open>Writing\<close>

lemma try_write_outside:
  "\<not> in_window sw n \<Longrightarrow> libtrace_slidingwindow_try_write sw n v = (0, sw)"
  by (simp add: libtrace_slidingwindow_try_write_def in_window_def)

lemma try_write_inside:
  assumes "sw_inv sw" "in_window sw n" "libtrace_slidingwindow_try_write sw n v = (r, sw')"
  shows "r = 1" "sw_inv sw'" "sw_view sw' = (sw_view sw)(n := v)"
    "sw_start_number sw' = sw_start_number sw" "sw_size sw' = sw_size sw"
proof -
  have eq: "r = 1" "sw' = sw\<lparr>sw_elements := (sw_elements sw)[sw_slot sw n := v]\<rparr>"
    using assms write_index [OF assms(1,2)]
    by (auto simp: libtrace_slidingwindow_try_write_def in_window_def Let_def)
  show "r = 1" "sw_inv sw'" "sw_start_number sw' = sw_start_number sw" "sw_size sw' = sw_size sw"
    using eq assms(1) by (simp_all add: sw_inv_def)
  show "sw_view sw' = (sw_view sw)(n := v)"
  proof
    fix m
    show "sw_view sw' m = ((sw_view sw)(n := v)) m"
      using assms(1,2) sw_slot_less [OF assms(1), of n] sw_invD(3) [OF assms(1)] eq
        sw_slot_inj [OF assms(1,2), of m]
      by (cases "m = n") (auto simp: sw_view_def nth_list_update)
  qed
qed

section \<open>Reading\<close>

lemma sub_succ_less:
  fixes n s sz :: u64
  assumes "0 < sz" "n \<noteq> s"
  shows "n - (s + 1) < sz \<longleftrightarrow> n - s < sz \<or> n - s = sz"
    and "unat (n - s) = Suc (unat (n - (s + 1)))"
proof -
  have "n - s \<noteq> 0" using assms(2) by simp
  then have "unat (n - s - 1) = unat (n - s) - 1" "0 < unat (n - s)"
    by (simp_all add: unat_minus_one unat_gt_0)
  moreover have "n - (s + 1) = n - s - 1" by simp
  ultimately show "unat (n - s) = Suc (unat (n - (s + 1)))"
    and "n - (s + 1) < sz \<longleftrightarrow> n - s < sz \<or> n - s = sz"
    by (auto simp: word_less_nat_alt word_unat_eq_iff)
qed

lemma try_read_nothing:
  "sw_inv sw \<Longrightarrow> sw_view sw (sw_start_number sw) = None \<Longrightarrow>
     libtrace_slidingwindow_try_read sw = (None, sw)"
  by (simp add: libtrace_slidingwindow_try_read_def view_start)

lemma try_read_value:
  assumes "sw_inv sw" "sw_view sw (sw_start_number sw) = Some x"
    and "libtrace_slidingwindow_try_read sw = (out, sw')"
  shows "out = Some (x, sw_start_number sw)" "sw_inv sw'"
    "sw_start_number sw' = sw_start_number sw + 1" "sw_size sw' = sw_size sw"
    "sw_view sw' = (sw_view sw)(sw_start_number sw := None)"
proof -
  let ?n = "sw_start_number sw" and ?L = "unat (sw_size sw)"
  note inv = sw_invD [OF assms(1)]
  have eq: "out = Some (x, ?n)" and sw': "sw' = sw\<lparr>sw_elements := (sw_elements sw)[unat (sw_start sw) := None],
      sw_start_number := ?n + 1, sw_start := (sw_start sw + 1) mod sw_size sw\<rparr>"
    using assms by (auto simp: libtrace_slidingwindow_try_read_def view_start)
  show "out = Some (x, ?n)" by (fact eq)
  show "sw_start_number sw' = ?n + 1" "sw_size sw' = sw_size sw" by (simp_all add: sw')
  have "unat ((sw_start sw + 1) mod sw_size sw) < ?L"
    using inv by (simp add: unat_succ_mod)
  then show "sw_inv sw'" using assms(1) by (simp add: sw_inv_def sw' word_less_nat_alt)
  show "sw_view sw' = (sw_view sw)(?n := None)"
  proof
    fix m
    show "sw_view sw' m = ((sw_view sw)(?n := None)) m"
    proof (cases "m = ?n")
      case True
      have "\<not> (-1 :: u64) < sw_size sw" by (simp add: not_less word_n1_ge)
      then show ?thesis using True by (simp add: sw_view_def in_window_def sw')
    next
      case False
      have pos: "0 < sw_size sw" using inv by (simp add: word_less_nat_alt)
      note sub = sub_succ_less [OF pos False]
      have slot: "sw_slot sw' m = sw_slot sw m"
        using inv sub(2) by (simp add: sw_slot_def sw' unat_succ_mod mod_add_left_eq)
      have win: "in_window sw' m \<longleftrightarrow> in_window sw m \<or> m - ?n = sw_size sw"
        using sub(1) by (simp add: in_window_def sw')
      have far: "sw_slot sw m = unat (sw_start sw) \<and> \<not> in_window sw m" if "m - ?n = sw_size sw"
        using that inv by (simp add: sw_slot_def in_window_def)
      have near: "sw_slot sw m \<noteq> unat (sw_start sw)" if "in_window sw m"
        using sw_slot_inj [OF assms(1) that start_in_window [OF assms(1)]] False
        by (auto simp: sw_slot_start [OF assms(1)])
      have els: "sw_elements sw' = (sw_elements sw)[unat (sw_start sw) := None]" by (simp add: sw')
      show ?thesis
        using False inv(3,4) far near
        by (auto simp: sw_view_def win slot els nth_list_update_neq)
    qed
  qed
qed

section \<open>Reordering\<close>

text \<open>A writer that stores tagged values one after the other, and a reader of \<open>k\<close> values.\<close>

fun write_all :: "'a libtrace_slidingwindow \<Rightarrow> (u64 \<times> 'a) list \<Rightarrow> int list \<times> 'a libtrace_slidingwindow" where
  "write_all sw [] = ([], sw)"
| "write_all sw ((n, v) # ws) =
     (let (r, sw1) = libtrace_slidingwindow_try_write sw n (Some v);
          (rs, sw2) = write_all sw1 ws
      in (r # rs, sw2))"

fun read_n :: "nat \<Rightarrow> 'a libtrace_slidingwindow \<Rightarrow> ('a \<times> u64) option list \<times> 'a libtrace_slidingwindow" where
  "read_n 0 sw = ([], sw)"
| "read_n (Suc k) sw =
     (let (out, sw1) = libtrace_slidingwindow_try_read sw;
          (outs, sw2) = read_n k sw1
      in (out # outs, sw2))"

lemma write_all_view:
  assumes "sw_inv sw" "\<forall>(n, v) \<in> set ws. in_window sw n" "write_all sw ws = (rs, sw')"
  shows "rs = replicate (length ws) 1 \<and> sw_inv sw' \<and> sw_start_number sw' = sw_start_number sw \<and>
    sw_view sw' = (\<lambda>n. case map_of (rev ws) n of Some v \<Rightarrow> Some v | None \<Rightarrow> sw_view sw n)"
  using assms
proof (induction ws arbitrary: sw rs)
  case Nil
  then show ?case by auto
next
  case (Cons w ws)
  obtain n v where w: "w = (n, v)" by fastforce
  obtain r sw1 where r: "libtrace_slidingwindow_try_write sw n (Some v) = (r, sw1)" by fastforce
  obtain rs2 where rs2: "write_all sw1 ws = (rs2, sw')" "rs = r # rs2"
    using Cons.prems(3) r by (auto simp: w split: prod.splits)
  have n: "in_window sw n" using Cons.prems(2) by (simp add: w)
  note wr = try_write_inside [OF Cons.prems(1) n r]
  have "in_window sw1 = in_window sw" using wr by (simp add: in_window_def fun_eq_iff)
  then show ?case
    using Cons.IH [OF wr(2) _ rs2(1)] Cons.prems(2) wr rs2(2)
    by (auto simp: w fun_eq_iff map_add_def split: option.splits)
qed

lemma read_n_view:
  assumes "sw_inv sw" "\<forall>i<k. sw_view sw (sw_start_number sw + of_nat i) = Some (f i)"
    and "k < 2 ^ 63"
  shows "fst (read_n k sw) = map (\<lambda>i. Some (f i, sw_start_number sw + of_nat i)) [0..<k]"
  using assms
proof (induction k arbitrary: sw f)
  case 0
  then show ?case by simp
next
  case (Suc k)
  let ?n = "sw_start_number sw"
  obtain out sw1 where rd: "libtrace_slidingwindow_try_read sw = (out, sw1)" by fastforce
  have x: "sw_view sw ?n = Some (f 0)" using Suc.prems(2) by force
  note tr = try_read_value [OF Suc.prems(1) x rd]
  have "sw_view sw1 (sw_start_number sw1 + of_nat i) = Some (f (Suc i))" if "i < k" for i
  proof -
    have "?n + (1 + of_nat i) \<noteq> ?n"
    proof
      assume "?n + (1 + of_nat i) = ?n"
      then have "(of_nat (Suc i) :: u64) = 0" by simp
      moreover have "unat (of_nat (Suc i) :: u64) = Suc i"
        using that Suc.prems(3) by (subst unat_of_nat) simp
      ultimately show False by simp
    qed
    then show ?thesis
      using Suc.prems(2) that by (auto simp: tr add.assoc dest: spec [where x = "Suc i"])
  qed
  then have "fst (read_n k sw1) = map (\<lambda>i. Some (f (Suc i), sw_start_number sw1 + of_nat i)) [0..<k]"
    using Suc.IH [OF tr(2)] Suc.prems(3) by simp
  then show ?case
    using rd tr(1,3)
    by (auto simp: upt_rec [of 0 "Suc k"] map_Suc_upt [symmetric] add.assoc split: prod.splits
        simp del: upt_Suc)
qed

section \<open>Properties\<close>

text \<open>
  (C4) The window implements a map from sequence numbers to values. A write with a number in
  the window stores it there and nothing else changes; a write with any other number is
  refused; a read returns the value stored for \<open>start_number\<close> together with that number,
  removes it and moves the window on by one, across the wrap-around of the 64-bit numbers;
  without a value for \<open>start_number\<close> it changes nothing.
\<close>

theorem slidingwindow_refines_map:
  assumes "sw_inv sw"
  shows "(case libtrace_slidingwindow_try_write sw n v of (r, sw') \<Rightarrow>
      if n - sw_start_number sw < sw_size sw
      then r = 1 \<and> sw_inv sw' \<and> sw_view sw' = (sw_view sw)(n := v) \<and>
        sw_start_number sw' = sw_start_number sw
      else r = 0 \<and> sw' = sw) \<and>
    (case libtrace_slidingwindow_try_read sw of (out, sw') \<Rightarrow>
      case sw_view sw (sw_start_number sw) of
        Some x \<Rightarrow> out = Some (x, sw_start_number sw) \<and> sw_inv sw' \<and>
          sw_view sw' = (sw_view sw)(sw_start_number sw := None) \<and>
          sw_start_number sw' = sw_start_number sw + 1
      | None \<Rightarrow> out = None \<and> sw' = sw)"
proof -
  obtain r sw1 where w: "libtrace_slidingwindow_try_write sw n v = (r, sw1)" by fastforce
  obtain out sw2 where rd: "libtrace_slidingwindow_try_read sw = (out, sw2)" by fastforce
  have "if in_window sw n
      then r = 1 \<and> sw_inv sw1 \<and> sw_view sw1 = (sw_view sw)(n := v) \<and>
        sw_start_number sw1 = sw_start_number sw
      else r = 0 \<and> sw1 = sw"
    using try_write_inside [OF assms _ w] try_write_outside [of sw n v] w by auto
  then show ?thesis
    using try_read_value [OF assms _ rd] try_read_nothing [OF assms] w rd
    by (auto simp: in_window_def split: option.splits)
qed

definition sw_example :: "nat libtrace_slidingwindow" where
  "sw_example = \<lparr>sw_start = 1, sw_size = 2, sw_start_number = -1, sw_elements = [None, Some 4]\<rparr>"

lemma sw_example_inv: "sw_inv sw_example"
  by (simp add: sw_inv_def sw_example_def)

theorem slidingwindow_refines_map_witness:
  "fst (libtrace_slidingwindow_try_write sw_example 0 (Some 5)) = 1 \<and>
   fst (libtrace_slidingwindow_try_write sw_example 1 (Some 5)) = 0"
  using slidingwindow_refines_map [OF sw_example_inv, of 0 "Some 5"]
    slidingwindow_refines_map [OF sw_example_inv, of 1 "Some 5"]
  by (simp add: sw_example_def split: prod.splits)

lemma of_nat_eq_iff_u64:
  "i < 2 ^ 64 \<Longrightarrow> j < 2 ^ 64 \<Longrightarrow> (of_nat i :: u64) = of_nat j \<longleftrightarrow> i = j"
  by (simp add: word_unat_eq_iff unat_of_nat)

text \<open>
  Reordering. If \<open>k\<close> values, numbered consecutively from \<open>start_number\<close> on, fit in
  the window, then in whatever order they are written, every write is accepted and the
  next \<open>k\<close> reads return them in the order of their numbers.
\<close>

theorem slidingwindow_reorders:
  assumes "sw_inv sw" "k \<le> unat (sw_size sw)" "distinct p" "set p = {..<k}"
  shows "\<exists>sw'. write_all sw (map (\<lambda>i. (sw_start_number sw + of_nat i, f i)) p) = (replicate k 1, sw') \<and>
    fst (read_n k sw') = map (\<lambda>i. Some (f i, sw_start_number sw + of_nat i)) [0..<k]"
proof -
  let ?n = "sw_start_number sw"
  let ?ws = "map (\<lambda>i. (?n + of_nat i, f i)) p"
  obtain rs sw' where wa: "write_all sw ?ws = (rs, sw')" by fastforce
  have k: "k < 2 ^ 63" using assms(2) sw_invD(2) [OF assms(1)] by simp
  have len: "length p = k" using assms(3,4) distinct_card by fastforce
  have win: "in_window sw (?n + of_nat i)" if "i < k" for i
    using that k assms(2) by (simp add: in_window_def word_less_nat_alt unat_of_nat)
  have inj: "inj_on (\<lambda>i. ?n + of_nat i) (set p)"
    using k by (auto simp: inj_on_def assms(4) of_nat_eq_iff_u64)
  have keys: "distinct (map fst (rev ?ws))"
    using assms(3) inj by (simp add: rev_map [symmetric] comp_def distinct_map)
  have "map_of (rev ?ws) (?n + of_nat i) = Some (f i)" if "i < k" for i
    using that assms(4) by (intro map_of_is_SomeI [OF keys]) auto
  moreover have "rs = replicate k 1" "sw_inv sw'" "sw_start_number sw' = ?n"
    "sw_view sw' = (\<lambda>n. case map_of (rev ?ws) n of Some v \<Rightarrow> Some v | None \<Rightarrow> sw_view sw n)"
    using write_all_view [OF assms(1) _ wa] win assms(4) len by auto
  ultimately show ?thesis
    using read_n_view [of sw' k f] wa k by simp
qed

theorem slidingwindow_reorders_witness:
  "\<exists>sw'. write_all sw_example [(0, 6), (-1, 5)] = ([1, 1], sw') \<and>
    fst (read_n 2 sw') = [Some (5, -1), Some (6, 0)]"
proof -
  have "2 \<le> unat (sw_size sw_example)" and ns: "sw_start_number sw_example = -1"
    by (simp_all add: sw_example_def)
  moreover have "set [1, 0] = {..<2::nat}" by auto
  moreover have upt: "[0..<2] = [0, 1::nat]" by (simp add: upt_rec)
  ultimately show ?thesis
    using slidingwindow_reorders [OF sw_example_inv, of 2 "[1, 0]" "\<lambda>i. if i = 0 then 5 else 6"]
    by (simp only: ns upt list.map list.size distinct.simps if_True) (simp add: numeral_2_eq_2)
qed

end
