(* ===== verification/Dll.thy ===== *)
theory Dll
  imports Interfaces
begin

text \<open>
  Doubly linked lists in the C heap, shared by \<open>deque.c\<close> and \<open>linked_list.c\<close>: nodes
  with \<open>next\<close> and \<open>prev\<close> pointers, and what it means that a chain of nodes holds a
  list of values. A list never hands out its nodes to be relinked elsewhere, so every
  list carries the nodes it has allocated; \<open>malloc\<close> returns an address that is not in
  use and is taken to succeed, as the sources assume or assert.
\<close>

section \<open>Nodes\<close>

type_synonym addr = nat

record 'a list_node =
  n_next :: "addr option"
  n_prev :: "addr option"
  n_data :: 'a

type_synonym 'a nodes = "addr \<Rightarrow> 'a list_node option"

text \<open>Access through a pointer, a fault if it is null or points to no node.\<close>

definition deref :: "'a nodes \<Rightarrow> addr option \<Rightarrow> 'a list_node res" where
  "deref c p = (case p of None \<Rightarrow> Inl NullDeref
     | Some a \<Rightarrow> (case c a of None \<Rightarrow> Inl (OutOfBounds a) | Some nd \<Rightarrow> Inr nd))"

definition set_next :: "'a nodes \<Rightarrow> addr option \<Rightarrow> addr option \<Rightarrow> 'a nodes res" where
  "set_next c p v = bindr (deref c p) (\<lambda>nd. Inr (c(the p \<mapsto> nd\<lparr>n_next := v\<rparr>)))"

definition set_prev :: "'a nodes \<Rightarrow> addr option \<Rightarrow> addr option \<Rightarrow> 'a nodes res" where
  "set_prev c p v = bindr (deref c p) (\<lambda>nd. Inr (c(the p \<mapsto> nd\<lparr>n_prev := v\<rparr>)))"

text \<open>The data of the first \<open>n\<close> nodes that the \<open>next\<close> pointers lead to.\<close>

fun chain :: "nat \<Rightarrow> 'a nodes \<Rightarrow> addr option \<Rightarrow> 'a list" where
  "chain 0 c p = []"
| "chain (Suc n) c p =
     (case deref c p of Inl _ \<Rightarrow> [] | Inr nd \<Rightarrow> n_data nd # chain n c (n_next nd))"

section \<open>Segments\<close>

definition first_or :: "addr list \<Rightarrow> addr option \<Rightarrow> addr option" where
  "first_or as nx = (case as of [] \<Rightarrow> nx | a # _ \<Rightarrow> Some a)"

definition last_or :: "addr option \<Rightarrow> addr list \<Rightarrow> addr option" where
  "last_or pv as = (if as = [] then pv else Some (last as))"

text \<open>
  \<open>seg c pv as xs nx\<close>: the nodes at \<open>as\<close> hold the values \<open>xs\<close> and are linked in both
  directions, between the pointers \<open>pv\<close> on the left and \<open>nx\<close> on the right.
\<close>

fun seg :: "'a nodes \<Rightarrow> addr option \<Rightarrow> addr list \<Rightarrow> 'a list \<Rightarrow> addr option \<Rightarrow> bool" where
  "seg c pv [] [] nx = True"
| "seg c pv (a # as) (x # xs) nx =
     (c a = Some \<lparr>n_next = first_or as nx, n_prev = pv, n_data = x\<rparr> \<and> seg c (Some a) as xs nx)"
| "seg c pv _ _ nx = False"

lemma first_or_simps [simp]:
  "first_or [] nx = nx" "first_or (a # as) nx = Some a"
  "first_or (as @ bs) nx = first_or as (first_or bs nx)"
  by (simp_all add: first_or_def split: list.splits)

lemma last_or_simps [simp]:
  "last_or pv [] = pv" "last_or pv (as @ [a]) = Some a" "last_or pv (a # as) = last_or (Some a) as"
  by (simp_all add: last_or_def)

lemma seg_length: "seg c pv as xs nx \<Longrightarrow> length as = length xs"
  by (induction c pv as xs nx rule: seg.induct) auto

lemma seg_append:
  "length as = length xs \<Longrightarrow>
   seg c pv (as @ bs) (xs @ ys) nx \<longleftrightarrow>
     seg c pv as xs (first_or bs nx) \<and> seg c (last_or pv as) bs ys nx"
  by (induction as xs arbitrary: pv rule: list_induct2) auto

lemma seg_frame [simp]: "a \<notin> set as \<Longrightarrow> seg (c(a := v)) pv as xs nx = seg c pv as xs nx"
  by (induction c pv as xs nx rule: seg.induct) auto

lemma seg_nodes: "seg c pv as xs nx \<Longrightarrow> a \<in> set as \<Longrightarrow> a \<in> dom c"
  by (induction c pv as xs nx rule: seg.induct) auto

lemma chain_seg: "seg c pv as xs None \<Longrightarrow> chain (length xs) c (first_or as None) = xs"
  by (induction as xs arbitrary: pv rule: list_induct2') (auto simp: deref_def)

lemma seg_snocD:
  assumes "seg c pv as (xs @ [x]) nx"
  obtains as' a where "as = as' @ [a]" "seg c pv as' xs (Some a)"
    "c a = Some \<lparr>n_next = nx, n_prev = last_or pv as', n_data = x\<rparr>"
proof -
  have "length as = Suc (length xs)" using seg_length [OF assms] by simp
  then obtain as' a where as: "as = as' @ [a]" "length as' = length xs"
    by (cases as rule: rev_cases) auto
  then show ?thesis
    using assms that [of as' a] seg_append [of as' xs c pv "[a]" "[x]" nx] by simp
qed

section \<open>Linking and unlinking at the ends\<close>

lemma dom_single_clear: "dom m = {a} \<Longrightarrow> m(a := None) = Map.empty"
  by (auto simp: fun_eq_iff dom_def)

lemma link_back:
  assumes "seg c None as xs None" "as \<noteq> []" "distinct as" "a \<notin> set as"
  obtains c' where
    "set_next (c(a \<mapsto> \<lparr>n_next = None, n_prev = last_or None as, n_data = x\<rparr>)) (last_or None as) (Some a)
       = Inr c'"
    "seg c' None (as @ [a]) (xs @ [x]) None" "dom c' = insert a (dom c)"
proof -
  obtain ys y where xs: "xs = ys @ [y]"
    using assms(2) seg_length [OF assms(1)] by (cases xs rule: rev_cases) auto
  from seg_snocD [OF assms(1) [unfolded xs]] obtain bs b where
    as: "as = bs @ [b]" and bs: "seg c None bs ys (Some b)"
    and b: "c b = Some \<lparr>n_next = None, n_prev = last_or None bs, n_data = y\<rparr>"
    by metis
  let ?c' = "c(a \<mapsto> \<lparr>n_next = None, n_prev = Some b, n_data = x\<rparr>,
                b \<mapsto> \<lparr>n_next = Some a, n_prev = last_or None bs, n_data = y\<rparr>)"
  have ab: "a \<noteq> b" "b \<notin> set bs" "a \<notin> set bs" using assms(3,4) as by auto
  have len: "length (bs @ [b]) = length (ys @ [y])" "length bs = length ys"
    using seg_length [OF bs] by simp_all
  show ?thesis
  proof (rule that [of ?c'])
    show "set_next (c(a \<mapsto> \<lparr>n_next = None, n_prev = last_or None as, n_data = x\<rparr>))
        (last_or None as) (Some a) = Inr ?c'"
      using ab b by (simp add: set_next_def deref_def as)
    show "seg ?c' None (as @ [a]) (xs @ [x]) None"
      using ab bs len by (simp add: as xs seg_append del: append_assoc)
    show "dom ?c' = insert a (dom c)" using b by auto
  qed
qed

lemma link_front:
  assumes "seg c None as xs None" "as \<noteq> []" "distinct as" "a \<notin> set as"
  obtains c' where
    "set_prev (c(a \<mapsto> \<lparr>n_next = first_or as None, n_prev = None, n_data = x\<rparr>)) (first_or as None) (Some a)
       = Inr c'"
    "seg c' None (a # as) (x # xs) None" "dom c' = insert a (dom c)"
proof -
  obtain b bs y ys where as: "as = b # bs" and xs: "xs = y # ys"
    using assms(1,2) by (cases as; cases xs) auto
  have b: "c b = Some \<lparr>n_next = first_or bs None, n_prev = None, n_data = y\<rparr>"
    and bs: "seg c (Some b) bs ys None"
    using assms(1) by (simp_all add: as xs)
  let ?c' = "c(a \<mapsto> \<lparr>n_next = Some b, n_prev = None, n_data = x\<rparr>,
                b \<mapsto> \<lparr>n_next = first_or bs None, n_prev = Some a, n_data = y\<rparr>)"
  have ab: "a \<noteq> b" "b \<notin> set bs" "a \<notin> set bs" using assms(3,4) as by auto
  show ?thesis
  proof (rule that [of ?c'])
    show "set_prev (c(a \<mapsto> \<lparr>n_next = first_or as None, n_prev = None, n_data = x\<rparr>))
        (first_or as None) (Some a) = Inr ?c'"
      using ab b by (simp add: set_prev_def deref_def as)
    show "seg ?c' None (a # as) (x # xs) None" using ab bs by (simp add: as xs)
    show "dom ?c' = insert a (dom c)" using b by auto
  qed
qed

lemma unlink_front:
  assumes "seg c None (a # as) (x # xs) None" "distinct (a # as)" "as \<noteq> []"
  obtains c' where "set_prev c (first_or as None) None = Inr c'"
    "seg (c'(a := None)) None as xs None" "dom c' = dom c"
proof -
  obtain b bs y ys where as: "as = b # bs" and xs: "xs = y # ys"
    using assms(1,3) by (cases as; cases xs) auto
  have b: "c b = Some \<lparr>n_next = first_or bs None, n_prev = Some a, n_data = y\<rparr>"
    using assms(1) by (simp add: as xs)
  show ?thesis
    using assms(1,2) b
    by (intro that [of "c(b \<mapsto> \<lparr>n_next = first_or bs None, n_prev = None, n_data = y\<rparr>)"])
      (auto simp: as xs set_prev_def deref_def)
qed

lemma unlink_back:
  assumes "seg c None (as @ [a]) (xs @ [x]) None" "distinct (as @ [a])" "as \<noteq> []"
  obtains c' where "set_next c (last_or None as) None = Inr c'"
    "seg (c'(a := None)) None as xs None" "dom c' = dom c"
proof -
  have len: "length as = length xs" using seg_length [OF assms(1)] by simp
  then have s: "seg c None as xs (Some a)" using assms(1) by (simp add: seg_append)
  obtain ys y where xs: "xs = ys @ [y]" using len assms(3) by (cases xs rule: rev_cases) auto
  from seg_snocD [OF s [unfolded xs]] obtain bs b where
    as: "as = bs @ [b]" and bs: "seg c None bs ys (Some b)"
    and b: "c b = Some \<lparr>n_next = Some a, n_prev = last_or None bs, n_data = y\<rparr>"
    by metis
  have ab: "a \<noteq> b" "b \<notin> set bs" "a \<notin> set bs" using assms(2) as by auto
  show ?thesis
    using ab b bs seg_length [OF bs]
    by (intro that [of "c(b \<mapsto> \<lparr>n_next = None, n_prev = last_or None bs, n_data = y\<rparr>)"])
      (auto simp: as xs set_next_def deref_def seg_append)
qed

end
