(* ===== verification/Deque.thy ===== *)
theory Deque
  imports Dll
begin

text \<open>
  The double-ended queue of \<open>lib/data-struct/deque.c\<close>, which carries the results of the
  per-packet threads to the combiners. Each operation runs under the queue's mutex.
\<close>

section \<open>The structure and its operations\<close>

record 'a libtrace_queue =
  q_head :: "addr option"
  q_tail :: "addr option"
  q_size :: nat
  q_element_size :: nat
  q_nodes :: "'a nodes"
  q_fresh :: addr       \<comment> \<open>the address the next \<open>malloc\<close> returns\<close>

definition libtrace_deque_init :: "nat \<Rightarrow> 'a libtrace_queue" where
  "libtrace_deque_init element_size =
     \<lparr>q_head = None, q_tail = None, q_size = 0, q_element_size = element_size,
      q_nodes = Map.empty, q_fresh = 0\<rparr>"

definition libtrace_deque_push_back :: "'a libtrace_queue \<Rightarrow> 'a \<Rightarrow> 'a libtrace_queue res" where
  "libtrace_deque_push_back q d =
     (let new_node = q_fresh q in
      if q_head q = None
      then assertr (q_tail q = None \<and> q_size q = 0)
        (Inr (q\<lparr>q_nodes := (q_nodes q)(new_node \<mapsto> \<lparr>n_next = None, n_prev = None, n_data = d\<rparr>),
                q_fresh := Suc new_node,
                q_head := Some new_node, q_tail := Some new_node, q_size := Suc (q_size q)\<rparr>))
      else assertr (q_tail q \<noteq> None)
        (bindr (set_next ((q_nodes q)(new_node \<mapsto> \<lparr>n_next = None, n_prev = q_tail q, n_data = d\<rparr>))
                  (q_tail q) (Some new_node)) (\<lambda>nodes.
         Inr (q\<lparr>q_nodes := nodes, q_fresh := Suc new_node,
                q_tail := Some new_node, q_size := Suc (q_size q)\<rparr>))))"

definition libtrace_deque_push_front :: "'a libtrace_queue \<Rightarrow> 'a \<Rightarrow> 'a libtrace_queue res" where
  "libtrace_deque_push_front q d =
     (let new_node = q_fresh q in
      if q_head q = None
      then assertr (q_tail q = None \<and> q_size q = 0)
        (Inr (q\<lparr>q_nodes := (q_nodes q)(new_node \<mapsto> \<lparr>n_next = None, n_prev = None, n_data = d\<rparr>),
                q_fresh := Suc new_node,
                q_head := Some new_node, q_tail := Some new_node, q_size := Suc (q_size q)\<rparr>))
      else
        (bindr (set_prev ((q_nodes q)(new_node \<mapsto> \<lparr>n_next = q_head q, n_prev = None, n_data = d\<rparr>))
                  (q_head q) (Some new_node)) (\<lambda>nodes.
         Inr (q\<lparr>q_nodes := nodes, q_fresh := Suc new_node,
                q_head := Some new_node, q_size := Suc (q_size q)\<rparr>))))"

text \<open>Peeking and popping: \<open>Inr None\<close> stands for the return value 0.\<close>

definition libtrace_deque_peek_front :: "'a libtrace_queue \<Rightarrow> 'a option res" where
  "libtrace_deque_peek_front q =
     (if q_head q = None then Inr None
      else bindr (deref (q_nodes q) (q_head q)) (\<lambda>n. Inr (Some (n_data n))))"

definition libtrace_deque_peek_tail :: "'a libtrace_queue \<Rightarrow> 'a option res" where
  "libtrace_deque_peek_tail q =
     (if q_tail q = None then Inr None
      else bindr (deref (q_nodes q) (q_tail q)) (\<lambda>n. Inr (Some (n_data n))))"

definition libtrace_deque_pop_front :: "'a libtrace_queue \<Rightarrow> ('a option \<times> 'a libtrace_queue) res" where
  "libtrace_deque_pop_front q =
     (if q_head q = None then Inr (None, q)
      else bindr (deref (q_nodes q) (q_head q)) (\<lambda>n.
        let head = n_next n in
        bindr (if head \<noteq> None then set_prev (q_nodes q) head None else Inr (q_nodes q)) (\<lambda>nodes.
        let size' = q_size q - 1 in
        Inr (Some (n_data n),
             q\<lparr>q_head := head, q_size := size',
               q_tail := (if size' \<le> 1 then head else q_tail q),
               q_nodes := nodes(the (q_head q) := None)\<rparr>))))"

definition libtrace_deque_pop_tail :: "'a libtrace_queue \<Rightarrow> ('a option \<times> 'a libtrace_queue) res" where
  "libtrace_deque_pop_tail q =
     (if q_tail q = None then Inr (None, q)
      else bindr (deref (q_nodes q) (q_tail q)) (\<lambda>n.
        let tail = n_prev n in
        bindr (if tail \<noteq> None then set_next (q_nodes q) tail None else Inr (q_nodes q)) (\<lambda>nodes.
        let size' = q_size q - 1 in
        Inr (Some (n_data n),
             q\<lparr>q_tail := tail, q_size := size',
               q_head := (if size' \<le> 1 then tail else q_head q),
               q_nodes := nodes(the (q_tail q) := None)\<rparr>))))"

definition libtrace_deque_get_size :: "'a libtrace_queue \<Rightarrow> nat" where
  "libtrace_deque_get_size q = q_size q"

definition libtrace_zero_deque :: "'a libtrace_queue \<Rightarrow> 'a libtrace_queue" where
  "libtrace_zero_deque q = q\<lparr>q_head := None, q_tail := None, q_size := 0, q_element_size := 0\<rparr>"

text \<open>
  The loop follows the \<open>next\<close> pointers until it meets a null pointer; it is written with a
  bound on the number of nodes visited, \<open>None\<close> when the bound is reached first.
\<close>

fun apply_loop :: "nat \<Rightarrow> ('a \<Rightarrow> 'a) \<Rightarrow> 'a nodes \<Rightarrow> addr option \<Rightarrow> 'a nodes option res" where
  "apply_loop fuel fn nodes None = Inr (Some nodes)"
| "apply_loop 0 fn nodes (Some a) = Inr None"
| "apply_loop (Suc fuel) fn nodes (Some a) =
     bindr (deref nodes (Some a)) (\<lambda>n.
       apply_loop fuel fn (nodes(a \<mapsto> n\<lparr>n_data := fn (n_data n)\<rparr>)) (n_next n))"

definition libtrace_deque_apply_function ::
  "nat \<Rightarrow> 'a libtrace_queue \<Rightarrow> ('a \<Rightarrow> 'a) \<Rightarrow> 'a libtrace_queue option res" where
  "libtrace_deque_apply_function fuel q fn =
     bindr (apply_loop fuel fn (q_nodes q) (q_head q)) (\<lambda>r.
       Inr (map_option (\<lambda>nodes. q\<lparr>q_nodes := nodes\<rparr>) r))"

section \<open>Well-formed queues and their contents\<close>

definition dq_rep :: "'a libtrace_queue \<Rightarrow> addr list \<Rightarrow> 'a list \<Rightarrow> bool" where
  "dq_rep q as xs \<longleftrightarrow> seg (q_nodes q) None as xs None \<and> distinct as \<and>
     q_head q = first_or as None \<and> q_tail q = last_or None as \<and> q_size q = length xs \<and>
     dom (q_nodes q) = set as \<and> (\<forall>a \<in> set as. a < q_fresh q)"

definition dq_inv :: "'a libtrace_queue \<Rightarrow> bool" where
  "dq_inv q \<longleftrightarrow> (\<exists>as xs. dq_rep q as xs)"

definition dq_contents :: "'a libtrace_queue \<Rightarrow> 'a list" where
  "dq_contents q = chain (q_size q) (q_nodes q) (q_head q)"

lemma dq_rep_contents: "dq_rep q as xs \<Longrightarrow> dq_contents q = xs"
  using chain_seg [of "q_nodes q" None as xs] by (simp add: dq_rep_def dq_contents_def)

lemma dq_rep_inv: "dq_rep q as xs \<Longrightarrow> dq_inv q"
  by (auto simp: dq_inv_def)

lemma dq_invE:
  assumes "dq_inv q"
  obtains as where "dq_rep q as (dq_contents q)"
  using assms dq_rep_contents by (metis dq_inv_def)

lemma dq_rep_fresh: "dq_rep q as xs \<Longrightarrow> q_fresh q \<notin> set as"
  using seg_nodes unfolding dq_rep_def by fastforce

lemma dq_rep_length: "dq_rep q as xs \<Longrightarrow> length as = length xs"
  by (auto simp: dq_rep_def dest: seg_length)

section \<open>The operations on the representation\<close>

lemma push_back_rep:
  assumes "dq_rep q as xs"
  shows "\<exists>q'. libtrace_deque_push_back q x = Inr q' \<and> dq_rep q' (as @ [q_fresh q]) (xs @ [x])"
proof (cases "as = []")
  case True
  then have "xs = []" using dq_rep_length [OF assms] by simp
  then show ?thesis using assms True
    by (auto simp: libtrace_deque_push_back_def dq_rep_def Let_def less_Suc_eq)
next
  case False
  have seg: "seg (q_nodes q) None as xs None" "distinct as" using assms by (simp_all add: dq_rep_def)
  from link_back [OF seg(1) False seg(2) dq_rep_fresh [OF assms], of x] obtain c' where c':
    "set_next ((q_nodes q)(q_fresh q \<mapsto> \<lparr>n_next = None, n_prev = last_or None as, n_data = x\<rparr>))
       (last_or None as) (Some (q_fresh q)) = Inr c'"
    "seg c' None (as @ [q_fresh q]) (xs @ [x]) None" "dom c' = insert (q_fresh q) (dom (q_nodes q))"
    by metis
  have "q_head q \<noteq> None" "q_tail q \<noteq> None" "q_tail q = last_or None as"
    using assms False by (auto simp: dq_rep_def last_or_def first_or_def split: list.splits)
  then show ?thesis
    using assms False c' dq_rep_fresh [OF assms]
    by (auto simp: libtrace_deque_push_back_def dq_rep_def Let_def less_Suc_eq first_or_def
        split: list.splits)
qed

lemma push_front_rep:
  assumes "dq_rep q as xs"
  shows "\<exists>q'. libtrace_deque_push_front q x = Inr q' \<and> dq_rep q' (q_fresh q # as) (x # xs)"
proof (cases "as = []")
  case True
  then have "xs = []" using dq_rep_length [OF assms] by simp
  then show ?thesis using assms True
    by (auto simp: libtrace_deque_push_front_def dq_rep_def Let_def less_Suc_eq)
next
  case False
  have seg: "seg (q_nodes q) None as xs None" "distinct as" using assms by (simp_all add: dq_rep_def)
  from link_front [OF seg(1) False seg(2) dq_rep_fresh [OF assms], of x] obtain c' where c':
    "set_prev ((q_nodes q)(q_fresh q \<mapsto> \<lparr>n_next = first_or as None, n_prev = None, n_data = x\<rparr>))
       (first_or as None) (Some (q_fresh q)) = Inr c'"
    "seg c' None (q_fresh q # as) (x # xs) None" "dom c' = insert (q_fresh q) (dom (q_nodes q))"
    by metis
  have "q_head q \<noteq> None" "q_head q = first_or as None" "last_or None (q_fresh q # as) = last_or None as"
    using assms False by (auto simp: dq_rep_def last_or_def first_or_def split: list.splits)
  then show ?thesis
    using assms c' dq_rep_fresh [OF assms]
    by (auto simp: libtrace_deque_push_front_def dq_rep_def Let_def less_Suc_eq)
qed

lemma pop_front_rep:
  assumes "dq_rep q (a # as) (x # xs)"
  shows "\<exists>q'. libtrace_deque_pop_front q = Inr (Some x, q') \<and> dq_rep q' as xs"
proof -
  have seg: "seg (q_nodes q) None (a # as) (x # xs) None" "distinct (a # as)"
    and hd: "q_head q = Some a" and sz: "q_size q = Suc (length xs)"
    using assms by (simp_all add: dq_rep_def)
  have a: "q_nodes q a = Some \<lparr>n_next = first_or as None, n_prev = None, n_data = x\<rparr>"
    using seg(1) by simp
  show ?thesis
  proof (cases "as = []")
    case True
    then have "xs = []" using dq_rep_length [OF assms] by simp
    then show ?thesis using assms True a
      by (auto simp: libtrace_deque_pop_front_def dq_rep_def deref_def Let_def dom_single_clear)
  next
    case False
    from unlink_front [OF seg False] obtain c' where c':
      "set_prev (q_nodes q) (first_or as None) None = Inr c'"
      "seg (c'(a := None)) None as xs None" "dom c' = dom (q_nodes q)"
      by metis
    have "first_or as None \<noteq> None" using False by (auto simp: first_or_def split: list.splits)
    moreover have "(if length xs \<le> 1 then first_or as None else q_tail q) = last_or None as"
      using False assms dq_rep_length [OF assms]
      by (cases as; cases "tl as") (auto simp: dq_rep_def last_or_def first_or_def)
    ultimately show ?thesis
      using assms a hd sz c'
      by (auto simp: libtrace_deque_pop_front_def dq_rep_def deref_def Let_def)
  qed
qed

lemma pop_tail_rep:
  assumes "dq_rep q (as @ [a]) (xs @ [x])"
  shows "\<exists>q'. libtrace_deque_pop_tail q = Inr (Some x, q') \<and> dq_rep q' as xs"
proof -
  have seg: "seg (q_nodes q) None (as @ [a]) (xs @ [x]) None" "distinct (as @ [a])"
    and tl: "q_tail q = Some a" and sz: "q_size q = Suc (length xs)"
    using assms by (simp_all add: dq_rep_def)
  have len: "length as = length xs" using dq_rep_length [OF assms] by simp
  have a: "q_nodes q a = Some \<lparr>n_next = None, n_prev = last_or None as, n_data = x\<rparr>"
    using seg(1) len by (simp add: seg_append)
  show ?thesis
  proof (cases "as = []")
    case True
    then have "xs = []" using len by simp
    then show ?thesis using assms True a
      by (auto simp: libtrace_deque_pop_tail_def dq_rep_def deref_def Let_def dom_single_clear)
  next
    case False
    from unlink_back [OF seg False] obtain c' where c':
      "set_next (q_nodes q) (last_or None as) None = Inr c'"
      "seg (c'(a := None)) None as xs None" "dom c' = dom (q_nodes q)"
      by metis
    have "last_or None as \<noteq> None" using False by (auto simp: last_or_def)
    moreover have "(if length xs \<le> 1 then last_or None as else q_head q) = first_or as None"
      using False assms len
      by (cases as; cases "tl as") (auto simp: dq_rep_def last_or_def first_or_def)
    ultimately show ?thesis
      using assms a tl sz c'
      by (auto simp: libtrace_deque_pop_tail_def dq_rep_def deref_def Let_def)
  qed
qed

lemma dq_rep_Nil: "dq_rep q as [] \<Longrightarrow> q_head q = None \<and> q_tail q = None"
  using dq_rep_length [of q as "[]"] by (simp add: dq_rep_def)

lemma peek_front_rep:
  "dq_rep q as xs \<Longrightarrow> libtrace_deque_peek_front q = Inr (case xs of [] \<Rightarrow> None | x # _ \<Rightarrow> Some x)"
  using dq_rep_length [of q as xs]
  by (cases as; cases xs) (auto simp: libtrace_deque_peek_front_def dq_rep_def deref_def)

lemma peek_tail_rep:
  assumes "dq_rep q as xs"
  shows "libtrace_deque_peek_tail q = Inr (if xs = [] then None else Some (last xs))"
proof (cases xs rule: rev_cases)
  case Nil
  then show ?thesis using assms by (auto simp: libtrace_deque_peek_tail_def dest: dq_rep_Nil)
next
  case (snoc ys y)
  with assms have "seg (q_nodes q) None as (ys @ [y]) None" by (simp add: dq_rep_def)
  from seg_snocD [OF this] obtain bs b where "as = bs @ [b]"
    "q_nodes q b = Some \<lparr>n_next = None, n_prev = last_or None bs, n_data = y\<rparr>"
    by metis
  then show ?thesis using assms snoc
    by (auto simp: libtrace_deque_peek_tail_def dq_rep_def deref_def)
qed

interpretation dq: deque_impl dq_inv dq_contents libtrace_deque_push_back libtrace_deque_push_front
  libtrace_deque_pop_front libtrace_deque_pop_tail libtrace_deque_get_size
proof (unfold_locales, goal_cases)
  case (1 q x)
  then show ?case using push_back_rep by (metis dq_invE dq_rep_inv dq_rep_contents)
next
  case (2 q x)
  then show ?case using push_front_rep by (metis dq_invE dq_rep_inv dq_rep_contents)
next
  case (3 q)
  then show ?case using dq_rep_Nil by (metis dq_invE libtrace_deque_pop_front_def)
next
  case (4 q x xs)
  then obtain a as where "dq_rep q (a # as) (x # xs)"
    using dq_rep_length by (metis dq_invE length_Suc_conv)
  then show ?case using pop_front_rep by (metis dq_rep_inv dq_rep_contents)
next
  case (5 q)
  then show ?case using dq_rep_Nil by (metis dq_invE libtrace_deque_pop_tail_def)
next
  case (6 q xs x)
  then obtain as a where "dq_rep q (as @ [a]) (xs @ [x])"
    using dq_rep_length by (metis dq_invE length_append_singleton length_Suc_conv_rev)
  then show ?case using pop_tail_rep by (metis dq_rep_inv dq_rep_contents)
next
  case (7 q)
  then show ?case by (metis dq_invE dq_rep_def libtrace_deque_get_size_def)
qed

lemma apply_loop_seg:
  assumes "seg c pv as xs None" "distinct as" "length xs \<le> fuel"
  shows "\<exists>c'. apply_loop fuel fn c (first_or as None) = Inr (Some c') \<and>
    seg c' pv as (map fn xs) None \<and> dom c' = dom c \<and> (\<forall>a. a \<notin> set as \<longrightarrow> c' a = c a)"
  using assms
proof (induction as arbitrary: c pv xs fuel)
  case Nil
  then show ?case by (cases xs) auto
next
  case (Cons a as)
  then obtain x ys where xs: "xs = x # ys" by (cases xs) auto
  obtain n where fuel: "fuel = Suc n" using Cons.prems(3) xs by (cases fuel) auto
  have a: "c a = Some \<lparr>n_next = first_or as None, n_prev = pv, n_data = x\<rparr>"
    and rest: "seg c (Some a) as ys None"
    using Cons.prems(1) by (simp_all add: xs)
  let ?c = "c(a \<mapsto> \<lparr>n_next = first_or as None, n_prev = pv, n_data = fn x\<rparr>)"
  have "seg ?c (Some a) as ys None" using rest Cons.prems(2) by simp
  then obtain c' where "apply_loop n fn ?c (first_or as None) = Inr (Some c')"
    "seg c' (Some a) as (map fn ys) None" "dom c' = dom ?c" "\<forall>b. b \<notin> set as \<longrightarrow> c' b = ?c b"
    using Cons.IH [OF \<open>seg ?c (Some a) as ys None\<close>, of n] Cons.prems(2,3)
    unfolding xs fuel list.size distinct.simps by fastforce
  then show ?case using a Cons.prems(2) by (auto simp: xs fuel deref_def)
qed

lemma apply_function_rep:
  assumes "dq_rep q as xs" "length xs \<le> fuel"
  shows "\<exists>q'. libtrace_deque_apply_function fuel q fn = Inr (Some q') \<and> dq_rep q' as (map fn xs)"
  using assms apply_loop_seg [of "q_nodes q" None as xs fuel fn]
  by (auto simp: libtrace_deque_apply_function_def dq_rep_def)

lemma dq_inv_init: "dq_inv (libtrace_deque_init n)" "dq_contents (libtrace_deque_init n) = []"
  by (auto simp: dq_inv_def dq_rep_def dq_contents_def libtrace_deque_init_def
      intro!: exI [of _ "[]"])

section \<open>Properties\<close>

text \<open>
  (C5) The queue implements a list. On a well-formed queue the pushes append a value at
  their end, the pops return and remove the value at their end (or report that there is
  none), the peeks return it without removing it, \<open>get_size\<close> is the length and
  \<open>apply_function\<close> visits every value once; no operation dereferences a null or
  dangling pointer or fails an assertion, and each leaves the queue well-formed.
\<close>

theorem deque_refines_list:
  assumes "dq_inv q" and "dq_contents q = xs"
  shows "(\<exists>q'. libtrace_deque_push_back q x = Inr q' \<and> dq_inv q' \<and> dq_contents q' = xs @ [x]) \<and>
    (\<exists>q'. libtrace_deque_push_front q x = Inr q' \<and> dq_inv q' \<and> dq_contents q' = x # xs) \<and>
    (\<exists>q'. libtrace_deque_pop_front q = Inr (if xs = [] then None else Some (hd xs), q') \<and>
       dq_inv q' \<and> dq_contents q' = tl xs) \<and>
    (\<exists>q'. libtrace_deque_pop_tail q = Inr (if xs = [] then None else Some (last xs), q') \<and>
       dq_inv q' \<and> dq_contents q' = butlast xs) \<and>
    libtrace_deque_peek_front q = Inr (if xs = [] then None else Some (hd xs)) \<and>
    libtrace_deque_peek_tail q = Inr (if xs = [] then None else Some (last xs)) \<and>
    libtrace_deque_get_size q = length xs \<and>
    (\<exists>q'. libtrace_deque_apply_function (length xs) q fn = Inr (Some q') \<and>
       dq_inv q' \<and> dq_contents q' = map fn xs)"
proof (intro conjI)
  obtain as where rep: "dq_rep q as xs" using dq_invE [OF assms(1)] assms(2) by auto
  show "\<exists>q'. libtrace_deque_pop_front q = Inr (if xs = [] then None else Some (hd xs), q') \<and>
       dq_inv q' \<and> dq_contents q' = tl xs"
    using dq.pop_front [OF assms(1)] dq.pop_front_empty [OF assms(1)] assms
    by (cases xs) auto
  show "\<exists>q'. libtrace_deque_pop_tail q = Inr (if xs = [] then None else Some (last xs), q') \<and>
       dq_inv q' \<and> dq_contents q' = butlast xs"
    using dq.pop_back [OF assms(1)] dq.pop_back_empty [OF assms(1)] assms
    by (cases xs rule: rev_cases) auto
  show "libtrace_deque_peek_front q = Inr (if xs = [] then None else Some (hd xs))"
    using peek_front_rep [OF rep] by (cases xs) auto
  show "libtrace_deque_peek_tail q = Inr (if xs = [] then None else Some (last xs))"
    by (rule peek_tail_rep [OF rep])
  show "\<exists>q'. libtrace_deque_apply_function (length xs) q fn = Inr (Some q') \<and>
       dq_inv q' \<and> dq_contents q' = map fn xs"
    using apply_function_rep [OF rep order_refl, of fn] by (auto dest: dq_rep_inv dq_rep_contents)
qed (use dq.push_back [OF assms(1), of x] dq.push_front [OF assms(1), of x]
    dq.get_size [OF assms(1)] assms(2) in auto)

theorem deque_refines_list_witness:
  "\<exists>q'. libtrace_deque_push_back (libtrace_deque_init 8) (3::nat) = Inr q' \<and> dq_contents q' = [3]"
  using deque_refines_list [OF dq_inv_init(1) dq_inv_init(2), of 8 "3::nat" id] by auto

text \<open>
  Queue and stack. Values pushed at the back of a fresh queue come out of
  \<open>pop_front\<close> in the order they went in, and out of \<open>pop_tail\<close> in the reverse order.
\<close>

theorem deque_order:
  "\<exists>q1 q2 q3. push_all libtrace_deque_push_back (libtrace_deque_init n) xs = Inr q1 \<and>
    libtrace_deque_get_size q1 = length xs \<and>
    pop_n libtrace_deque_pop_front (length xs) q1 = Inr (map Some xs, q2) \<and> dq_contents q2 = [] \<and>
    pop_n libtrace_deque_pop_tail (length xs) q1 = Inr (map Some (rev xs), q3) \<and> dq_contents q3 = []"
  by (rule dq.queue_then_stack [OF dq_inv_init])

end
