(* ===== verification/Linked_List.thy ===== *)
theory Linked_List
  imports Deque
begin

text \<open>
  The linked list of \<open>lib/data-struct/linked_list.c\<close>. Its structure has the fields of the
  deque but for the mutex. A \<open>libtrace_list_t *\<close> or \<open>void *item\<close> that may be null is an
  option.
\<close>

section \<open>The operations\<close>

type_synonym 'a libtrace_list = "'a libtrace_queue"

definition libtrace_list_init :: "bool \<Rightarrow> nat \<Rightarrow> 'a libtrace_list option" where
  "libtrace_list_init malloc_ok element_size =
     (if \<not> malloc_ok then None
      else Some \<lparr>q_head = None, q_tail = None, q_size = 0, q_element_size = element_size,
                 q_nodes = Map.empty, q_fresh = 0\<rparr>)"

text \<open>
  Destroying a list frees its nodes one after the other. The result is what is left of the
  nodes; the bound on the number of iterations is as in \<open>apply_loop\<close>.
\<close>

fun deinit_loop :: "nat \<Rightarrow> 'a nodes \<Rightarrow> addr option \<Rightarrow> 'a nodes option res" where
  "deinit_loop fuel nodes None = Inr (Some nodes)"
| "deinit_loop 0 nodes (Some tmp) = Inr None"
| "deinit_loop (Suc fuel) nodes (Some tmp) =
     bindr (deref nodes (Some tmp)) (\<lambda>n. deinit_loop fuel (nodes(tmp := None)) (n_next n))"

definition libtrace_list_deinit :: "nat \<Rightarrow> 'a libtrace_list option \<Rightarrow> 'a nodes option res" where
  "libtrace_list_deinit fuel l =
     (case l of None \<Rightarrow> Inr (Some Map.empty)
      | Some l \<Rightarrow> deinit_loop fuel (q_nodes l) (q_head l))"

definition libtrace_list_push_front ::
  "'a libtrace_list option \<Rightarrow> 'a option \<Rightarrow> 'a libtrace_list option res" where
  "libtrace_list_push_front lp item =
     (case (lp, item) of
        (Some l, Some d) \<Rightarrow>
          (let new = q_fresh l in
           if q_head l = None
           then assertr (q_tail l = None \<and> q_size l = 0)
             (Inr (Some (l\<lparr>q_nodes := (q_nodes l)(new \<mapsto> \<lparr>n_next = None, n_prev = None, n_data = d\<rparr>),
                           q_fresh := Suc new, q_head := Some new, q_tail := Some new,
                           q_size := Suc (q_size l)\<rparr>)))
           else
             (bindr (set_prev ((q_nodes l)(new \<mapsto> \<lparr>n_next = q_head l, n_prev = None, n_data = d\<rparr>))
                       (q_head l) (Some new)) (\<lambda>nodes.
              Inr (Some (l\<lparr>q_nodes := nodes, q_fresh := Suc new, q_head := Some new,
                           q_size := Suc (q_size l)\<rparr>)))))
      | _ \<Rightarrow> Inr lp)"

definition libtrace_list_push_back ::
  "'a libtrace_list option \<Rightarrow> 'a option \<Rightarrow> 'a libtrace_list option res" where
  "libtrace_list_push_back lp item =
     (case (lp, item) of
        (Some l, Some d) \<Rightarrow>
          (let new = q_fresh l in
           if q_tail l = None
           then assertr (q_head l = None \<and> q_size l = 0)
             (Inr (Some (l\<lparr>q_nodes := (q_nodes l)(new \<mapsto> \<lparr>n_next = None, n_prev = None, n_data = d\<rparr>),
                           q_fresh := Suc new, q_head := Some new, q_tail := Some new,
                           q_size := Suc (q_size l)\<rparr>)))
           else
             (bindr (set_next ((q_nodes l)(new \<mapsto> \<lparr>n_next = None, n_prev = q_tail l, n_data = d\<rparr>))
                       (q_tail l) (Some new)) (\<lambda>nodes.
              Inr (Some (l\<lparr>q_nodes := nodes, q_fresh := Suc new, q_tail := Some new,
                           q_size := Suc (q_size l)\<rparr>)))))
      | _ \<Rightarrow> Inr lp)"

text \<open>
  Popping returns -1 for a null argument, 0 for an empty list and 1 with the item otherwise.
  \<open>item\<close> tells whether the caller passed a place for the item.
\<close>

definition libtrace_list_pop_front ::
  "'a libtrace_list option \<Rightarrow> bool \<Rightarrow> (int \<times> 'a option \<times> 'a libtrace_list option) res" where
  "libtrace_list_pop_front lp item =
     (case lp of
        None \<Rightarrow> Inr (-1, None, lp)
      | Some l \<Rightarrow>
          if \<not> item then Inr (-1, None, lp)
          else if q_head l = None then Inr (0, None, lp)
          else bindr (deref (q_nodes l) (q_head l)) (\<lambda>n.
            let head = n_next n in
            bindr (if head \<noteq> None then set_prev (q_nodes l) head None else Inr (q_nodes l)) (\<lambda>nodes.
            let size' = q_size l - 1 in
            Inr (1, Some (n_data n),
                 Some (l\<lparr>q_head := head, q_size := size',
                         q_tail := (if size' \<le> 1 then head else q_tail l),
                         q_nodes := nodes(the (q_head l) := None)\<rparr>)))))"

definition libtrace_list_pop_back ::
  "'a libtrace_list option \<Rightarrow> bool \<Rightarrow> (int \<times> 'a option \<times> 'a libtrace_list option) res" where
  "libtrace_list_pop_back lp item =
     (case lp of
        None \<Rightarrow> Inr (-1, None, lp)
      | Some l \<Rightarrow>
          if \<not> item then Inr (-1, None, lp)
          else if q_tail l = None then Inr (0, None, lp)
          else bindr (deref (q_nodes l) (q_tail l)) (\<lambda>n.
            let tail = n_prev n in
            bindr (if tail \<noteq> None then set_next (q_nodes l) tail None else Inr (q_nodes l)) (\<lambda>nodes.
            let size' = q_size l - 1 in
            Inr (1, Some (n_data n),
                 Some (l\<lparr>q_tail := tail, q_size := size',
                         q_head := (if size' \<le> 1 then tail else q_head l),
                         q_nodes := nodes(the (q_tail l) := None)\<rparr>)))))"

text \<open>The loop \<open>while (index--)\<close> follows \<open>index\<close> links and asserts that none is null.\<close>

fun get_index_loop :: "'a nodes \<Rightarrow> addr option \<Rightarrow> nat \<Rightarrow> addr option res" where
  "get_index_loop nodes ret 0 = Inr ret"
| "get_index_loop nodes ret (Suc index) =
     bindr (deref nodes ret) (\<lambda>n.
       assertr (n_next n \<noteq> None) (get_index_loop nodes (n_next n) index))"

definition libtrace_list_get_index :: "'a libtrace_list \<Rightarrow> nat \<Rightarrow> addr option res" where
  "libtrace_list_get_index l index =
     (if q_size l \<le> index then Inr None
      else get_index_loop (q_nodes l) (q_head l) index)"

definition libtrace_list_get_size :: "'a libtrace_list option \<Rightarrow> nat" where
  "libtrace_list_get_size lp = (case lp of None \<Rightarrow> 0 | Some l \<Rightarrow> q_size l)"

section \<open>The list is a deque\<close>

text \<open>On a well-formed list the operations do what those of the deque do.\<close>

lemma dq_inv_ends: "dq_inv l \<Longrightarrow> q_head l = None \<longleftrightarrow> q_tail l = None"
  by (auto simp: dq_inv_def dq_rep_def first_or_def last_or_def neq_Nil_conv split: list.splits if_splits)

lemma list_push_back_eq:
  assumes "dq_inv l"
  shows "libtrace_list_push_back (Some l) (Some x) = bindr (libtrace_deque_push_back l x) (\<lambda>l'. Inr (Some l'))"
  using dq_inv_ends [OF assms]
  by (auto simp: libtrace_list_push_back_def libtrace_deque_push_back_def Let_def assertr_def bindr_def
      split: sum.splits)

lemma list_push_front_eq:
  "libtrace_list_push_front (Some l) (Some x) = bindr (libtrace_deque_push_front l x) (\<lambda>l'. Inr (Some l'))"
  by (auto simp: libtrace_list_push_front_def libtrace_deque_push_front_def Let_def assertr_def bindr_def
      split: sum.splits)

lemma list_pop_front_eq:
  "libtrace_list_pop_front (Some l) True =
     bindr (libtrace_deque_pop_front l) (\<lambda>(v, l'). Inr (if v = None then 0 else 1, v, Some l'))"
  by (auto simp: libtrace_list_pop_front_def libtrace_deque_pop_front_def Let_def bindr_def
      split: sum.splits)

lemma list_pop_back_eq:
  "libtrace_list_pop_back (Some l) True =
     bindr (libtrace_deque_pop_tail l) (\<lambda>(v, l'). Inr (if v = None then 0 else 1, v, Some l'))"
  by (auto simp: libtrace_list_pop_back_def libtrace_deque_pop_tail_def Let_def bindr_def
      split: sum.splits)

definition list_inv :: "'a libtrace_list option \<Rightarrow> bool" where
  "list_inv lp \<longleftrightarrow> (\<exists>l. lp = Some l \<and> dq_inv l)"

definition list_contents :: "'a libtrace_list option \<Rightarrow> 'a list" where
  "list_contents lp = (case lp of None \<Rightarrow> [] | Some l \<Rightarrow> dq_contents l)"

definition list_pop :: "(int \<times> 'a option \<times> 'l) res \<Rightarrow> ('a option \<times> 'l) res" where
  "list_pop r = bindr r (\<lambda>(_, v, l). Inr (v, l))"

interpretation ll: deque_impl list_inv list_contents
  "\<lambda>l x. libtrace_list_push_back l (Some x)" "\<lambda>l x. libtrace_list_push_front l (Some x)"
  "\<lambda>l. list_pop (libtrace_list_pop_front l True)" "\<lambda>l. list_pop (libtrace_list_pop_back l True)"
  libtrace_list_get_size
proof (unfold_locales, goal_cases)
  case (1 q x) then show ?case
    using dq.push_back by (force simp: list_inv_def list_contents_def list_push_back_eq)
next
  case (2 q x) then show ?case
    using dq.push_front by (force simp: list_inv_def list_contents_def list_push_front_eq)
next
  case (3 q) then show ?case
    using dq.pop_front_empty
    by (force simp: list_inv_def list_contents_def list_pop_front_eq list_pop_def)
next
  case (4 q x xs) then show ?case
    using dq.pop_front
    by (force simp: list_inv_def list_contents_def list_pop_front_eq list_pop_def)
next
  case (5 q) then show ?case
    using dq.pop_back_empty
    by (force simp: list_inv_def list_contents_def list_pop_back_eq list_pop_def)
next
  case (6 q xs x) then show ?case
    using dq.pop_back
    by (force simp: list_inv_def list_contents_def list_pop_back_eq list_pop_def)
next
  case (7 q) then show ?case
    using dq.get_size
    by (force simp: list_inv_def list_contents_def libtrace_list_get_size_def libtrace_deque_get_size_def)
qed

section \<open>Indexing and destruction\<close>

lemma get_index_loop_seg:
  assumes "seg c pv as xs None" "i < length xs"
  shows "get_index_loop c (first_or as None) i = Inr (Some (as ! i)) \<and>
    (\<exists>n. c (as ! i) = Some n \<and> n_data n = xs ! i)"
  using assms
proof (induction as arbitrary: pv xs i)
  case Nil
  then show ?case by (cases xs) auto
next
  case (Cons a as)
  then obtain x ys where xs: "xs = x # ys" by (cases xs) auto
  show ?case
  proof (cases i)
    case 0
    then show ?thesis using Cons.prems by (simp add: xs)
  next
    case (Suc j)
    then have "as \<noteq> []" using Cons.prems seg_length [of c "Some a" as ys None] by (auto simp: xs)
    then show ?thesis
      using Cons.IH [of "Some a" ys j] Cons.prems Suc
      by (auto simp: xs deref_def first_or_def split: list.splits)
  qed
qed

lemma deinit_loop_seg:
  assumes "seg c pv as xs None" "distinct as" "length xs \<le> fuel"
  shows "deinit_loop fuel c (first_or as None) = Inr (Some (\<lambda>a. if a \<in> set as then None else c a))"
  using assms
proof (induction as arbitrary: c pv xs fuel)
  case Nil
  then show ?case by (cases xs) auto
next
  case (Cons a as)
  then obtain x ys where xs: "xs = x # ys" by (cases xs) auto
  obtain n where fuel: "fuel = Suc n" using Cons.prems(3) xs by (cases fuel) auto
  have "seg (c(a := None)) (Some a) as ys None" using Cons.prems by (simp add: xs)
  then have "deinit_loop n (c(a := None)) (first_or as None) =
      Inr (Some (\<lambda>b. if b \<in> set as then None else (c(a := None)) b))"
    by (rule Cons.IH) (use Cons.prems(2,3) in \<open>simp_all add: xs fuel\<close>)
  then show ?case using Cons.prems(1) by (auto simp: xs fuel deref_def fun_eq_iff)
qed


lemma get_index_rep:
  assumes "dq_rep l as xs"
  shows "libtrace_list_get_index l i = Inr (if i < length xs then Some (as ! i) else None) \<and>
    (i < length xs \<longrightarrow> map_option n_data (q_nodes l (as ! i)) = Some (xs ! i))"
proof (cases "i < length xs")
  case True
  have "seg (q_nodes l) None as xs None" using assms by (simp add: dq_rep_def)
  from get_index_loop_seg [OF this True] True assms show ?thesis
    by (auto simp: libtrace_list_get_index_def dq_rep_def)
next
  case False
  then show ?thesis using assms by (simp add: libtrace_list_get_index_def dq_rep_def)
qed

lemma deinit_rep:
  assumes "dq_rep l as xs"
  shows "libtrace_list_deinit (length xs) (Some l) = Inr (Some Map.empty)"
proof -
  have s: "seg (q_nodes l) None as xs None" "distinct as" and d: "dom (q_nodes l) = set as"
    using assms by (simp_all add: dq_rep_def)
  have "(\<lambda>a. if a \<in> set as then None else q_nodes l a) = Map.empty"
    using d by (auto simp: fun_eq_iff dom_def)
  then show ?thesis
    using deinit_loop_seg [OF s order_refl] assms by (simp add: libtrace_list_deinit_def dq_rep_def)
qed

lemma list_init_inv:
  "list_inv (libtrace_list_init True n)" "list_contents (libtrace_list_init True n) = []"
  by (auto simp: list_inv_def list_contents_def libtrace_list_init_def dq_inv_def dq_rep_def
      dq_contents_def intro!: exI [of _ "[]"])

section \<open>Properties\<close>

text \<open>
  The linked list implements a list, with its return codes. On a well-formed list and
  with non-null arguments a push adds the item at its end; a pop returns 1 and the item at its
  end, which it removes, or 0 when there is none. With a null argument a push does nothing and
  a pop returns -1. \<open>get_size\<close> is the length, 0 for a null list. No pointer that is null
  or freed is followed.
\<close>

theorem linked_list_refines_list:
  assumes "dq_inv l" and "dq_contents l = xs"
  shows "(\<exists>l'. libtrace_list_push_back (Some l) (Some x) = Inr (Some l') \<and> dq_inv l' \<and>
       dq_contents l' = xs @ [x]) \<and>
    (\<exists>l'. libtrace_list_push_front (Some l) (Some x) = Inr (Some l') \<and> dq_inv l' \<and>
       dq_contents l' = x # xs) \<and>
    (\<exists>l'. libtrace_list_pop_front (Some l) True =
         Inr (if xs = [] then (0, None, Some l') else (1, Some (hd xs), Some l')) \<and>
       dq_inv l' \<and> dq_contents l' = tl xs) \<and>
    (\<exists>l'. libtrace_list_pop_back (Some l) True =
         Inr (if xs = [] then (0, None, Some l') else (1, Some (last xs), Some l')) \<and>
       dq_inv l' \<and> dq_contents l' = butlast xs) \<and>
    libtrace_list_get_size (Some l) = length xs \<and>
    libtrace_list_get_size (None :: 'a libtrace_list option) = 0 \<and>
    libtrace_list_push_back (Some l) None = Inr (Some l) \<and>
    libtrace_list_push_front (Some l) None = Inr (Some l) \<and>
    libtrace_list_push_back None (Some x) = Inr None \<and>
    libtrace_list_push_front None (Some x) = Inr None \<and>
    libtrace_list_pop_front (Some l) False = Inr (-1, None, Some l) \<and>
    libtrace_list_pop_back (Some l) False = Inr (-1, None, Some l) \<and>
    libtrace_list_pop_front (None :: 'a libtrace_list option) b = Inr (-1, None, None) \<and>
    libtrace_list_pop_back (None :: 'a libtrace_list option) b = Inr (-1, None, None)"
proof (intro conjI)
  show "\<exists>l'. libtrace_list_push_back (Some l) (Some x) = Inr (Some l') \<and> dq_inv l' \<and>
       dq_contents l' = xs @ [x]"
    using dq.push_back [OF assms(1), of x] assms by (auto simp: list_push_back_eq)
  show "\<exists>l'. libtrace_list_push_front (Some l) (Some x) = Inr (Some l') \<and> dq_inv l' \<and>
       dq_contents l' = x # xs"
    using dq.push_front [OF assms(1), of x] assms by (auto simp: list_push_front_eq)
  show "\<exists>l'. libtrace_list_pop_front (Some l) True =
         Inr (if xs = [] then (0, None, Some l') else (1, Some (hd xs), Some l')) \<and>
       dq_inv l' \<and> dq_contents l' = tl xs"
    using dq.pop_front [OF assms(1)] dq.pop_front_empty [OF assms(1)] assms
    by (cases xs) (auto simp: list_pop_front_eq)
  show "\<exists>l'. libtrace_list_pop_back (Some l) True =
         Inr (if xs = [] then (0, None, Some l') else (1, Some (last xs), Some l')) \<and>
       dq_inv l' \<and> dq_contents l' = butlast xs"
    using dq.pop_back [OF assms(1)] dq.pop_back_empty [OF assms(1)] assms
    by (cases xs rule: rev_cases) (auto simp: list_pop_back_eq)
  show "libtrace_list_get_size (Some l) = length xs"
    using dq.get_size [OF assms(1)] assms(2)
    by (simp add: libtrace_list_get_size_def libtrace_deque_get_size_def)
qed (simp_all add: libtrace_list_get_size_def libtrace_list_push_back_def
    libtrace_list_push_front_def libtrace_list_pop_front_def libtrace_list_pop_back_def)

theorem linked_list_refines_list_witness:
  "\<exists>l'. libtrace_list_push_front (Some (libtrace_deque_init 4)) (Some (7::nat)) = Inr (Some l') \<and>
     dq_contents l' = [7]"
  using linked_list_refines_list [OF dq_inv_init(1) dq_inv_init(2), of 4 "7::nat"] by auto

text \<open>
  A list built by pushing \<open>xs\<close> at the back of a fresh list has \<open>xs\<close> in its nodes in
  order: \<open>get_index\<close> finds the node that holds the \<open>i\<close>-th item for every valid index and
  returns null for every other one, never tripping its assertion; destroying the list visits
  every node once and frees all of them.
\<close>

theorem linked_list_index_deinit:
  "\<exists>l. push_all (\<lambda>l x. libtrace_list_push_back l (Some x)) (libtrace_list_init True n) xs = Inr (Some l) \<and>
    (\<forall>i. if i < length xs
         then \<exists>a node. libtrace_list_get_index l i = Inr (Some a) \<and> q_nodes l a = Some node \<and>
                n_data node = xs ! i
         else libtrace_list_get_index l i = Inr None) \<and>
    libtrace_list_deinit (length xs) (Some l) = Inr (Some Map.empty)"
proof -
  obtain lp where lp: "push_all (\<lambda>l x. libtrace_list_push_back l (Some x)) (libtrace_list_init True n) xs = Inr lp"
    "list_inv lp" "list_contents lp = xs"
    using ll.push_all_back [OF list_init_inv(1)] list_init_inv(2) by (metis append_Nil)
  then obtain l where l: "lp = Some l" "dq_inv l" "dq_contents l = xs"
    by (auto simp: list_inv_def list_contents_def)
  then obtain as where rep: "dq_rep l as xs" using dq_invE by metis
  show ?thesis
    using lp(1) l(1) get_index_rep [OF rep] deinit_rep [OF rep] by (auto split: option.splits)
qed

end
