(* ===== verification/Message_Queue.thy ===== *)
theory Message_Queue
  imports Interfaces
begin

text \<open>
  The message queue of \<open>lib/data-struct/message_queue.c\<close>: a pipe that carries the messages
  and a counter kept beside it under a spin lock. A message of at most \<open>PIPE_BUF\<close> bytes is
  written and read atomically, so the pipe is a list of messages; \<open>cap\<close> is the number of
  messages that fit in it. The first part has the operations as one thread runs them alone,
  the second the interleaving of any number of threads.
\<close>

section \<open>The operations\<close>

record 'm libtrace_message_queue =
  mq_pipe :: "'m list"
  mq_open :: bool
  mq_message_count :: int
  mq_message_len :: nat

definition LIBTRACE_MQ_FAILED :: int where
  "LIBTRACE_MQ_FAILED = - (2 ^ 31)"

definition libtrace_message_queue_init :: "bool \<Rightarrow> nat \<Rightarrow> 'm libtrace_message_queue res" where
  "libtrace_message_queue_init pipe_ok message_len =
     assertr (message_len \<noteq> 0) (assertr pipe_ok
       (Inr \<lparr>mq_pipe = [], mq_open = True, mq_message_count = 0, mq_message_len = message_len\<rparr>))"

text \<open>
  A write to a full pipe and a read from an empty one block; alone, the thread then waits for
  ever, which is the result \<open>None\<close>.
\<close>

definition pipe_write :: "nat \<Rightarrow> 'm libtrace_message_queue \<Rightarrow> 'm \<Rightarrow> 'm libtrace_message_queue option res" where
  "pipe_write cap mq m =
     assertr (mq_open mq)
       (Inr (if length (mq_pipe mq) < cap then Some (mq\<lparr>mq_pipe := mq_pipe mq @ [m]\<rparr>) else None))"

definition pipe_read :: "'m libtrace_message_queue \<Rightarrow> ('m \<times> 'm libtrace_message_queue) option res" where
  "pipe_read mq =
     assertr (mq_open mq)
       (Inr (case mq_pipe mq of [] \<Rightarrow> None | m # ms \<Rightarrow> Some (m, mq\<lparr>mq_pipe := ms\<rparr>)))"

definition libtrace_message_queue_put ::
  "nat \<Rightarrow> 'm libtrace_message_queue \<Rightarrow> 'm \<Rightarrow> (int \<times> 'm libtrace_message_queue) option res" where
  "libtrace_message_queue_put cap mq message =
     assertr (mq_message_len mq \<noteq> 0)
      (bindr (pipe_write cap mq message) (\<lambda>r.
       Inr (map_option (\<lambda>mq'.
         let count = mq_message_count mq' + 1 in (count, mq'\<lparr>mq_message_count := count\<rparr>)) r)))"

definition libtrace_message_queue_get ::
  "'m libtrace_message_queue \<Rightarrow> (int \<times> 'm \<times> 'm libtrace_message_queue) option res" where
  "libtrace_message_queue_get mq =
     (let ret = mq_message_count mq in
      bindr (pipe_read (mq\<lparr>mq_message_count := mq_message_count mq - 1\<rparr>)) (\<lambda>r.
      Inr (map_option (\<lambda>(m, mq'). (ret, m, mq')) r)))"

definition libtrace_message_queue_try_get ::
  "'m libtrace_message_queue \<Rightarrow> (int \<times> 'm option \<times> 'm libtrace_message_queue) option res" where
  "libtrace_message_queue_try_get mq =
     (if mq_message_count mq \<le> 0 then Inr (Some (LIBTRACE_MQ_FAILED, None, mq))
      else if mq_message_count mq > 0
      then (let ret = mq_message_count mq - 1 in
            bindr (pipe_read (mq\<lparr>mq_message_count := ret\<rparr>)) (\<lambda>r.
            Inr (map_option (\<lambda>(m, mq'). (ret, Some m, mq')) r)))
      else Inr (Some (LIBTRACE_MQ_FAILED, None, mq)))"

definition libtrace_message_queue_count :: "'m libtrace_message_queue \<Rightarrow> int" where
  "libtrace_message_queue_count mq = mq_message_count mq"

definition libtrace_message_queue_destroy :: "'m libtrace_message_queue \<Rightarrow> 'm libtrace_message_queue" where
  "libtrace_message_queue_destroy mq = mq\<lparr>mq_message_count := 0, mq_message_len := 0, mq_open := False\<rparr>"

section \<open>Threads\<close>

text \<open>
  Where a thread stands: outside the queue; in \<open>put\<close> before its write, or between the write
  and the increment; in \<open>get\<close> between the decrement and the read; in \<open>try_get\<close> after the
  first test, or inside the spin lock between the decrement and the read. The other critical
  sections contain nothing that blocks and are single steps, which wait for the lock.
\<close>

datatype 'm mpc = Idle | PutWrite 'm | PutCount | GetRead | TryLock | TryRead

record 'm mq_sys =
  ms_queue :: "'m libtrace_message_queue"
  ms_pc :: "nat \<Rightarrow> 'm mpc"
  ms_spin :: "nat option"
  ms_sent :: "'m list"
  ms_got :: "'m list"

definition mq_sys_init :: "nat \<Rightarrow> 'm mq_sys" where
  "mq_sys_init len =
     \<lparr>ms_queue = \<lparr>mq_pipe = [], mq_open = True, mq_message_count = 0, mq_message_len = len\<rparr>,
      ms_pc = (\<lambda>_. Idle), ms_spin = None, ms_sent = [], ms_got = []\<rparr>"

abbreviation count_of :: "'m mq_sys \<Rightarrow> int" where
  "count_of s \<equiv> mq_message_count (ms_queue s)"

abbreviation pipe_of :: "'m mq_sys \<Rightarrow> 'm list" where
  "pipe_of s \<equiv> mq_pipe (ms_queue s)"

definition set_count :: "int \<Rightarrow> 'm mq_sys \<Rightarrow> 'm mq_sys" where
  "set_count c s = s\<lparr>ms_queue := (ms_queue s)\<lparr>mq_message_count := c\<rparr>\<rparr>"

definition set_pipe :: "'m list \<Rightarrow> 'm mq_sys \<Rightarrow> 'm mq_sys" where
  "set_pipe ms s = s\<lparr>ms_queue := (ms_queue s)\<lparr>mq_pipe := ms\<rparr>\<rparr>"

definition goto :: "nat \<Rightarrow> 'm mpc \<Rightarrow> 'm mq_sys \<Rightarrow> 'm mq_sys" where
  "goto t pc s = s\<lparr>ms_pc := (ms_pc s)(t := pc)\<rparr>"

inductive mq_step :: "nat \<Rightarrow> nat \<Rightarrow> 'm mq_sys \<Rightarrow> 'm mq_sys \<Rightarrow> bool" for n cap where
  put_call: "t < n \<Longrightarrow> ms_pc s t = Idle \<Longrightarrow> mq_step n cap s (goto t (PutWrite m) s)"
| put_write: "t < n \<Longrightarrow> ms_pc s t = PutWrite m \<Longrightarrow> length (pipe_of s) < cap \<Longrightarrow>
    mq_step n cap s (goto t PutCount (set_pipe (pipe_of s @ [m]) (s\<lparr>ms_sent := ms_sent s @ [m]\<rparr>)))"
| put_count: "t < n \<Longrightarrow> ms_pc s t = PutCount \<Longrightarrow> ms_spin s = None \<Longrightarrow>
    mq_step n cap s (goto t Idle (set_count (count_of s + 1) s))"
| get_count: "t < n \<Longrightarrow> ms_pc s t = Idle \<Longrightarrow> ms_spin s = None \<Longrightarrow>
    mq_step n cap s (goto t GetRead (set_count (count_of s - 1) s))"
| get_read: "t < n \<Longrightarrow> ms_pc s t = GetRead \<Longrightarrow> pipe_of s = m # ms \<Longrightarrow>
    mq_step n cap s (goto t Idle (set_pipe ms (s\<lparr>ms_got := ms_got s @ [m]\<rparr>)))"
| try_early: "t < n \<Longrightarrow> ms_pc s t = Idle \<Longrightarrow> 0 < count_of s \<Longrightarrow> mq_step n cap s (goto t TryLock s)"
| try_fail: "t < n \<Longrightarrow> ms_pc s t = TryLock \<Longrightarrow> ms_spin s = None \<Longrightarrow> count_of s \<le> 0 \<Longrightarrow>
    mq_step n cap s (goto t Idle s)"
| try_lock: "t < n \<Longrightarrow> ms_pc s t = TryLock \<Longrightarrow> ms_spin s = None \<Longrightarrow> 0 < count_of s \<Longrightarrow>
    mq_step n cap s (goto t TryRead (set_count (count_of s - 1) (s\<lparr>ms_spin := Some t\<rparr>)))"
| try_read: "t < n \<Longrightarrow> ms_pc s t = TryRead \<Longrightarrow> pipe_of s = m # ms \<Longrightarrow>
    mq_step n cap s
      (goto t Idle (set_pipe ms (s\<lparr>ms_got := ms_got s @ [m], ms_spin := None\<rparr>)))"

inductive mq_reachable :: "nat \<Rightarrow> nat \<Rightarrow> 'm mq_sys \<Rightarrow> bool" for n cap where
  start: "mq_reachable n cap (mq_sys_init len)"
| step: "mq_reachable n cap s \<Longrightarrow> mq_step n cap s s' \<Longrightarrow> mq_reachable n cap s'"

section \<open>The invariant\<close>

text \<open>
  A thread owes the counter one between its write and its increment, and has taken one off it
  between its decrement and its read.
\<close>

fun in_flight :: "'m mpc \<Rightarrow> nat" where
  "in_flight PutCount = 1"
| "in_flight GetRead = 1"
| "in_flight TryRead = 1"
| "in_flight _ = 0"

definition mq_in_flight :: "nat \<Rightarrow> (nat \<Rightarrow> 'm mpc) \<Rightarrow> nat" where
  "mq_in_flight n pc = (\<Sum>t<n. in_flight (pc t))"

definition mq_sys_inv :: "nat \<Rightarrow> nat \<Rightarrow> 'm mq_sys \<Rightarrow> bool" where
  "mq_sys_inv n cap s \<longleftrightarrow>
     ms_sent s = ms_got s @ pipe_of s \<and> length (pipe_of s) \<le> cap \<and>
     count_of s = int (length (pipe_of s)) - int (mq_in_flight n (ms_pc s)) \<and>
     (\<forall>t. ms_spin s = Some t \<longleftrightarrow> ms_pc s t = TryRead) \<and>
     (ms_spin s \<noteq> None \<longrightarrow> 0 \<le> count_of s) \<and> (\<forall>t \<ge> n. ms_pc s t = Idle)"

lemma in_flight_update:
  assumes "t < n"
  shows "mq_in_flight n (f(t := pc)) + in_flight (f t) = mq_in_flight n f + in_flight pc"
proof -
  have "mq_in_flight n (f(t := pc)) =
      in_flight pc + (\<Sum>u \<in> {..<n} - {t}. in_flight ((f(t := pc)) u))"
    unfolding mq_in_flight_def using assms by (subst sum.remove [of _ t]) auto
  also have "(\<Sum>u \<in> {..<n} - {t}. in_flight ((f(t := pc)) u)) = (\<Sum>u \<in> {..<n} - {t}. in_flight (f u))"
    by (rule sum.cong) auto
  finally show ?thesis using assms by (simp add: mq_in_flight_def sum.remove [of "{..<n}" t])
qed

lemmas sys_updates = goto_def set_count_def set_pipe_def

lemma mq_step_inv:
  assumes "mq_step n cap s s'" "mq_sys_inv n cap s"
  shows "mq_sys_inv n cap s'"
  using assms
proof (induction rule: mq_step.induct)
  case (put_call t s m)
  then show ?case using in_flight_update [of t n "ms_pc s" "PutWrite m"]
    by (auto simp: mq_sys_inv_def sys_updates)
next
  case (put_write t s m)
  then show ?case using in_flight_update [of t n "ms_pc s" PutCount]
    by (auto simp: mq_sys_inv_def sys_updates)
next
  case (put_count t s)
  then show ?case using in_flight_update [of t n "ms_pc s" Idle]
    by (auto simp: mq_sys_inv_def sys_updates)
next
  case (get_count t s)
  then show ?case using in_flight_update [of t n "ms_pc s" GetRead]
    by (auto simp: mq_sys_inv_def sys_updates)
next
  case (get_read t s m ms)
  then show ?case using in_flight_update [of t n "ms_pc s" Idle]
    by (auto simp: mq_sys_inv_def sys_updates)
next
  case (try_early t s)
  then show ?case using in_flight_update [of t n "ms_pc s" TryLock]
    by (auto simp: mq_sys_inv_def sys_updates)
next
  case (try_fail t s)
  then show ?case using in_flight_update [of t n "ms_pc s" Idle]
    by (auto simp: mq_sys_inv_def sys_updates)
next
  case (try_lock t s)
  then show ?case using in_flight_update [of t n "ms_pc s" TryRead]
    by (auto simp: mq_sys_inv_def sys_updates)
next
  case (try_read t s m ms)
  then have spin: "ms_spin s = Some t" by (simp add: mq_sys_inv_def)
  have "((ms_pc s)(t := Idle)) u \<noteq> TryRead" for u
    using try_read.prems spin unfolding mq_sys_inv_def by (metis fun_upd_apply mpc.distinct(9) option.inject)
  then show ?case
    using try_read in_flight_update [of t n "ms_pc s" Idle]
    by (simp add: mq_sys_inv_def sys_updates)
qed

lemma mq_reachable_inv: "mq_reachable n cap s \<Longrightarrow> mq_sys_inv n cap s"
proof (induction rule: mq_reachable.induct)
  case (start len)
  then show ?case by (simp add: mq_sys_inv_def mq_sys_init_def mq_in_flight_def)
qed (rule mq_step_inv)


text \<open>A queue that no thread is using, and the calls that one thread makes on it.\<close>

definition mq_inv :: "nat \<Rightarrow> 'm libtrace_message_queue \<Rightarrow> bool" where
  "mq_inv cap mq \<longleftrightarrow> mq_open mq \<and> mq_message_len mq \<noteq> 0 \<and> length (mq_pipe mq) \<le> cap \<and>
     mq_message_count mq = int (length (mq_pipe mq))"

lemma steps_trans:
  "mq_step n cap s1 s2 \<Longrightarrow> mq_step n cap s2 s3 \<Longrightarrow> (mq_step n cap)\<^sup>*\<^sup>* s1 s3"
  by (meson converse_rtranclp_into_rtranclp r_into_rtranclp)

lemma mq_reachable_steps:
  assumes "(mq_step n cap)\<^sup>*\<^sup>* s s'" "mq_reachable n cap s"
  shows "mq_reachable n cap s'"
  using assms(1)
proof (induction rule: rtranclp_induct)
  case (step s2 s3)
  show ?case by (rule mq_reachable.step [OF step.IH step.hyps(2)])
qed (rule assms(2))

lemma put_steps:
  assumes "t < n" "ms_pc s t = Idle" "ms_spin s = None"
    and "libtrace_message_queue_put cap (ms_queue s) m = Inr (Some (r, q'))"
  shows "(mq_step n cap)\<^sup>*\<^sup>* s (s\<lparr>ms_queue := q', ms_sent := ms_sent s @ [m]\<rparr>)"
proof -
  let ?s1 = "goto t (PutWrite m) s"
  let ?s2 = "goto t PutCount (set_pipe (pipe_of ?s1 @ [m]) (?s1\<lparr>ms_sent := ms_sent ?s1 @ [m]\<rparr>))"
  let ?s3 = "goto t Idle (set_count (count_of ?s2 + 1) ?s2)"
  have room: "length (pipe_of s) < cap"
    and q': "q' = (ms_queue s)\<lparr>mq_pipe := pipe_of s @ [m], mq_message_count := count_of s + 1\<rparr>"
    using assms(4)
    by (auto simp: libtrace_message_queue_put_def pipe_write_def Let_def split: if_splits)
  have "(ms_pc s)(t := Idle) = ms_pc s" using assms(2) by auto
  then have s3: "?s3 = s\<lparr>ms_queue := q', ms_sent := ms_sent s @ [m]\<rparr>"
    using q' by (simp add: sys_updates)
  have "mq_step n cap s ?s1" using assms by (intro mq_step.put_call) auto
  moreover have "mq_step n cap ?s1 ?s2" using assms room by (intro mq_step.put_write) (auto simp: sys_updates)
  moreover have "mq_step n cap ?s2 ?s3" using assms by (intro mq_step.put_count) (auto simp: sys_updates)
  ultimately show ?thesis unfolding s3 [symmetric] by (meson converse_rtranclp_into_rtranclp steps_trans)
qed

lemma get_steps:
  assumes "t < n" "ms_pc s t = Idle" "ms_spin s = None"
    and "libtrace_message_queue_get (ms_queue s) = Inr (Some (r, m, q'))"
  shows "(mq_step n cap)\<^sup>*\<^sup>* s (s\<lparr>ms_queue := q', ms_got := ms_got s @ [m]\<rparr>)"
proof -
  let ?s1 = "goto t GetRead (set_count (count_of s - 1) s)"
  obtain ms where ms: "pipe_of s = m # ms"
    and q': "q' = (ms_queue s)\<lparr>mq_pipe := ms, mq_message_count := count_of s - 1\<rparr>"
    using assms(4) by (auto simp: libtrace_message_queue_get_def pipe_read_def split: list.splits)
  let ?s2 = "goto t Idle (set_pipe ms (?s1\<lparr>ms_got := ms_got ?s1 @ [m]\<rparr>))"
  have "(ms_pc s)(t := Idle) = ms_pc s" using assms(2) by auto
  then have s2: "?s2 = s\<lparr>ms_queue := q', ms_got := ms_got s @ [m]\<rparr>"
    using q' by (simp add: sys_updates)
  have "mq_step n cap s ?s1" using assms by (intro mq_step.get_count) auto
  moreover have "mq_step n cap ?s1 ?s2" using assms ms by (intro mq_step.get_read) (auto simp: sys_updates)
  ultimately show ?thesis unfolding s2 [symmetric] by (rule steps_trans)
qed

lemma try_get_steps:
  assumes "t < n" "ms_pc s t = Idle" "ms_spin s = None"
    and "libtrace_message_queue_try_get (ms_queue s) = Inr (Some (r, Some m, q'))"
  shows "(mq_step n cap)\<^sup>*\<^sup>* s (s\<lparr>ms_queue := q', ms_got := ms_got s @ [m]\<rparr>)"
proof -
  obtain ms where ms: "pipe_of s = m # ms" "0 < count_of s"
    and q': "q' = (ms_queue s)\<lparr>mq_pipe := ms, mq_message_count := count_of s - 1\<rparr>"
    using assms(4)
    by (auto simp: libtrace_message_queue_try_get_def pipe_read_def Let_def split: list.splits if_splits)
  let ?s1 = "goto t TryLock s"
  let ?s2 = "goto t TryRead (set_count (count_of ?s1 - 1) (?s1\<lparr>ms_spin := Some t\<rparr>))"
  let ?s3 = "goto t Idle (set_pipe ms (?s2\<lparr>ms_got := ms_got ?s2 @ [m], ms_spin := None\<rparr>))"
  have "(ms_pc s)(t := Idle) = ms_pc s" using assms(2) by auto
  then have s3: "?s3 = s\<lparr>ms_queue := q', ms_got := ms_got s @ [m]\<rparr>"
    using q' assms(3) by (simp add: sys_updates)
  have "mq_step n cap s ?s1" using assms ms by (intro mq_step.try_early) auto
  moreover have "mq_step n cap ?s1 ?s2" using assms ms by (intro mq_step.try_lock) (auto simp: sys_updates)
  moreover have "mq_step n cap ?s2 ?s3" using assms ms by (intro mq_step.try_read) (auto simp: sys_updates)
  ultimately show ?thesis unfolding s3 [symmetric] by (meson converse_rtranclp_into_rtranclp steps_trans)
qed

section \<open>Properties\<close>

text \<open>
  (C8) Messages are neither lost, duplicated nor reordered, and the counter is right. However
  the calls of the threads interleave, the messages taken out so far followed by those in the
  pipe are the messages written, in order; the counter is the number of messages in the pipe
  less the number of threads that have written but not counted yet or have been promised a
  message they have not read; when no thread is inside a call it is the number of messages.
\<close>

theorem message_queue_conc_fifo:
  assumes "mq_reachable n cap s"
  shows "ms_sent s = ms_got s @ mq_pipe (ms_queue s) \<and> length (mq_pipe (ms_queue s)) \<le> cap \<and>
    mq_message_count (ms_queue s) = int (length (mq_pipe (ms_queue s))) - int (mq_in_flight n (ms_pc s)) \<and>
    ((\<forall>t. ms_pc s t = Idle) \<longrightarrow> mq_message_count (ms_queue s) = int (length (mq_pipe (ms_queue s))))"
  using mq_reachable_inv [OF assms] by (auto simp: mq_sys_inv_def mq_in_flight_def)

theorem message_queue_conc_fifo_witness:
  "\<exists>s. mq_reachable 1 1 s \<and> ms_sent s = [7::nat] \<and> ms_sent s = ms_got s @ mq_pipe (ms_queue s) \<and>
     mq_message_count (ms_queue s) = 1"
proof -
  let ?s = "(mq_sys_init 8 :: nat mq_sys)"
  let ?t = "?s\<lparr>ms_queue := (ms_queue ?s)\<lparr>mq_pipe := [7], mq_message_count := 1\<rparr>, ms_sent := [7]\<rparr>"
  have "libtrace_message_queue_put 1 (ms_queue ?s) 7 =
      Inr (Some (1, (ms_queue ?s)\<lparr>mq_pipe := [7], mq_message_count := 1\<rparr>))"
    by (simp add: libtrace_message_queue_put_def pipe_write_def mq_sys_init_def)
  from put_steps [OF _ _ _ this, of 0 1]
  have "(mq_step 1 1)\<^sup>*\<^sup>* ?s ?t" by (simp add: mq_sys_init_def)
  then have t: "mq_reachable 1 1 ?t" by (rule mq_reachable_steps [OF _ mq_reachable.start])
  show ?thesis
    using message_queue_conc_fifo [OF t] t by (intro exI [of _ ?t]) (simp add: mq_sys_init_def)
qed

text \<open>
  (C9) \<open>try_get\<close> never blocks: a thread that has entered its critical section and is about
  to read the pipe always finds a message there, although other threads may be reading at the
  same time outside the lock.
\<close>

theorem message_queue_try_get_never_blocks:
  assumes "mq_reachable n cap s" and "ms_pc s t = TryRead"
  shows "mq_pipe (ms_queue s) \<noteq> [] \<and> (\<exists>s'. mq_step n cap s s' \<and> ms_pc s' t = Idle \<and> ms_spin s' = None)"
proof -
  have inv: "mq_sys_inv n cap s" by (rule mq_reachable_inv [OF assms(1)])
  then have "t < n" using assms(2) by (metis mpc.distinct(9) mq_sys_inv_def not_less)
  then have "1 \<le> mq_in_flight n (ms_pc s)"
    using in_flight_update [of t n "ms_pc s" Idle] assms(2) by simp
  moreover have "0 \<le> mq_message_count (ms_queue s)"
    using inv assms(2) unfolding mq_sys_inv_def by (metis option.distinct(1))
  ultimately have "mq_pipe (ms_queue s) \<noteq> []" using inv by (auto simp: mq_sys_inv_def)
  then obtain m ms where "pipe_of s = m # ms" by (cases "pipe_of s") auto
  then show ?thesis
    by (intro conjI exI [of _ "goto t Idle (set_pipe ms (s\<lparr>ms_got := ms_got s @ [m], ms_spin := None\<rparr>))"]
        mq_step.try_read [OF \<open>t < n\<close> assms(2)]) (simp_all add: sys_updates)
qed

text \<open>
  What a call does when no other thread is in the queue. \<open>put\<close> returns the number of
  messages including its own and blocks only on a full pipe; \<open>get\<close> blocks only on an empty
  one and returns the number of messages including the one it takes; \<open>try_get\<close> fails on an
  empty queue and otherwise returns the number of messages it leaves. Each of these calls is
  a run of the interleaved system.
\<close>

theorem message_queue_calls:
  assumes "mq_inv cap q" and "mq_pipe q = ms" and "ms_queue s = q"
    and "ms_pc s t = Idle" and "ms_spin s = None" and "t < n"
  shows "libtrace_message_queue_put cap q m =
      Inr (if length ms < cap
           then Some (int (length ms) + 1, q\<lparr>mq_pipe := ms @ [m], mq_message_count := int (length ms) + 1\<rparr>)
           else None) \<and>
    libtrace_message_queue_get q =
      Inr (case ms of [] \<Rightarrow> None
           | x # xs \<Rightarrow> Some (int (length ms), x, q\<lparr>mq_pipe := xs, mq_message_count := int (length xs)\<rparr>)) \<and>
    libtrace_message_queue_try_get q =
      Inr (Some (case ms of [] \<Rightarrow> (LIBTRACE_MQ_FAILED, None, q)
           | x # xs \<Rightarrow> (int (length xs), Some x, q\<lparr>mq_pipe := xs, mq_message_count := int (length xs)\<rparr>))) \<and>
    (\<forall>r q'. libtrace_message_queue_put cap q m = Inr (Some (r, q')) \<longrightarrow>
       mq_inv cap q' \<and> (mq_step n cap)\<^sup>*\<^sup>* s (s\<lparr>ms_queue := q', ms_sent := ms_sent s @ [m]\<rparr>)) \<and>
    (\<forall>r x q'. libtrace_message_queue_get q = Inr (Some (r, x, q')) \<longrightarrow>
       mq_inv cap q' \<and> (mq_step n cap)\<^sup>*\<^sup>* s (s\<lparr>ms_queue := q', ms_got := ms_got s @ [x]\<rparr>)) \<and>
    (\<forall>r x q'. libtrace_message_queue_try_get q = Inr (Some (r, Some x, q')) \<longrightarrow>
       mq_inv cap q' \<and> (mq_step n cap)\<^sup>*\<^sup>* s (s\<lparr>ms_queue := q', ms_got := ms_got s @ [x]\<rparr>))"
proof (intro conjI)
  show put: "libtrace_message_queue_put cap q m =
      Inr (if length ms < cap
           then Some (int (length ms) + 1, q\<lparr>mq_pipe := ms @ [m], mq_message_count := int (length ms) + 1\<rparr>)
           else None)"
    using assms(1,2) by (simp add: libtrace_message_queue_put_def pipe_write_def mq_inv_def Let_def)
  show get: "libtrace_message_queue_get q =
      Inr (case ms of [] \<Rightarrow> None
           | x # xs \<Rightarrow> Some (int (length ms), x, q\<lparr>mq_pipe := xs, mq_message_count := int (length xs)\<rparr>))"
    using assms(1,2) by (simp add: libtrace_message_queue_get_def pipe_read_def mq_inv_def split: list.splits)
  show try_get: "libtrace_message_queue_try_get q =
      Inr (Some (case ms of [] \<Rightarrow> (LIBTRACE_MQ_FAILED, None, q)
           | x # xs \<Rightarrow> (int (length xs), Some x, q\<lparr>mq_pipe := xs, mq_message_count := int (length xs)\<rparr>)))"
    using assms(1,2)
    by (simp add: libtrace_message_queue_try_get_def pipe_read_def mq_inv_def Let_def split: list.splits)
  note idle = assms(6,4,5)
  show "\<forall>r q'. libtrace_message_queue_put cap q m = Inr (Some (r, q')) \<longrightarrow>
       mq_inv cap q' \<and> (mq_step n cap)\<^sup>*\<^sup>* s (s\<lparr>ms_queue := q', ms_sent := ms_sent s @ [m]\<rparr>)"
    using put_steps [OF idle, of cap m] assms(1,2,3) put
    by (auto simp: mq_inv_def split: if_splits)
  show "\<forall>r x q'. libtrace_message_queue_get q = Inr (Some (r, x, q')) \<longrightarrow>
       mq_inv cap q' \<and> (mq_step n cap)\<^sup>*\<^sup>* s (s\<lparr>ms_queue := q', ms_got := ms_got s @ [x]\<rparr>)"
    using get_steps [OF idle] assms(1,2,3) get by (auto simp: mq_inv_def split: list.splits)
  show "\<forall>r x q'. libtrace_message_queue_try_get q = Inr (Some (r, Some x, q')) \<longrightarrow>
       mq_inv cap q' \<and> (mq_step n cap)\<^sup>*\<^sup>* s (s\<lparr>ms_queue := q', ms_got := ms_got s @ [x]\<rparr>)"
    using try_get_steps [OF idle] assms(1,2,3) try_get by (auto simp: mq_inv_def split: list.splits)
qed

theorem message_queue_calls_witness:
  "libtrace_message_queue_put 1 (ms_queue (mq_sys_init 8)) (3::nat) =
     Inr (Some (1, (ms_queue (mq_sys_init 8))\<lparr>mq_pipe := [3], mq_message_count := 1\<rparr>))"
proof -
  have "mq_inv 1 (ms_queue (mq_sys_init 8 :: nat mq_sys))" by (simp add: mq_inv_def mq_sys_init_def)
  from message_queue_calls [OF this _ refl, of "[]" 0 1] show ?thesis by (simp add: mq_sys_init_def)
qed

theorem message_queue_try_get_never_blocks_witness:
  "\<exists>s. mq_reachable 1 1 s \<and> ms_pc s 0 = TryRead \<and> mq_pipe (ms_queue s) \<noteq> ([] :: nat list)"
proof -
  let ?s0 = "(mq_sys_init 8 :: nat mq_sys)"
  let ?s1 = "goto 0 (PutWrite 7) ?s0"
  let ?s2 = "goto 0 PutCount (set_pipe (pipe_of ?s1 @ [7]) (?s1\<lparr>ms_sent := ms_sent ?s1 @ [7]\<rparr>))"
  let ?s3 = "goto 0 Idle (set_count (count_of ?s2 + 1) ?s2)"
  let ?s4 = "goto 0 TryLock ?s3"
  let ?s5 = "goto 0 TryRead (set_count (count_of ?s4 - 1) (?s4\<lparr>ms_spin := Some 0\<rparr>))"
  have r0: "mq_reachable 1 1 ?s0" by (rule mq_reachable.start)
  have r1: "mq_reachable 1 1 ?s1"
    by (rule mq_reachable.step [OF r0 mq_step.put_call]) (simp_all add: mq_sys_init_def)
  have r2: "mq_reachable 1 1 ?s2"
    by (rule mq_reachable.step [OF r1 mq_step.put_write]) (simp_all add: mq_sys_init_def sys_updates)
  have r3: "mq_reachable 1 1 ?s3"
    by (rule mq_reachable.step [OF r2 mq_step.put_count]) (simp_all add: mq_sys_init_def sys_updates)
  have r4: "mq_reachable 1 1 ?s4"
    by (rule mq_reachable.step [OF r3 mq_step.try_early]) (simp_all add: mq_sys_init_def sys_updates)
  have r5: "mq_reachable 1 1 ?s5"
    by (rule mq_reachable.step [OF r4 mq_step.try_lock]) (simp_all add: mq_sys_init_def sys_updates)
  have "ms_pc ?s5 0 = TryRead" by (simp add: goto_def)
  with message_queue_try_get_never_blocks [OF r5 this] r5 show ?thesis
    by (intro exI [of _ ?s5] conjI) simp_all
qed

end
