(* ===== verification/Vector.thy ===== *)
theory Vector
  imports Interfaces "HOL-Library.Multiset"
begin

text \<open>
  The growing array of \<open>lib/data-struct/vector.c\<close>. A cell of \<open>v_elements\<close> is one element
  of \<open>element_size\<close> bytes, \<open>None\<close> while it has never been written. The mutex that
  every operation takes makes it atomic and is left out.
\<close>

section \<open>Cells and the sort of the C library\<close>

record 'a libtrace_vector =
  v_max_size :: nat
  v_size :: nat
  v_element_size :: nat
  v_elements :: "'a option list"

definition load_cell :: "'a option list \<Rightarrow> nat \<Rightarrow> 'a res" where
  "load_cell cells i =
     (if i < length cells
      then (case cells ! i of None \<Rightarrow> Inl Uninitialised | Some x \<Rightarrow> Inr x)
      else Inl (OutOfBounds i))"

definition store_cell :: "'a option list \<Rightarrow> nat \<Rightarrow> 'a option \<Rightarrow> 'a option list res" where
  "store_cell cells i x = (if i < length cells then Inr (cells[i := x]) else Inl (OutOfBounds i))"

fun load_cells :: "'a option list \<Rightarrow> nat \<Rightarrow> 'a list res" where
  "load_cells cells 0 = Inr []"
| "load_cells cells (Suc n) =
     bindr (load_cells cells n) (\<lambda>xs. bindr (load_cell cells n) (\<lambda>x. Inr (xs @ [x])))"

definition realloc_cells :: "'a option list \<Rightarrow> nat \<Rightarrow> 'a option list" where
  "realloc_cells cells n = take n cells @ replicate (n - length cells) None"

text \<open>
  \<open>qsort\<close> with a comparison function that returns a negative, zero or positive number. It
  keeps the order of elements that compare equal, as the merge sort of the GNU library does.
\<close>

fun qsort_insert :: "('a \<Rightarrow> 'a \<Rightarrow> int) \<Rightarrow> 'a \<Rightarrow> 'a list \<Rightarrow> 'a list" where
  "qsort_insert compar x [] = [x]"
| "qsort_insert compar x (y # ys) =
     (if compar x y \<le> 0 then x # y # ys else y # qsort_insert compar x ys)"

fun qsort :: "('a \<Rightarrow> 'a \<Rightarrow> int) \<Rightarrow> 'a list \<Rightarrow> 'a list" where
  "qsort compar [] = []"
| "qsort compar (x # xs) = qsort_insert compar x (qsort compar xs)"

section \<open>The operations\<close>

definition libtrace_vector_init :: "nat \<Rightarrow> 'a libtrace_vector" where
  "libtrace_vector_init element_size =
     \<lparr>v_max_size = 128, v_size = 0, v_element_size = element_size, v_elements = replicate 128 None\<rparr>"

definition libtrace_vector_destroy :: "'a libtrace_vector \<Rightarrow> 'a libtrace_vector" where
  "libtrace_vector_destroy v = v\<lparr>v_elements := [], v_size := 0, v_max_size := 0, v_element_size := 0\<rparr>"

definition libtrace_vector_push_back :: "'a libtrace_vector \<Rightarrow> 'a \<Rightarrow> 'a libtrace_vector res" where
  "libtrace_vector_push_back v d =
     (let v = (if v_max_size v \<le> v_size v
               then v\<lparr>v_max_size := v_max_size v * 2,
                      v_elements := realloc_cells (v_elements v) (v_max_size v * 2)\<rparr>
               else v) in
      bindr (store_cell (v_elements v) (v_size v) (Some d)) (\<lambda>cells.
      Inr (v\<lparr>v_elements := cells, v_size := Suc (v_size v)\<rparr>)))"

definition libtrace_vector_get_size :: "'a libtrace_vector \<Rightarrow> nat" where
  "libtrace_vector_get_size v = v_size v"

definition libtrace_vector_get :: "'a libtrace_vector \<Rightarrow> nat \<Rightarrow> 'a option res" where
  "libtrace_vector_get v location =
     (if v_size v \<le> location then Inr None
      else bindr (load_cell (v_elements v) location) (\<lambda>x. Inr (Some x)))"

fun shift_loop :: "nat \<Rightarrow> nat \<Rightarrow> 'a option list \<Rightarrow> 'a option list res" where
  "shift_loop i 0 cells = Inr cells"
| "shift_loop i (Suc n) cells =
     (if Suc i < length cells
      then bindr (store_cell cells i (cells ! Suc i)) (shift_loop (Suc i) n)
      else Inl (OutOfBounds (Suc i)))"

definition libtrace_vector_remove_front :: "'a libtrace_vector \<Rightarrow> (int \<times> 'a libtrace_vector) res" where
  "libtrace_vector_remove_front v =
     (if v_size v = 0 then Inr (0, v)
      else let size' = v_size v - 1 in
        bindr (shift_loop 0 size' (v_elements v)) (\<lambda>cells.
        Inr (1, v\<lparr>v_size := size', v_elements := cells\<rparr>)))"

text \<open>The loop that doubles \<open>max_size\<close> does not end when \<open>max_size\<close> is 0.\<close>

partial_function (option) grow_loop :: "nat \<Rightarrow> nat \<Rightarrow> nat \<Rightarrow> nat option" where
  "grow_loop max_size sz need =
     (if max_size - sz < need then grow_loop (max_size * 2) sz need else Some max_size)"

definition copy_cells :: "'a option list \<Rightarrow> nat \<Rightarrow> 'a option list \<Rightarrow> nat \<Rightarrow> 'a option list res" where
  "copy_cells dest at src n =
     (if at + n \<le> length dest \<and> n \<le> length src
      then Inr (take at dest @ take n src @ drop (at + n) dest)
      else Inl (OutOfBounds (at + n)))"

definition libtrace_vector_append ::
  "'a libtrace_vector \<Rightarrow> 'a libtrace_vector \<Rightarrow> ('a libtrace_vector \<times> 'a libtrace_vector) option res" where
  "libtrace_vector_append dest src =
     assertr (v_element_size dest = v_element_size src)
      (if v_size src = 0 then Inr (Some (dest, src))
       else if v_size dest = 0
       then Inr (Some
         (dest\<lparr>v_max_size := v_max_size src, v_size := v_size src,
               v_element_size := v_element_size src, v_elements := v_elements src\<rparr>,
          src\<lparr>v_max_size := v_max_size dest, v_size := v_size dest,
              v_element_size := v_element_size dest, v_elements := v_elements dest\<rparr>))
       else
         (case grow_loop (v_max_size dest) (v_size dest) (v_size src) of
            None \<Rightarrow> Inr None
          | Some max_size \<Rightarrow>
              let cells = (if v_max_size dest \<noteq> max_size
                           then realloc_cells (v_elements dest) max_size else v_elements dest) in
              bindr (copy_cells cells (v_size dest) (v_elements src) (v_size src)) (\<lambda>cells'.
              Inr (Some (dest\<lparr>v_max_size := max_size, v_elements := cells',
                               v_size := v_size dest + v_size src\<rparr>,
                         src\<lparr>v_size := 0\<rparr>)))))"

definition libtrace_zero_vector :: "'a libtrace_vector \<Rightarrow> 'a libtrace_vector" where
  "libtrace_zero_vector v = v\<lparr>v_max_size := 0, v_size := 0, v_element_size := 0, v_elements := []\<rparr>"

definition libtrace_vector_empty :: "'a libtrace_vector \<Rightarrow> 'a libtrace_vector" where
  "libtrace_vector_empty v = v\<lparr>v_size := 0\<rparr>"

fun apply_cells :: "('a \<Rightarrow> 'a) \<Rightarrow> nat \<Rightarrow> nat \<Rightarrow> 'a option list \<Rightarrow> 'a option list res" where
  "apply_cells fn cur 0 cells = Inr cells"
| "apply_cells fn cur (Suc n) cells =
     bindr (load_cell cells cur) (\<lambda>x.
     bindr (store_cell cells cur (Some (fn x))) (apply_cells fn (Suc cur) n))"

definition libtrace_vector_apply_function ::
  "'a libtrace_vector \<Rightarrow> ('a \<Rightarrow> 'a) \<Rightarrow> 'a libtrace_vector res" where
  "libtrace_vector_apply_function v fn =
     bindr (apply_cells fn 0 (v_size v) (v_elements v)) (\<lambda>cells. Inr (v\<lparr>v_elements := cells\<rparr>))"

text \<open>
  The number of elements handed to \<open>qsort\<close> is \<open>element_size\<close>, the size of an element, and
  not the number of elements.
\<close>

definition libtrace_vector_qsort ::
  "'a libtrace_vector \<Rightarrow> ('a \<Rightarrow> 'a \<Rightarrow> int) \<Rightarrow> 'a libtrace_vector res" where
  "libtrace_vector_qsort v compar =
     (let nmemb = v_element_size v in
      bindr (load_cells (v_elements v) nmemb) (\<lambda>xs.
      Inr (v\<lparr>v_elements := map Some (qsort compar xs) @ drop nmemb (v_elements v)\<rparr>)))"

section \<open>Well-formed vectors and their contents\<close>

definition vec_rep :: "'a libtrace_vector \<Rightarrow> 'a list \<Rightarrow> bool" where
  "vec_rep v xs \<longleftrightarrow> 0 < v_max_size v \<and> v_max_size v = length (v_elements v) \<and>
     v_size v = length xs \<and> length xs \<le> v_max_size v \<and> take (length xs) (v_elements v) = map Some xs"

lemma vec_rep_cell:
  assumes "vec_rep v xs" "i < length xs"
  shows "i < length (v_elements v)" "v_elements v ! i = Some (xs ! i)"
proof -
  show "i < length (v_elements v)" using assms by (simp add: vec_rep_def)
  have "take (length xs) (v_elements v) ! i = map Some xs ! i"
    using assms(1) by (simp add: vec_rep_def)
  then show "v_elements v ! i = Some (xs ! i)" using assms(2) by simp
qed

lemma take_realloc [simp]: "k \<le> length cells \<Longrightarrow> k \<le> n \<Longrightarrow> take k (realloc_cells cells n) = take k cells"
  by (simp add: realloc_cells_def min_def)

lemma length_realloc [simp]: "length (realloc_cells cells n) = n"
  by (simp add: realloc_cells_def)

lemma vec_init_rep: "vec_rep (libtrace_vector_init n) []"
  by (simp add: vec_rep_def libtrace_vector_init_def)

lemma take_Suc_update: "n < length cells \<Longrightarrow> take (Suc n) (cells[n := x]) = take n cells @ [x]"
  by (simp add: take_Suc_conv_app_nth)

lemma vec_push_back_rep:
  assumes "vec_rep v xs"
  shows "\<exists>v'. libtrace_vector_push_back v x = Inr v' \<and> vec_rep v' (xs @ [x]) \<and>
    v_element_size v' = v_element_size v"
  using assms
  by (cases "v_max_size v \<le> v_size v")
    (auto simp: libtrace_vector_push_back_def vec_rep_def store_cell_def Let_def take_Suc_update
      Suc_le_eq)

lemma shift_loop_result:
  assumes "i + n < length cells"
  shows "shift_loop i n cells = Inr (take i cells @ take n (drop (Suc i) cells) @ drop (i + n) cells)"
  using assms
proof (induction n arbitrary: i cells)
  case 0
  then show ?case by simp
next
  case (Suc n)
  let ?c = "cells[i := cells ! Suc i]"
  have "drop (Suc i) cells = cells ! Suc i # drop (Suc (Suc i)) cells"
    using Suc.prems by (simp add: Cons_nth_drop_Suc)
  moreover have "shift_loop (Suc i) n ?c =
      Inr (take (Suc i) ?c @ take n (drop (Suc (Suc i)) ?c) @ drop (Suc i + n) ?c)"
    using Suc.prems by (intro Suc.IH) simp
  ultimately show ?case using Suc.prems by (simp add: store_cell_def take_Suc_update)
qed

lemma vec_remove_front_rep:
  assumes "vec_rep v (x # xs)"
  shows "\<exists>v'. libtrace_vector_remove_front v = Inr (1, v') \<and> vec_rep v' xs"
proof -
  have "take (Suc (length xs)) (v_elements v) = Some x # map Some xs"
    using assms by (simp add: vec_rep_def)
  then have "take (length xs) (drop 1 (v_elements v)) = map Some xs"
    by (metis One_nat_def drop_Suc_Cons drop0 drop_take diff_Suc_1)
  then show ?thesis
    using assms by (auto simp: libtrace_vector_remove_front_def vec_rep_def Let_def shift_loop_result)
qed

lemma grow_loop_ends:
  assumes "0 < m" "sz \<le> m"
  shows "\<exists>m'. grow_loop m sz need = Some m' \<and> m \<le> m' \<and> need \<le> m' - sz"
  using assms
proof (induction "need + sz - m" arbitrary: m rule: less_induct)
  case less
  show ?case
  proof (cases "m - sz < need")
    case True
    then have "need + sz - m * 2 < need + sz - m" using less.prems by linarith
    then obtain m' where "grow_loop (m * 2) sz need = Some m'" "m * 2 \<le> m'" "need \<le> m' - sz"
      using less.hyps [of "m * 2"] less.prems by auto
    then show ?thesis using True by (auto simp: grow_loop.simps [of m])
  next
    case False
    then show ?thesis by (simp add: grow_loop.simps)
  qed
qed

lemma vec_append_rep:
  assumes "vec_rep v xs" "vec_rep w ys" "v_element_size v = v_element_size w"
  shows "\<exists>v' w'. libtrace_vector_append v w = Inr (Some (v', w')) \<and> vec_rep v' (xs @ ys) \<and> vec_rep w' [] \<and>
    v_element_size v' = v_element_size v \<and> v_element_size w' = v_element_size w"
proof (cases "ys = [] \<or> xs = []")
  case True
  then show ?thesis using assms by (auto simp: libtrace_vector_append_def vec_rep_def)
next
  case False
  have v: "0 < v_max_size v" "v_size v \<le> v_max_size v" using assms by (auto simp: vec_rep_def)
  obtain m where m: "grow_loop (v_max_size v) (v_size v) (v_size w) = Some m" "v_max_size v \<le> m"
    "v_size w \<le> m - v_size v"
    using grow_loop_ends [OF v] by blast
  then show ?thesis
    using False assms by (auto simp: libtrace_vector_append_def vec_rep_def copy_cells_def Let_def)
qed

lemma apply_cells_result:
  assumes "take n (drop cur cells) = map Some xs" "n = length xs" "cur \<le> length cells"
  shows "apply_cells fn cur n cells =
    Inr (take cur cells @ map (\<lambda>x. Some (fn x)) xs @ drop (cur + n) cells)"
  using assms
proof (induction xs arbitrary: cur n cells)
  case Nil
  then show ?case by simp
next
  case (Cons x xs)
  then obtain k where n: "n = Suc k" by simp
  have "drop cur cells \<noteq> []" using Cons.prems by auto
  then have lt: "cur < length cells" by simp
  then have d: "drop cur cells = cells ! cur # drop (Suc cur) cells" by (simp add: Cons_nth_drop_Suc)
  let ?c = "cells[cur := Some (fn x)]"
  have "apply_cells fn (Suc cur) k ?c =
      Inr (take (Suc cur) ?c @ map (\<lambda>x. Some (fn x)) xs @ drop (Suc cur + k) ?c)"
    by (rule Cons.IH) (use Cons.prems d lt n in auto)
  then show ?case using Cons.prems lt d n by (simp add: load_cell_def store_cell_def take_Suc_update)
qed

lemma vec_apply_rep:
  assumes "vec_rep v xs"
  shows "\<exists>v'. libtrace_vector_apply_function v fn = Inr v' \<and> vec_rep v' (map fn xs) \<and>
    v_element_size v' = v_element_size v"
  using assms apply_cells_result [of "length xs" 0 "v_elements v" xs fn]
  by (auto simp: libtrace_vector_apply_function_def vec_rep_def)

lemma vec_get_rep:
  assumes "vec_rep v xs"
  shows "libtrace_vector_get v i = Inr (if i < length xs then Some (xs ! i) else None)"
  using assms vec_rep_cell [OF assms, of i]
  by (auto simp: libtrace_vector_get_def load_cell_def vec_rep_def)

lemma vec_empty_rep: "vec_rep v xs \<Longrightarrow> vec_rep (libtrace_vector_empty v) []"
  by (auto simp: vec_rep_def libtrace_vector_empty_def)

section \<open>Sorting\<close>

lemma set_qsort_insert [simp]: "set (qsort_insert cmp x xs) = insert x (set xs)"
  by (induction xs) auto

lemma length_qsort_insert [simp]: "length (qsort_insert cmp x xs) = Suc (length xs)"
  by (induction xs) auto

lemma length_qsort [simp]: "length (qsort cmp xs) = length xs"
  by (induction xs) auto

lemma load_cells_result: "take n cells = map Some xs \<Longrightarrow> n = length xs \<Longrightarrow> load_cells cells n = Inr xs"
proof (induction n arbitrary: xs)
  case 0
  then show ?case by simp
next
  case (Suc n)
  then obtain ys y where xs: "xs = ys @ [y]" by (cases xs rule: rev_cases) auto
  have "length (take (Suc n) cells) = Suc n" using Suc.prems by simp
  then have lt: "n < length cells" by (simp add: min_def split: if_splits)
  have "take n cells = map Some ys \<and> cells ! n = Some y"
    using Suc.prems lt by (simp add: take_Suc_conv_app_nth xs)
  then show ?case using Suc.IH [of ys] Suc.prems(2) lt by (simp add: xs load_cell_def)
qed

lemma load_cells_uninit:
  assumes "i < n" "i < length cells" "cells ! i = None"
    and "\<And>j. j < i \<Longrightarrow> cells ! j \<noteq> None"
  shows "load_cells cells n = Inl Uninitialised"
  using assms(1)
proof (induction n)
  case 0
  then show ?case by simp
next
  case (Suc n)
  show ?case
  proof (cases "i = n")
    case True
    have "take n cells = map Some (map the (take n cells))"
      using assms(2,4) True by (intro nth_equalityI) auto
    then have "load_cells cells n = Inr (map the (take n cells))"
      using assms(2) True by (intro load_cells_result) auto
    then show ?thesis using assms True by (simp add: load_cell_def)
  next
    case False
    then show ?thesis using Suc by simp
  qed
qed

lemma vec_qsort_rep:
  assumes "vec_rep v xs" "v_element_size v \<le> length xs"
  shows "\<exists>v'. libtrace_vector_qsort v cmp = Inr v' \<and> v_element_size v' = v_element_size v \<and>
    vec_rep v' (qsort cmp (take (v_element_size v) xs) @ drop (v_element_size v) xs)"
proof -
  let ?n = "v_element_size v"
  have c: "take (length xs) (v_elements v) = map Some xs" "length xs \<le> length (v_elements v)"
    using assms(1) by (simp_all add: vec_rep_def)
  then have "take ?n (v_elements v) = map Some (take ?n xs)"
    using assms(2) by (metis min.absorb1 take_map take_take)
  then have "load_cells (v_elements v) ?n = Inr (take ?n xs)"
    using assms(2) by (intro load_cells_result) auto
  moreover have "take (length xs - ?n) (drop ?n (v_elements v)) = map Some (drop ?n xs)"
    using c(1) by (metis drop_map drop_take)
  ultimately show ?thesis
    using assms c(2) by (auto simp: libtrace_vector_qsort_def vec_rep_def Let_def)
qed


definition comparison :: "('a \<Rightarrow> 'a \<Rightarrow> int) \<Rightarrow> bool" where
  "comparison cmp \<longleftrightarrow> (\<forall>x y. cmp x y \<le> 0 \<or> cmp y x \<le> 0) \<and>
     (\<forall>x y z. cmp x y \<le> 0 \<longrightarrow> cmp y z \<le> 0 \<longrightarrow> cmp x z \<le> 0)"

lemma mset_qsort [simp]: "mset (qsort cmp xs) = mset xs"
proof (induction xs)
  case (Cons x xs)
  have "mset (qsort_insert cmp x ys) = add_mset x (mset ys)" for ys by (induction ys) auto
  then show ?case using Cons by simp
qed simp

lemma sorted_qsort_insert:
  assumes "comparison cmp"
  shows "sorted_wrt (\<lambda>x y. cmp x y \<le> 0) xs \<Longrightarrow> sorted_wrt (\<lambda>x y. cmp x y \<le> 0) (qsort_insert cmp x xs)"
proof (induction xs)
  case (Cons y ys)
  have "cmp y x \<le> 0" if "\<not> cmp x y \<le> 0" using assms that by (auto simp: comparison_def)
  moreover have "cmp x z \<le> 0" if "cmp x y \<le> 0" "z \<in> set ys" for z
    using assms that Cons.prems unfolding comparison_def by (meson sorted_wrt.simps(2))
  ultimately show ?case using Cons by auto
qed simp

lemma sorted_qsort: "comparison cmp \<Longrightarrow> sorted_wrt (\<lambda>x y. cmp x y \<le> 0) (qsort cmp xs)"
  by (induction xs) (auto intro: sorted_qsort_insert)

lemma push_all_cells:
  assumes "length xs \<le> 128"
  shows "push_all libtrace_vector_push_back (libtrace_vector_init n) xs =
    Inr \<lparr>v_max_size = 128, v_size = length xs, v_element_size = n,
         v_elements = map Some xs @ replicate (128 - length xs) None\<rparr>"
proof -
  have "push_all libtrace_vector_push_back
      \<lparr>v_max_size = 128, v_size = k, v_element_size = n, v_elements = pre @ replicate (128 - k) None\<rparr> xs =
    Inr \<lparr>v_max_size = 128, v_size = k + length xs, v_element_size = n,
         v_elements = pre @ map Some xs @ replicate (128 - (k + length xs)) None\<rparr>"
    if "length pre = k" "k + length xs \<le> 128" for k pre
    using that
  proof (induction xs arbitrary: k pre)
    case (Cons x xs)
    have "replicate (128 - k) (None :: 'a option) = None # replicate (128 - Suc k) None"
      using Cons.prems by (cases "128 - k") auto
    then show ?case
      using Cons.IH [of "pre @ [Some x]" "Suc k"] Cons.prems
      by (simp add: libtrace_vector_push_back_def store_cell_def list_update_append)
  qed simp
  from this [of "[]" 0] assms show ?thesis by (simp add: libtrace_vector_init_def)
qed

section \<open>Properties\<close>



text \<open>
  A fresh vector that holds fewer than \<open>element_size\<close> elements (at most 128) makes the sort
  compare memory that was never written.
\<close>

lemma vector_qsort_uninitialised:
  assumes "length zs < n" and "n \<le> 128"
  shows "bindr (push_all libtrace_vector_push_back (libtrace_vector_init n) zs)
      (\<lambda>v. libtrace_vector_qsort v cmp) = Inl Uninitialised"
proof -
  have "load_cells (map Some zs @ replicate (128 - length zs) None) n = Inl Uninitialised"
    by (rule load_cells_uninit [of "length zs"]) (use assms in \<open>auto simp: nth_append\<close>)
  then show ?thesis
    using assms by (simp add: push_all_cells libtrace_vector_qsort_def)
qed

text \<open>
  Sorting a vector sorts its first \<open>element_size\<close> elements and leaves the others where
  they are: \<open>element_size\<close>, a number of bytes, is passed to \<open>qsort\<close> as the number of
  elements.
\<close>

theorem vector_qsort_sorts_prefix:
  assumes "vec_rep v xs" and "comparison cmp" and "v_element_size v \<le> length xs"
  shows "\<exists>v' ys. libtrace_vector_qsort v cmp = Inr v' \<and>
      vec_rep v' (ys @ drop (v_element_size v) xs) \<and>
      mset ys = mset (take (v_element_size v) xs) \<and> sorted_wrt (\<lambda>x y. cmp x y \<le> 0) ys"
  using vec_qsort_rep [OF assms(1,3), of cmp] sorted_qsort [OF assms(2)] mset_qsort by metis

theorem vector_qsort_sorts_prefix_witness:
  "\<exists>v v' ys. push_all libtrace_vector_push_back (libtrace_vector_init 2) [3, 1, 0::int] = Inr v \<and>
     libtrace_vector_qsort v (\<lambda>x y. x - y) = Inr v' \<and> vec_rep v' (ys @ [0]) \<and> mset ys = {#3, 1#} \<and>
     sorted_wrt (\<lambda>x y. x - y \<le> 0) ys"
proof -
  let ?v = "\<lparr>v_max_size = 128, v_size = 3, v_element_size = 2,
      v_elements = map Some [3, 1, 0::int] @ replicate 125 None\<rparr>"
  have v: "push_all libtrace_vector_push_back (libtrace_vector_init 2) [3, 1, 0::int] = Inr ?v"
    using push_all_cells [of "[3, 1, 0::int]" 2] by simp
  have "vec_rep ?v [3, 1, 0]" "comparison (\<lambda>x y. x - y :: int)"
    by (auto simp: vec_rep_def comparison_def numeral_3_eq_3)
  from vector_qsort_sorts_prefix [OF this] v show ?thesis
    by (auto simp: numeral_2_eq_2 add_mset_commute)
qed

end
