(* ===== verification/Combiners.thy ===== *)
theory Combiners
  imports Deque Vector "HOL-Library.Sublist"
begin

text \<open>
  The combiners hand the results that the packet-processing threads publish to the reporter.
  This theory holds the results and the combiner state (\<open>lib/libtrace_parallel.h\<close>) and the
  two simpler combiners, \<open>lib/combiner_unordered.c\<close> and \<open>lib/combiner_sorted.c\<close>. The
  calls of the reporter's callback made through \<open>send_message\<close> are collected in a list.
\<close>

section \<open>Results and combiner state\<close>

record 'p libtrace_result =
  r_key :: u64
  r_value :: 'p
  r_type :: int

definition RESULT_PACKET :: int where "RESULT_PACKET = 0"
definition RESULT_TICK_INTERVAL :: int where "RESULT_TICK_INTERVAL = 1"
definition RESULT_TICK_COUNT :: int where "RESULT_TICK_COUNT = 2"
definition RESULT_USER :: int where "RESULT_USER = 1000"

lemmas result_types = RESULT_PACKET_def RESULT_TICK_INTERVAL_def RESULT_TICK_COUNT_def RESULT_USER_def

definition sizeof_libtrace_result :: nat where "sizeof_libtrace_result = 24"

record 'q libtrace_combine =
  c_queues :: "'q list"
  c_last_count_tick :: u64
  c_last_ts_tick :: u64

text \<open>The part of \<open>libtrace_t\<close> that the combiners read.\<close>

record trace_conf =
  perpkt_threads :: nat
  reporter_thold :: nat
  is_parallel :: bool

definition queue_at :: "'q libtrace_combine \<Rightarrow> nat \<Rightarrow> 'q res" where
  "queue_at c i = (if i < length (c_queues c) then Inr (c_queues c ! i) else Inl (OutOfBounds i))"

definition set_queue :: "'q libtrace_combine \<Rightarrow> nat \<Rightarrow> 'q \<Rightarrow> 'q libtrace_combine" where
  "set_queue c i q = c\<lparr>c_queues := (c_queues c)[i := q]\<rparr>"

definition is_tick :: "'p libtrace_result \<Rightarrow> bool" where
  "is_tick r \<longleftrightarrow> r_type r = RESULT_TICK_INTERVAL \<or> r_type r = RESULT_TICK_COUNT"

section \<open>The unordered combiner\<close>

type_synonym 'p deque_combine = "'p libtrace_result libtrace_queue libtrace_combine"

definition unordered_init_combiner :: "trace_conf \<Rightarrow> 'p deque_combine \<Rightarrow> 'p deque_combine res" where
  "unordered_init_combiner t c =
     assertr (perpkt_threads t > 0)
       (Inr (c\<lparr>c_queues := replicate (perpkt_threads t) (libtrace_deque_init sizeof_libtrace_result)\<rparr>))"

text \<open>The second component tells whether the reporter is posted a message to read the queues.\<close>

definition unordered_publish ::
  "trace_conf \<Rightarrow> nat \<Rightarrow> 'p deque_combine \<Rightarrow> 'p libtrace_result \<Rightarrow> ('p deque_combine \<times> bool) res" where
  "unordered_publish t t_id c r =
     bindr (queue_at c t_id) (\<lambda>queue.
     bindr (libtrace_deque_push_back queue r) (\<lambda>queue'.
     Inr (set_queue c t_id queue', reporter_thold t \<le> libtrace_deque_get_size queue')))"

partial_function (option) unordered_drain ::
  "'p libtrace_result libtrace_queue \<Rightarrow> u64 \<Rightarrow> u64 \<Rightarrow> 'p libtrace_result list \<Rightarrow>
   ('p libtrace_result libtrace_queue \<times> u64 \<times> u64 \<times> 'p libtrace_result list) res option" where
  "unordered_drain v last_ts last_count out =
     (if libtrace_deque_get_size v = 0 then Some (Inr (v, last_ts, last_count, out))
      else case libtrace_deque_pop_front v of
        Inl e \<Rightarrow> Some (Inl e)
      | Inr (None, v') \<Rightarrow> Some (Inl AssertFail)
      | Inr (Some r, v') \<Rightarrow>
          if r_type r = RESULT_TICK_INTERVAL
          then (if r_key r \<le> last_ts then unordered_drain v' last_ts last_count out
                else unordered_drain v' (r_key r) last_count (out @ [r]))
          else if r_type r = RESULT_TICK_COUNT
          then (if r_key r \<le> last_count then unordered_drain v' last_ts last_count out
                else unordered_drain v' last_ts (r_key r) (out @ [r]))
          else unordered_drain v' last_ts last_count (out @ [r]))"

fun unordered_read_from ::
  "nat list \<Rightarrow> 'p deque_combine \<Rightarrow> 'p libtrace_result list \<Rightarrow>
   ('p deque_combine \<times> 'p libtrace_result list) res option" where
  "unordered_read_from [] c out = Some (Inr (c, out))"
| "unordered_read_from (i # is) c out =
     (case queue_at c i of
        Inl e \<Rightarrow> Some (Inl e)
      | Inr v \<Rightarrow>
          (case unordered_drain v (c_last_ts_tick c) (c_last_count_tick c) out of
             None \<Rightarrow> None
           | Some (Inl e) \<Rightarrow> Some (Inl e)
           | Some (Inr (v', last_ts, last_count, out')) \<Rightarrow>
               unordered_read_from is
                 ((set_queue c i v')\<lparr>c_last_ts_tick := last_ts, c_last_count_tick := last_count\<rparr>) out'))"

definition unordered_read ::
  "trace_conf \<Rightarrow> 'p deque_combine \<Rightarrow> ('p deque_combine \<times> 'p libtrace_result list) res option" where
  "unordered_read t c = unordered_read_from [0..<perpkt_threads t] c []"

definition unordered_destroy :: "trace_conf \<Rightarrow> 'p deque_combine \<Rightarrow> 'p deque_combine res" where
  "unordered_destroy t c =
     assertr (\<forall>q \<in> set (take (perpkt_threads t) (c_queues c)). libtrace_deque_get_size q = 0) (Inr c)"

text \<open>What the drain of one queue lets through, on lists.\<close>

fun pass :: "u64 \<Rightarrow> u64 \<Rightarrow> 'p libtrace_result list \<Rightarrow> 'p libtrace_result list \<times> u64 \<times> u64" where
  "pass ts cnt [] = ([], ts, cnt)"
| "pass ts cnt (r # rs) =
     (if r_type r = RESULT_TICK_INTERVAL
      then (if r_key r \<le> ts then pass ts cnt rs
            else let (out, l) = pass (r_key r) cnt rs in (r # out, l))
      else if r_type r = RESULT_TICK_COUNT
      then (if r_key r \<le> cnt then pass ts cnt rs
            else let (out, l) = pass ts (r_key r) rs in (r # out, l))
      else let (out, l) = pass ts cnt rs in (r # out, l))"

definition dq_holds :: "'a libtrace_queue \<Rightarrow> 'a list \<Rightarrow> bool" where
  "dq_holds q xs \<longleftrightarrow> dq_inv q \<and> dq_contents q = xs"

lemma dq_holds_size: "dq_holds q xs \<Longrightarrow> libtrace_deque_get_size q = length xs"
  using dq.get_size by (auto simp: dq_holds_def)

lemma dq_holds_pop:
  assumes "dq_holds q (x # xs)"
  obtains q' where "libtrace_deque_pop_front q = Inr (Some x, q')" "dq_holds q' xs"
  using assms dq.pop_front [of q x xs] by (auto simp: dq_holds_def)

lemma dq_holds_push:
  assumes "dq_holds q xs"
  obtains q' where "libtrace_deque_push_back q x = Inr q'" "dq_holds q' (xs @ [x])"
  using assms dq.push_back [of q x] by (auto simp: dq_holds_def)

lemma drain_pass:
  "dq_holds v rs \<Longrightarrow> \<exists>v'. dq_holds v' [] \<and>
     unordered_drain v ts cnt out =
       Some (Inr (v', fst (snd (pass ts cnt rs)), snd (snd (pass ts cnt rs)), out @ fst (pass ts cnt rs)))"
proof (induction rs arbitrary: v ts cnt out)
  case Nil
  then show ?case using dq_holds_size by (fastforce simp: unordered_drain.simps [of v])
next
  case (Cons r rs)
  obtain v' where v': "libtrace_deque_pop_front v = Inr (Some r, v')" "dq_holds v' rs"
    using Cons.prems by (rule dq_holds_pop)
  have "libtrace_deque_get_size v \<noteq> 0" using dq_holds_size [OF Cons.prems] by simp
  with v'(1) have d: "unordered_drain v ts cnt out =
      (if r_type r = RESULT_TICK_INTERVAL
       then (if r_key r \<le> ts then unordered_drain v' ts cnt out
             else unordered_drain v' (r_key r) cnt (out @ [r]))
       else if r_type r = RESULT_TICK_COUNT
       then (if r_key r \<le> cnt then unordered_drain v' ts cnt out
             else unordered_drain v' ts (r_key r) (out @ [r]))
       else unordered_drain v' ts cnt (out @ [r]))"
    by (subst unordered_drain.simps) simp
  show ?case
    using Cons.IH [OF v'(2), of ts cnt out] Cons.IH [OF v'(2), of ts cnt "out @ [r]"]
      Cons.IH [OF v'(2), of "r_key r" cnt "out @ [r]"] Cons.IH [OF v'(2), of ts "r_key r" "out @ [r]"]
    unfolding d by (simp add: split_beta Let_def)
qed

lemma pass_append:
  "pass ts cnt (rs @ rs') =
     (let (o1, ts1, cnt1) = pass ts cnt rs; (o2, l) = pass ts1 cnt1 rs' in (o1 @ o2, l))"
  by (induction rs arbitrary: ts cnt) (auto simp: split_beta Let_def)


lemma unordered_read_from_pass:
  assumes "list_all2 dq_holds (c_queues c) xss" "k \<le> length xss"
  shows "\<exists>c'. unordered_read_from [k..<length xss] c out =
      Some (Inr (c', out @ fst (pass (c_last_ts_tick c) (c_last_count_tick c) (concat (drop k xss))))) \<and>
    list_all2 dq_holds (c_queues c') (take k xss @ replicate (length xss - k) []) \<and>
    (c_last_ts_tick c', c_last_count_tick c') =
      snd (pass (c_last_ts_tick c) (c_last_count_tick c) (concat (drop k xss)))"
  using assms
proof (induction "length xss - k" arbitrary: k c out xss)
  case 0
  then show ?case by simp
next
  case (Suc m)
  then have k: "k < length xss" and len: "length (c_queues c) = length xss"
    by (auto dest: list_all2_lengthD)
  let ?p = "pass (c_last_ts_tick c) (c_last_count_tick c)"
  have holds: "dq_holds (c_queues c ! k) (xss ! k)"
    using Suc.prems(1) k len by (simp add: list_all2_conv_all_nth)
  obtain v' where v': "dq_holds v' []" "unordered_drain (c_queues c ! k) (c_last_ts_tick c) (c_last_count_tick c) out =
      Some (Inr (v', fst (snd (?p (xss ! k))), snd (snd (?p (xss ! k))), out @ fst (?p (xss ! k))))"
    using drain_pass [OF holds] by blast
  let ?c = "(set_queue c k v')\<lparr>c_last_ts_tick := fst (snd (?p (xss ! k))), c_last_count_tick := snd (snd (?p (xss ! k)))\<rparr>"
  let ?xss = "xss[k := []]"
  have "list_all2 dq_holds (c_queues ?c) ?xss"
    using Suc.prems(1) v'(1) by (simp add: set_queue_def list_all2_update_cong)
  moreover have "m = length ?xss - Suc k" "Suc k \<le> length ?xss" using Suc.hyps(2) k by auto
  ultimately obtain c' where c': "unordered_read_from [Suc k..<length ?xss] ?c (out @ fst (?p (xss ! k))) =
      Some (Inr (c', (out @ fst (?p (xss ! k))) @
        fst (pass (c_last_ts_tick ?c) (c_last_count_tick ?c) (concat (drop (Suc k) ?xss)))))"
    "list_all2 dq_holds (c_queues c') (take (Suc k) ?xss @ replicate (length ?xss - Suc k) [])"
    "(c_last_ts_tick c', c_last_count_tick c') =
      snd (pass (c_last_ts_tick ?c) (c_last_count_tick ?c) (concat (drop (Suc k) ?xss)))"
    using Suc.hyps(1) [of ?xss "Suc k" ?c "out @ fst (?p (xss ! k))"] by blast
  have "concat (drop k xss) = xss ! k @ concat (drop (Suc k) xss)"
    using k by (simp add: Cons_nth_drop_Suc [symmetric])
  moreover have "take (Suc k) ?xss @ replicate (length ?xss - Suc k) [] = take k xss @ replicate (length xss - k) []"
    using k by (simp add: take_Suc_conv_app_nth Suc_diff_Suc replicate_Suc [symmetric])
  ultimately show ?case
    using c' v'(2) k len by (simp add: upt_conv_Cons queue_at_def pass_append split_beta Let_def)
qed

lemma pass_keeps_results: "filter (\<lambda>r. \<not> is_tick r) (fst (pass ts cnt rs)) = filter (\<lambda>r. \<not> is_tick r) rs"
  by (induction rs arbitrary: ts cnt) (auto simp: is_tick_def split_beta Let_def)

lemma pass_subseq: "subseq (fst (pass ts cnt rs)) rs"
  by (induction rs arbitrary: ts cnt) (auto simp: split_beta Let_def)

definition ticks :: "int \<Rightarrow> 'p libtrace_result list \<Rightarrow> u64 list" where
  "ticks ty rs = map r_key (filter (\<lambda>r. r_type r = ty) rs)"

lemma pass_ts:
  "sorted_wrt (<) (ts # ticks RESULT_TICK_INTERVAL (fst (pass ts cnt rs))) \<and>
   fst (snd (pass ts cnt rs)) = fold max (ticks RESULT_TICK_INTERVAL rs) ts"
proof (induction rs arbitrary: ts cnt)
  case (Cons r rs)
  then show ?case
    by (auto simp: ticks_def split_beta Let_def result_types max_def)
      (meson not_le order.strict_trans)+
qed (simp add: ticks_def)

lemma pass_count:
  "sorted_wrt (<) (cnt # ticks RESULT_TICK_COUNT (fst (pass ts cnt rs))) \<and>
   snd (snd (pass ts cnt rs)) = fold max (ticks RESULT_TICK_COUNT rs) cnt"
proof (induction rs arbitrary: ts cnt)
  case (Cons r rs)
  then show ?case
    by (auto simp: ticks_def split_beta Let_def result_types max_def)
      (meson not_le order.strict_trans)+
qed (simp add: ticks_def)


section \<open>The sorted combiner\<close>

type_synonym 'p vector_combine = "'p libtrace_result libtrace_vector libtrace_combine"

definition sorted_init_combiner :: "trace_conf \<Rightarrow> 'p vector_combine \<Rightarrow> 'p vector_combine res" where
  "sorted_init_combiner t c =
     assertr (perpkt_threads t > 0)
       (Inr (c\<lparr>c_queues := replicate (perpkt_threads t) (libtrace_vector_init sizeof_libtrace_result)\<rparr>))"

definition sorted_publish :: "nat \<Rightarrow> 'p vector_combine \<Rightarrow> 'p libtrace_result \<Rightarrow> 'p vector_combine res" where
  "sorted_publish t_id c r =
     bindr (queue_at c t_id) (\<lambda>vec.
     bindr (libtrace_vector_push_back vec r) (\<lambda>vec'. Inr (set_queue c t_id vec')))"

definition sorted_read :: "'p vector_combine \<Rightarrow> 'p vector_combine" where
  "sorted_read c = c"

definition compare_result :: "'p libtrace_result \<Rightarrow> 'p libtrace_result \<Rightarrow> int" where
  "compare_result r1 r2 = (if r_key r1 < r_key r2 then -1 else if r_key r1 = r_key r2 then 0 else 1)"

definition make_result_safe ::
  "('p \<Rightarrow> 'p) \<Rightarrow> 'p libtrace_result \<Rightarrow> 'p libtrace_result" where
  "make_result_safe make_packet_safe r =
     (if r_type r = RESULT_PACKET then r\<lparr>r_value := make_packet_safe (r_value r)\<rparr> else r)"

fun sorted_pause_from ::
  "('p \<Rightarrow> 'p) \<Rightarrow> nat list \<Rightarrow> 'p vector_combine \<Rightarrow> 'p vector_combine res" where
  "sorted_pause_from mps [] c = Inr c"
| "sorted_pause_from mps (i # is) c =
     bindr (queue_at c i) (\<lambda>v.
     bindr (libtrace_vector_apply_function v (make_result_safe mps)) (\<lambda>v'.
     sorted_pause_from mps is (set_queue c i v')))"

definition sorted_pause :: "('p \<Rightarrow> 'p) \<Rightarrow> trace_conf \<Rightarrow> 'p vector_combine \<Rightarrow> 'p vector_combine res" where
  "sorted_pause mps t c = sorted_pause_from mps [0..<perpkt_threads t] c"

fun sorted_append_from :: "nat list \<Rightarrow> 'p vector_combine \<Rightarrow> 'p vector_combine option res" where
  "sorted_append_from [] c = Inr (Some c)"
| "sorted_append_from (i # is) c =
     bindr (queue_at c 0) (\<lambda>q0.
     bindr (queue_at c i) (\<lambda>qi.
     bindr (libtrace_vector_append q0 qi) (\<lambda>r.
       case r of None \<Rightarrow> Inr None
       | Some (q0', qi') \<Rightarrow> sorted_append_from is (set_queue (set_queue c 0 q0') i qi'))))"

fun sorted_send_from ::
  "'p libtrace_result libtrace_vector \<Rightarrow> nat list \<Rightarrow> 'p libtrace_result list \<Rightarrow> 'p libtrace_result list res" where
  "sorted_send_from v [] out = Inr out"
| "sorted_send_from v (a # as) out =
     bindr (libtrace_vector_get v a) (\<lambda>r.
       case r of None \<Rightarrow> Inl AssertFail
       | Some r \<Rightarrow> sorted_send_from v as (if is_tick r then out else out @ [r]))"

definition sorted_read_final ::
  "trace_conf \<Rightarrow> 'p vector_combine \<Rightarrow> ('p vector_combine \<times> 'p libtrace_result list) option res" where
  "sorted_read_final t c =
     bindr (sorted_append_from [1..<perpkt_threads t] c) (\<lambda>r.
       case r of None \<Rightarrow> Inr None
       | Some c' \<Rightarrow>
           bindr (queue_at c' 0) (\<lambda>q0.
           bindr (libtrace_vector_qsort q0 compare_result) (\<lambda>q0'.
           bindr (sorted_send_from q0' [0..<libtrace_vector_get_size q0'] []) (\<lambda>out.
           Inr (Some (set_queue c' 0 (libtrace_vector_empty q0'), out))))))"

definition sorted_destroy :: "trace_conf \<Rightarrow> 'p vector_combine \<Rightarrow> 'p vector_combine res" where
  "sorted_destroy t c =
     (let n = perpkt_threads t in
      assertr (\<forall>v \<in> set (take n (c_queues c)). libtrace_vector_get_size v = 0)
        (Inr (c\<lparr>c_queues := map libtrace_vector_destroy (take n (c_queues c)) @ drop n (c_queues c)\<rparr>)))"

definition vec_holds :: "'p libtrace_result libtrace_vector \<Rightarrow> 'p libtrace_result list \<Rightarrow> bool" where
  "vec_holds v xs \<longleftrightarrow> vec_rep v xs \<and> v_element_size v = sizeof_libtrace_result"

lemma vec_holds_append:
  assumes "vec_holds v xs" "vec_holds w ys"
  obtains v' w' where "libtrace_vector_append v w = Inr (Some (v', w'))" "vec_holds v' (xs @ ys)" "vec_holds w' []"
  using assms vec_append_rep [of v xs w ys] by (auto simp: vec_holds_def)

lemma sorted_append_from_concat:
  assumes "list_all2 vec_holds (c_queues c) xss" "0 < k" "k \<le> length xss"
  shows "\<exists>c'. sorted_append_from [k..<length xss] c = Inr (Some c') \<and>
    list_all2 vec_holds (c_queues c')
      ((xss ! 0 @ concat (drop k xss)) # take (k - 1) (tl xss) @ replicate (length xss - k) [])"
  using assms
proof (induction "length xss - k" arbitrary: k c xss)
  case 0
  then obtain xs yss where "xss = xs # yss" by (cases xss) auto
  with 0 show ?case by simp
next
  case (Suc m)
  then obtain xs yss where xss: "xss = xs # yss" by (cases xss) auto
  have k: "k < length xss" and len: "length (c_queues c) = length xss"
    using Suc by (auto dest: list_all2_lengthD)
  have holds: "vec_holds (c_queues c ! 0) xs" "vec_holds (c_queues c ! k) (xss ! k)"
    using Suc.prems(1) k len unfolding list_all2_conv_all_nth by (auto simp: xss)
  obtain v' w' where a: "libtrace_vector_append (c_queues c ! 0) (c_queues c ! k) = Inr (Some (v', w'))"
    "vec_holds v' (xs @ xss ! k)" "vec_holds w' []"
    using holds by (rule vec_holds_append)
  let ?c = "set_queue (set_queue c 0 v') k w'" and ?xss = "xss[0 := xs @ xss ! k, k := []]"
  have "list_all2 vec_holds (c_queues ?c) ?xss"
    using Suc.prems(1) a(2,3) by (simp add: set_queue_def list_all2_update_cong)
  moreover have "m = length ?xss - Suc k" "Suc k \<le> length ?xss" using Suc.hyps(2) k by auto
  ultimately obtain c' where "sorted_append_from [Suc k..<length ?xss] ?c = Inr (Some c')"
    "list_all2 vec_holds (c_queues c') ((?xss ! 0 @ concat (drop (Suc k) ?xss)) #
       take (Suc k - 1) (tl ?xss) @ replicate (length ?xss - Suc k) [])"
    using Suc.hyps(1) [of ?xss "Suc k" ?c] by auto
  moreover obtain j where j: "k = Suc j" using Suc.prems(2) by (cases k) auto
  moreover have "concat (drop k xss) = xss ! k @ concat (drop (Suc k) xss)"
    using k by (simp add: Cons_nth_drop_Suc [symmetric])
  moreover have "take k (tl ?xss) @ replicate (length ?xss - Suc k) [] =
      take (k - 1) (tl xss) @ replicate (length xss - k) []"
    using k by (simp add: xss j take_Suc_conv_app_nth Suc_diff_Suc replicate_Suc [symmetric])
  moreover have "sorted_append_from [k..<length xss] c = sorted_append_from [Suc k..<length ?xss] ?c"
    using a(1) k len by (auto simp: upt_conv_Cons queue_at_def)
  ultimately show ?case by (auto simp: xss)
qed

lemma sorted_send_from_filter:
  assumes "vec_rep v xs" "k \<le> length xs"
  shows "sorted_send_from v [k..<length xs] out = Inr (out @ filter (\<lambda>r. \<not> is_tick r) (drop k xs))"
  using assms(2)
proof (induction "length xs - k" arbitrary: k out)
  case 0
  then show ?case by simp
next
  case (Suc m)
  then have "k < length xs" by simp
  with Suc.hyps(1) [of "Suc k"] Suc.hyps(2) show ?case
    by (simp add: upt_conv_Cons vec_get_rep [OF assms(1)] Cons_nth_drop_Suc [symmetric])
qed

lemma comparison_compare_result: "comparison compare_result"
  by (auto simp: comparison_def compare_result_def)


lemma sorted_read_final_out:
  assumes "list_all2 vec_holds (c_queues c) xss" and "perpkt_threads t = length xss" and "xss \<noteq> []"
    and "sizeof_libtrace_result \<le> length (concat xss)"
  shows "\<exists>c'. sorted_read_final t c =
      Inr (Some (c', filter (\<lambda>r. \<not> is_tick r)
        (qsort compare_result (take sizeof_libtrace_result (concat xss)) @
         drop sizeof_libtrace_result (concat xss)))) \<and>
    (\<forall>v \<in> set (c_queues c'). vec_holds v [])"
proof -
  let ?n = sizeof_libtrace_result
  obtain xs yss where xss: "xss = xs # yss" using assms(3) by (cases xss) auto
  obtain c1 where c1: "sorted_append_from [1..<length xss] c = Inr (Some c1)"
    "list_all2 vec_holds (c_queues c1) (concat xss # replicate (length yss) [])"
    using sorted_append_from_concat [OF assms(1), of 1] by (auto simp: xss)
  then obtain q0 qs where q: "c_queues c1 = q0 # qs" "vec_holds q0 (concat xss)"
    "list_all2 vec_holds qs (replicate (length yss) [])"
    by (auto simp: list_all2_Cons2)
  let ?ys = "qsort compare_result (take ?n (concat xss))"
  obtain q0' where q0': "libtrace_vector_qsort q0 compare_result = Inr q0'"
    "vec_rep q0' (?ys @ drop ?n (concat xss))" "v_element_size q0' = ?n"
    using vec_qsort_rep [of q0 "concat xss" compare_result] q(2) assms(4) by (auto simp: vec_holds_def)
  have size: "libtrace_vector_get_size q0' = length (?ys @ drop ?n (concat xss))"
    using q0'(2) by (simp add: libtrace_vector_get_size_def vec_rep_def)
  have send: "sorted_send_from q0' [0..<libtrace_vector_get_size q0'] [] =
      Inr (filter (\<lambda>r. \<not> is_tick r) (?ys @ drop ?n (concat xss)))"
    unfolding size using sorted_send_from_filter [OF q0'(2), of 0 "[]"] by simp
  have "\<forall>v \<in> set (c_queues (set_queue c1 0 (libtrace_vector_empty q0'))). vec_holds v []"
    using q q0'(2,3) vec_empty_rep [OF q0'(2)]
    by (auto simp: set_queue_def vec_holds_def libtrace_vector_empty_def list_all2_conv_all_nth in_set_conv_nth)
  then show ?thesis
    using c1(1) q(1) q0'(1) send assms(2) by (auto simp: sorted_read_final_def queue_at_def)
qed

lemma sorted_by_compare_result: "sorted (map r_key (qsort compare_result rs))"
proof -
  have "sorted_wrt (\<lambda>x y. r_key x \<le> r_key y) (qsort compare_result rs)"
    by (rule sorted_wrt_mono_rel [OF _ sorted_qsort [OF comparison_compare_result]])
      (auto simp: compare_result_def split: if_splits)
  then show ?thesis by (simp add: sorted_wrt_map)
qed

text \<open>
  Two consequences of sorting \<open>sizeof (libtrace_result_t)\<close> elements. With fewer results than
  that in a vector used for the first time, the final read sorts memory that was never
  written. With more, a result whose key is smaller than all others may be sent last.
\<close>

lemma sorted_combiner_uninitialised:
  assumes "length rs < sizeof_libtrace_result"
    and "push_all libtrace_vector_push_back (libtrace_vector_init sizeof_libtrace_result) rs = Inr v"
    and "c_queues c = [v]" and "perpkt_threads t = 1"
  shows "sorted_read_final t c = Inl Uninitialised"
proof -
  have "libtrace_vector_qsort v compare_result = Inl Uninitialised"
    using vector_qsort_uninitialised [OF assms(1), of compare_result] assms(2)
    by (simp add: sizeof_libtrace_result_def)
  then show ?thesis using assms(3,4) by (simp add: sorted_read_final_def queue_at_def)
qed

definition result_with_key :: "u64 \<Rightarrow> nat libtrace_result" where
  "result_with_key k = \<lparr>r_key = k, r_value = 0, r_type = RESULT_PACKET\<rparr>"

definition vector_of :: "nat libtrace_result list \<Rightarrow> nat libtrace_result libtrace_vector" where
  "vector_of rs =
     \<lparr>v_max_size = 128, v_size = length rs, v_element_size = sizeof_libtrace_result,
      v_elements = map Some rs @ replicate (128 - length rs) None\<rparr>"

lemma vector_of_holds: "length rs \<le> 128 \<Longrightarrow> vec_holds (vector_of rs) rs"
  by (auto simp: vec_holds_def vec_rep_def vector_of_def)

lemma qsort_replicate: "qsort compare_result (replicate n (result_with_key k)) = replicate n (result_with_key k)"
proof (induction n)
  case (Suc n)
  then show ?case by (cases n) (simp_all add: compare_result_def)
qed simp

lemma sorted_combiner_out_of_order:
  "\<exists>c out. list_all2 vec_holds (c_queues c) [replicate 24 (result_with_key 2) @ [result_with_key 1]] \<and>
     (\<exists>c'. sorted_read_final \<lparr>perpkt_threads = 1, reporter_thold = 1, is_parallel = False\<rparr> c =
        Inr (Some (c', out))) \<and> \<not> sorted (map r_key out)"
proof -
  let ?rs = "replicate 24 (result_with_key 2) @ [result_with_key 1]"
  let ?c = "\<lparr>c_queues = [vector_of ?rs], c_last_count_tick = 0, c_last_ts_tick = 0\<rparr>"
  have h: "list_all2 vec_holds (c_queues ?c) [?rs]" by (simp add: vector_of_holds)
  from sorted_read_final_out [OF h, of "\<lparr>perpkt_threads = 1, reporter_thold = 1, is_parallel = False\<rparr>"]
  obtain c' where "sorted_read_final \<lparr>perpkt_threads = 1, reporter_thold = 1, is_parallel = False\<rparr> ?c =
      Inr (Some (c', filter (\<lambda>r. \<not> is_tick r) (replicate 24 (result_with_key 2) @ [result_with_key 1])))"
    by (auto simp: sizeof_libtrace_result_def qsort_replicate)
  moreover have "\<not> sorted (map r_key (filter (\<lambda>r. \<not> is_tick r) ?rs))"
    by (simp add: is_tick_def result_with_key_def result_types sorted_append word_le_nat_alt)
  ultimately show ?thesis using h by blast
qed

section \<open>Properties\<close>

text \<open>
  The unordered combiner passes every result on exactly once. Reading queues that hold
  \<open>xss\<close> ends, empties all of them and sends, queue after queue, exactly the results that are
  not ticks, in order; of the ticks of each kind it sends those that are newer than every tick
  of that kind sent before, so that their keys increase strictly and the last key remembered
  is the newest one.
\<close>

theorem unordered_combiner_read:
  assumes "list_all2 dq_holds (c_queues c) xss" and "perpkt_threads t = length xss"
  shows "\<exists>c' out. unordered_read t c = Some (Inr (c', out)) \<and>
    (\<forall>q \<in> set (c_queues c'). dq_holds q []) \<and> subseq out (concat xss) \<and>
    filter (\<lambda>r. \<not> is_tick r) out = filter (\<lambda>r. \<not> is_tick r) (concat xss) \<and>
    sorted_wrt (<) (c_last_ts_tick c # ticks RESULT_TICK_INTERVAL out) \<and>
    sorted_wrt (<) (c_last_count_tick c # ticks RESULT_TICK_COUNT out) \<and>
    c_last_ts_tick c' = fold max (ticks RESULT_TICK_INTERVAL (concat xss)) (c_last_ts_tick c) \<and>
    c_last_count_tick c' = fold max (ticks RESULT_TICK_COUNT (concat xss)) (c_last_count_tick c)"
proof -
  let ?p = "pass (c_last_ts_tick c) (c_last_count_tick c) (concat xss)"
  obtain c' where c': "unordered_read t c = Some (Inr (c', fst ?p))"
    "list_all2 dq_holds (c_queues c') (replicate (length xss) [])"
    "(c_last_ts_tick c', c_last_count_tick c') = snd ?p"
    using unordered_read_from_pass [OF assms(1), of 0 "[]"] assms(2) by (auto simp: unordered_read_def)
  have "\<forall>q \<in> set (c_queues c'). dq_holds q []"
    using c'(2) by (auto simp: list_all2_conv_all_nth in_set_conv_nth)
  then show ?thesis
    using c'(1,3) pass_keeps_results pass_subseq
      pass_ts [of "c_last_ts_tick c" "c_last_count_tick c" "concat xss"]
      pass_count [of "c_last_count_tick c" "c_last_ts_tick c" "concat xss"]
    by (metis fst_conv snd_conv)
qed

definition unordered_example :: "nat deque_combine" where
  "unordered_example = \<lparr>c_queues = [libtrace_deque_init 24], c_last_count_tick = 0, c_last_ts_tick = 0\<rparr>"

theorem unordered_combiner_read_witness:
  "\<exists>q c' out. libtrace_deque_push_back (libtrace_deque_init 24)
        \<lparr>r_key = 5, r_value = (8::nat), r_type = RESULT_PACKET\<rparr> = Inr q \<and>
     unordered_read \<lparr>perpkt_threads = 1, reporter_thold = 1, is_parallel = False\<rparr>
       (unordered_example\<lparr>c_queues := [q]\<rparr>) = Some (Inr (c', out)) \<and>
     filter (\<lambda>r. \<not> is_tick r) out = [\<lparr>r_key = 5, r_value = (8::nat), r_type = RESULT_PACKET\<rparr>]"
proof -
  let ?r = "\<lparr>r_key = 5, r_value = (8::nat), r_type = RESULT_PACKET\<rparr>"
  have "dq_holds (libtrace_deque_init 24) ([] :: nat libtrace_result list)"
    by (simp add: dq_holds_def dq_inv_init)
  then obtain q where q: "libtrace_deque_push_back (libtrace_deque_init 24) ?r = Inr q" "dq_holds q [?r]"
    by (rule dq_holds_push) simp
  have "list_all2 dq_holds (c_queues (unordered_example\<lparr>c_queues := [q]\<rparr>)) [[?r]]"
    using q(2) by simp
  from unordered_combiner_read [OF this, of "\<lparr>perpkt_threads = 1, reporter_thold = 1, is_parallel = False\<rparr>"]
  show ?thesis using q(1) by (auto simp: is_tick_def result_types)
qed

text \<open>
  (C11) What the sorted combiner sends. With at least as many results in its vectors as a
  result has bytes, the final read ends, empties every vector and sends each result that is
  not a tick exactly once, the first \<open>sizeof (libtrace_result_t)\<close> of the concatenated vectors
  in the order of their keys and the others in the order they were published.
\<close>

theorem sorted_combiner_read_final:
  assumes "list_all2 vec_holds (c_queues c) xss" and "perpkt_threads t = length xss" and "xss \<noteq> []"
    and "sizeof_libtrace_result \<le> length (concat xss)"
  shows "\<exists>c' ys. sorted_read_final t c =
      Inr (Some (c', filter (\<lambda>r. \<not> is_tick r) (ys @ drop sizeof_libtrace_result (concat xss)))) \<and>
    mset ys = mset (take sizeof_libtrace_result (concat xss)) \<and>
    sorted (map r_key ys) \<and> (\<forall>v \<in> set (c_queues c'). vec_holds v [])"
  using sorted_read_final_out [OF assms] sorted_by_compare_result mset_qsort by metis

theorem sorted_combiner_read_final_witness:
  "\<exists>c c' ys. sorted_read_final \<lparr>perpkt_threads = 1, reporter_thold = 1, is_parallel = False\<rparr> c =
      Inr (Some (c', filter (\<lambda>r. \<not> is_tick r) ys)) \<and>
    mset ys = mset (replicate 24 (result_with_key 3)) \<and> sorted (map r_key ys)"
proof -
  let ?rs = "replicate 24 (result_with_key 3)"
  let ?c = "\<lparr>c_queues = [vector_of ?rs], c_last_count_tick = 0, c_last_ts_tick = 0\<rparr>"
  have "list_all2 vec_holds (c_queues ?c) [?rs]" by (simp add: vector_of_holds)
  from sorted_combiner_read_final [OF this, of "\<lparr>perpkt_threads = 1, reporter_thold = 1, is_parallel = False\<rparr>"]
  show ?thesis by (fastforce simp: sizeof_libtrace_result_def)
qed

end
