(* ===== verification/Combiner_Ordered.thy ===== *)
theory Combiner_Ordered
  imports Combiners
begin

text \<open>
  The ordered combiner of \<open>lib/combiner_ordered.c\<close>: every thread publishes results with
  increasing keys, and the reporter merges the queues of the threads by key.
\<close>

section \<open>The operations\<close>

definition ordered_init_combiner :: "trace_conf \<Rightarrow> 'p deque_combine \<Rightarrow> 'p deque_combine res" where
  "ordered_init_combiner t c =
     assertr (perpkt_threads t > 0)
       (Inr (c\<lparr>c_queues := replicate (perpkt_threads t) (libtrace_deque_init sizeof_libtrace_result)\<rparr>))"

definition ordered_publish ::
  "trace_conf \<Rightarrow> nat \<Rightarrow> 'p deque_combine \<Rightarrow> 'p libtrace_result \<Rightarrow> ('p deque_combine \<times> bool) res" where
  "ordered_publish t t_id c r =
     bindr (queue_at c t_id) (\<lambda>queue.
     bindr (libtrace_deque_push_back queue r) (\<lambda>queue'.
     Inr (set_queue c t_id queue', reporter_thold t \<le> libtrace_deque_get_size queue')))"

definition pop_queue ::
  "'p deque_combine \<Rightarrow> nat \<Rightarrow> ('p libtrace_result \<times> 'p deque_combine) res" where
  "pop_queue c i =
     bindr (queue_at c i) (\<lambda>v.
     bindr (libtrace_deque_pop_front v) (\<lambda>(r, v').
       case r of None \<Rightarrow> Inl AssertFail | Some r \<Rightarrow> Inr (r, set_queue c i v')))"

text \<open>
  \<open>peek_queue\<close> returns the key at the front of a queue, or \<open>None\<close> (0 in the source) when
  the front was a tick that it has dealt with itself.
\<close>

definition peek_queue ::
  "trace_conf \<Rightarrow> 'p deque_combine \<Rightarrow> nat \<Rightarrow> 'p libtrace_result option \<Rightarrow> 'p libtrace_result list \<Rightarrow>
   (u64 option \<times> 'p deque_combine \<times> 'p libtrace_result list) res" where
  "peek_queue t c i peeked out =
     bindr (case peeked of
              Some r \<Rightarrow> Inr r
            | None \<Rightarrow>
                bindr (queue_at c i) (\<lambda>v. bindr (libtrace_deque_peek_front v) (\<lambda>r.
                  case r of None \<Rightarrow> Inl Uninitialised | Some r \<Rightarrow> Inr r))) (\<lambda>r.
     if r_type r = RESULT_TICK_INTERVAL
     then (if c_last_ts_tick c < r_key r
           then bindr (pop_queue (c\<lparr>c_last_ts_tick := r_key r\<rparr>) i) (\<lambda>(r', c').
                  Inr (None, c', out @ [r']))
           else bindr (pop_queue c i) (\<lambda>(r', c'). Inr (None, c', out)))
     else if r_type r = RESULT_TICK_COUNT
     then (if c_last_count_tick c < r_key r
           then (let c1 = c\<lparr>c_last_count_tick := r_key r\<rparr> in
                 if is_parallel t
                 then bindr (pop_queue c1 i) (\<lambda>(r', c'). Inr (None, c', out @ [r']))
                 else Inr (Some (r_key r), c1, out))
           else bindr (pop_queue c i) (\<lambda>(r', c'). Inr (None, c', out)))
     else Inr (Some (r_key r), c, out))"

partial_function (option) next_message ::
  "trace_conf \<Rightarrow> 'p deque_combine \<Rightarrow> nat \<Rightarrow> 'p libtrace_result list \<Rightarrow>
   (u64 \<times> 'p deque_combine \<times> 'p libtrace_result list) res option" where
  "next_message t c i out =
     (case bindr (queue_at c i) libtrace_deque_peek_front of
        Inl e \<Rightarrow> Some (Inl e)
      | Inr None \<Rightarrow> Some (Inr (0, c, out))
      | Inr (Some r) \<Rightarrow>
          (case peek_queue t c i (Some r) out of
             Inl e \<Rightarrow> Some (Inl e)
           | Inr (None, c', out') \<Rightarrow> next_message t c' i out'
           | Inr (Some nextkey, c', out') \<Rightarrow> Some (Inr (nextkey, c', out'))))"

text \<open>The local variables of \<open>read_internal\<close>, with the combiner and the results sent.\<close>

record 'p merge =
  m_combine :: "'p deque_combine"
  m_out :: "'p libtrace_result list"
  m_live :: "bool list"
  m_key :: "u64 list"
  m_min_key :: u64
  m_min_queue :: int
  m_live_count :: int
  m_allactive :: bool

fun scan_queues :: "trace_conf \<Rightarrow> nat list \<Rightarrow> 'p merge \<Rightarrow> 'p merge res" where
  "scan_queues t [] m = Inr m"
| "scan_queues t (i # is) m =
     bindr (queue_at (m_combine m) i) (\<lambda>v.
     bindr (if libtrace_deque_get_size v \<noteq> 0
            then peek_queue t (m_combine m) i None (m_out m)
            else Inr (None, m_combine m, m_out m)) (\<lambda>(k, c', out').
     let m' = m\<lparr>m_combine := c', m_out := out'\<rparr> in
     scan_queues t is
       (case k of
          Some peeked \<Rightarrow>
            (let m'' = m'\<lparr>m_live_count := m_live_count m' + 1, m_live := (m_live m')[i := True],
                          m_key := (m_key m')[i := peeked]\<rparr> in
             if i = 0 \<or> peeked < m_min_key m''
             then m''\<lparr>m_min_key := peeked, m_min_queue := int i\<rparr> else m'')
        | None \<Rightarrow>
            m'\<lparr>m_allactive := False, m_live := (m_live m')[i := False], m_key := (m_key m')[i := 0]\<rparr>)))"

text \<open>The search for the smallest key among the live queues.\<close>

fun rescan :: "bool list \<Rightarrow> u64 list \<Rightarrow> nat list \<Rightarrow> u64 \<times> int \<Rightarrow> u64 \<times> int" where
  "rescan live key [] best = best"
| "rescan live key (i # is) (min_key, min_queue) =
     rescan live key is
       (if live ! i \<and> key ! i \<le> min_key then (key ! i, int i) else (min_key, min_queue))"

definition merge_update :: "nat \<Rightarrow> nat \<Rightarrow> u64 \<Rightarrow> 'p merge \<Rightarrow> 'p merge" where
  "merge_update n q peeked m =
     (if peeked \<noteq> 0
      then (let m' = m\<lparr>m_key := (m_key m)[q := peeked]\<rparr> in
            if peeked \<le> m_min_key m then m'\<lparr>m_min_key := peeked\<rparr>
            else (let (mk, mq) = rescan (m_live m') (m_key m') [0..<n] (peeked, m_min_queue m') in
                  m'\<lparr>m_min_key := mk, m_min_queue := mq\<rparr>))
      else (let m' = m\<lparr>m_allactive := False, m_live := (m_live m)[q := False],
                       m_key := (m_key m)[q := 0], m_live_count := m_live_count m - 1\<rparr>;
                (mk, mq) = rescan (m_live m') (m_key m') [0..<n] (- 1, -1) in
            m'\<lparr>m_min_key := mk, m_min_queue := mq\<rparr>))"

definition merge_step :: "trace_conf \<Rightarrow> 'p merge \<Rightarrow> 'p merge res option" where
  "merge_step t m =
     (if m_min_queue m < 0 then Some (Inl (OutOfBounds 0))
      else let q = nat (m_min_queue m) in
        case pop_queue (m_combine m) q of
          Inl e \<Rightarrow> Some (Inl e)
        | Inr (r, c1) \<Rightarrow>
            (case next_message t c1 q (m_out m @ [r]) of
               None \<Rightarrow> None
             | Some (Inl e) \<Rightarrow> Some (Inl e)
             | Some (Inr (peeked, c2, out2)) \<Rightarrow>
                 Some (Inr (merge_update (perpkt_threads t) q peeked
                              (m\<lparr>m_combine := c2, m_out := out2\<rparr>)))))"

partial_function (option) merge_loop :: "trace_conf \<Rightarrow> bool \<Rightarrow> 'p merge \<Rightarrow> 'p merge res option" where
  "merge_loop t final m =
     (if m_allactive m \<or> (m_live_count m \<noteq> 0 \<and> final)
      then (case merge_step t m of
              None \<Rightarrow> None
            | Some (Inl e) \<Rightarrow> Some (Inl e)
            | Some (Inr m') \<Rightarrow> merge_loop t final m')
      else Some (Inr m))"

definition merge_start :: "trace_conf \<Rightarrow> 'p deque_combine \<Rightarrow> 'p merge" where
  "merge_start t c =
     \<lparr>m_combine = c, m_out = [], m_live = replicate (perpkt_threads t) False,
      m_key = replicate (perpkt_threads t) 0, m_min_key = - 1, m_min_queue = -1,
      m_live_count = 0, m_allactive = True\<rparr>"

definition read_internal ::
  "trace_conf \<Rightarrow> 'p deque_combine \<Rightarrow> bool \<Rightarrow> ('p deque_combine \<times> 'p libtrace_result list) res option" where
  "read_internal t c final =
     (case scan_queues t [0..<perpkt_threads t] (merge_start t c) of
        Inl e \<Rightarrow> Some (Inl e)
      | Inr m \<Rightarrow>
          (case merge_loop t final m of
             None \<Rightarrow> None
           | Some (Inl e) \<Rightarrow> Some (Inl e)
           | Some (Inr m') \<Rightarrow> Some (Inr (m_combine m', m_out m'))))"

definition ordered_read ::
  "trace_conf \<Rightarrow> 'p deque_combine \<Rightarrow> ('p deque_combine \<times> 'p libtrace_result list) res option" where
  "ordered_read t c = read_internal t c False"

partial_function (option) ordered_read_final ::
  "trace_conf \<Rightarrow> 'p deque_combine \<Rightarrow> 'p libtrace_result list \<Rightarrow>
   ('p deque_combine \<times> 'p libtrace_result list) res option" where
  "ordered_read_final t c out =
     (case read_internal t c True of
        None \<Rightarrow> None
      | Some (Inl e) \<Rightarrow> Some (Inl e)
      | Some (Inr (c', out')) \<Rightarrow>
          if length (filter (\<lambda>q. libtrace_deque_get_size q = 0) (take (perpkt_threads t) (c_queues c')))
             < perpkt_threads t
          then ordered_read_final t c' (out @ out')
          else Some (Inr (c', out @ out')))"

definition ordered_destroy :: "trace_conf \<Rightarrow> 'p deque_combine \<Rightarrow> 'p deque_combine res" where
  "ordered_destroy t c =
     assertr (\<forall>q \<in> set (take (perpkt_threads t) (c_queues c)). libtrace_deque_get_size q = 0) (Inr c)"

fun ordered_pause_from ::
  "('p \<Rightarrow> 'p) \<Rightarrow> nat list \<Rightarrow> 'p deque_combine \<Rightarrow> 'p deque_combine option res" where
  "ordered_pause_from mps [] c = Inr (Some c)"
| "ordered_pause_from mps (i # is) c =
     bindr (queue_at c i) (\<lambda>v.
     bindr (libtrace_deque_apply_function (libtrace_deque_get_size v) v (make_result_safe mps)) (\<lambda>r.
       case r of None \<Rightarrow> Inr None | Some v' \<Rightarrow> ordered_pause_from mps is (set_queue c i v')))"

definition ordered_pause ::
  "('p \<Rightarrow> 'p) \<Rightarrow> trace_conf \<Rightarrow> 'p deque_combine \<Rightarrow> 'p deque_combine option res" where
  "ordered_pause mps t c = ordered_pause_from mps [0..<perpkt_threads t] c"

declare next_message.simps [code] merge_loop.simps [code] ordered_read_final.simps [code]

section \<open>Merging queues without ticks\<close>

definition mergeable :: "'p libtrace_result list list \<Rightarrow> bool" where
  "mergeable xss \<longleftrightarrow> (\<forall>xs \<in> set xss. sorted (map r_key xs) \<and>
     (\<forall>r \<in> set xs. \<not> is_tick r \<and> r_key r \<noteq> - 1) \<and> (\<forall>r \<in> set (tl xs). r_key r \<noteq> 0))"

definition heads_min :: "'p libtrace_result list list \<Rightarrow> nat \<Rightarrow> bool" where
  "heads_min xss j \<longleftrightarrow> j < length xss \<and> xss ! j \<noteq> [] \<and>
     (\<forall>i < length xss. xss ! i \<noteq> [] \<longrightarrow> r_key (hd (xss ! j)) \<le> r_key (hd (xss ! i)))"

definition merge_arrays :: "'p libtrace_result list list \<Rightarrow> bool list \<Rightarrow> u64 list \<Rightarrow> bool" where
  "merge_arrays xss live key \<longleftrightarrow> length live = length xss \<and> length key = length xss \<and>
     (\<forall>i < length xss. live ! i = (xss ! i \<noteq> []) \<and> (xss ! i \<noteq> [] \<longrightarrow> key ! i = r_key (hd (xss ! i))))"

definition live_total :: "'p libtrace_result list list \<Rightarrow> nat" where
  "live_total xss = length (filter (\<lambda>xs. xs \<noteq> []) xss)"

definition merge_inv :: "'p libtrace_result list list \<Rightarrow> 'p merge \<Rightarrow> bool" where
  "merge_inv xss m \<longleftrightarrow> list_all2 dq_holds (c_queues (m_combine m)) xss \<and>
     merge_arrays xss (m_live m) (m_key m) \<and>
     m_live_count m = int (live_total xss) \<and> m_allactive m = ([] \<notin> set xss) \<and>
     (live_total xss \<noteq> 0 \<longrightarrow>
        (\<exists>j. m_min_queue m = int j \<and> heads_min xss j \<and> m_min_key m = r_key (hd (xss ! j))))"

lemma rescan_min:
  assumes "rescan live key is (mk0, mq0) = (mk, mq)"
  shows "mk \<le> mk0 \<and> (\<forall>i \<in> set is. live ! i \<longrightarrow> mk \<le> key ! i) \<and>
    ((mk, mq) = (mk0, mq0) \<or> (\<exists>i \<in> set is. live ! i \<and> mq = int i \<and> mk = key ! i))"
  using assms
proof (induction "is" arbitrary: mk0 mq0)
  case (Cons i "is")
  show ?case
  proof (cases "live ! i \<and> key ! i \<le> mk0")
    case True
    then show ?thesis using Cons.IH [of "key ! i" "int i"] Cons.prems by auto
  next
    case False
    then have "live ! i \<Longrightarrow> mk0 \<le> key ! i" by auto
    with False show ?thesis using Cons.IH [of mk0 mq0] Cons.prems by auto
  qed
qed simp

lemma live_total_append: "live_total (xss @ ys # yss) = live_total xss + (if ys = [] then 0 else 1) + live_total yss"
  by (simp add: live_total_def)

lemma live_total_upd:
  assumes "j < length xss" "xss ! j \<noteq> []"
  shows "live_total (xss[j := ys]) + (if ys = [] then 1 else 0) = live_total xss"
proof -
  have "xss = take j xss @ xss ! j # drop (Suc j) xss" using assms(1) by (simp add: id_take_nth_drop)
  then have "live_total xss = live_total (take j xss) + 1 + live_total (drop (Suc j) xss)"
    using live_total_append [of "take j xss" "xss ! j" "drop (Suc j) xss"] assms(2) by simp
  then show ?thesis using assms(1) by (simp add: upd_conv_take_nth_drop live_total_append)
qed

lemma live_total_0: "live_total xss = 0 \<longleftrightarrow> (\<forall>xs \<in> set xss. xs = [])"
  by (auto simp: live_total_def filter_empty_conv)


lemma dq_holds_peek:
  assumes "dq_holds q xs"
  shows "libtrace_deque_peek_front q = Inr (case xs of [] \<Rightarrow> None | x # _ \<Rightarrow> Some x)"
proof -
  obtain as where "dq_rep q as (dq_contents q)" using assms dq_invE unfolding dq_holds_def by blast
  then show ?thesis using peek_front_rep [of q as "dq_contents q"] assms by (simp add: dq_holds_def)
qed

lemma queue_holds:
  assumes "list_all2 dq_holds (c_queues c) xss" "j < length xss"
  obtains v where "queue_at c j = Inr v" "dq_holds v (xss ! j)"
  using assms by (auto simp: queue_at_def list_all2_conv_all_nth)

lemma pop_queue_holds:
  assumes "list_all2 dq_holds (c_queues c) xss" "j < length xss" "xss ! j = r # rs"
  obtains c' where "pop_queue c j = Inr (r, c')" "list_all2 dq_holds (c_queues c') (xss[j := rs])"
proof -
  obtain v where v: "queue_at c j = Inr v" "dq_holds v (r # rs)"
    using queue_holds [OF assms(1,2)] assms(3) by metis
  obtain v' where "libtrace_deque_pop_front v = Inr (Some r, v')" "dq_holds v' rs"
    using v(2) by (rule dq_holds_pop)
  with v(1) show ?thesis
    using assms(1) by (intro that [of "set_queue c j v'"]) (auto simp: pop_queue_def set_queue_def list_all2_update_cong)
qed

lemma peek_queue_plain: "\<not> is_tick r \<Longrightarrow> peek_queue t c i (Some r) out = Inr (Some (r_key r), c, out)"
  by (simp add: peek_queue_def is_tick_def)

lemma peek_queue_front:
  assumes "list_all2 dq_holds (c_queues c) xss" "j < length xss" "xss ! j = r # rs"
  shows "peek_queue t c j None out = peek_queue t c j (Some r) out"
proof -
  obtain v where "queue_at c j = Inr v" "dq_holds v (r # rs)"
    using queue_holds [OF assms(1,2)] assms(3) by metis
  then show ?thesis using dq_holds_peek [of v "r # rs"] by (simp add: peek_queue_def)
qed

lemma next_message_plain:
  assumes "list_all2 dq_holds (c_queues c) xss" "j < length xss"
    and "xss ! j \<noteq> [] \<Longrightarrow> \<not> is_tick (hd (xss ! j))"
  shows "next_message t c j out =
    Some (Inr (if xss ! j = [] then 0 else r_key (hd (xss ! j)), c, out))"
proof -
  obtain v where v: "queue_at c j = Inr v" "dq_holds v (xss ! j)"
    using queue_holds [OF assms(1,2)] by metis
  show ?thesis
    using v(1) dq_holds_peek [OF v(2)] assms(3)
    by (cases "xss ! j") (simp_all add: next_message.simps [of t c] peek_queue_plain)
qed

lemma mergeable_head:
  assumes "mergeable xss" "j < length xss" "xss ! j = r # rs"
  shows "\<not> is_tick r" "r_key r \<noteq> - 1" "mergeable (xss[j := rs])"
    and "rs \<noteq> [] \<Longrightarrow> \<not> is_tick (hd rs) \<and> r_key (hd rs) \<noteq> 0 \<and> r_key r \<le> r_key (hd rs)"
proof -
  have "r # rs \<in> set xss" using assms(2,3) by (metis nth_mem)
  then have p: "sorted (map r_key (r # rs))" "\<forall>x \<in> set (r # rs). \<not> is_tick x \<and> r_key x \<noteq> - 1"
    "\<forall>x \<in> set rs. r_key x \<noteq> 0"
    using assms(1) by (force simp: mergeable_def)+
  then show "\<not> is_tick r" "r_key r \<noteq> - 1"
    "rs \<noteq> [] \<Longrightarrow> \<not> is_tick (hd rs) \<and> r_key (hd rs) \<noteq> 0 \<and> r_key r \<le> r_key (hd rs)"
    by (cases rs; auto)+
  have "\<forall>x \<in> set (tl rs). r_key x \<noteq> 0" using p(3) by (cases rs) auto
  then show "mergeable (xss[j := rs])"
    using assms(1) p unfolding mergeable_def by (auto dest!: set_update_subset_insert [THEN subsetD])
qed

lemma merge_arrays_upd:
  assumes "merge_arrays xss live key" "j < length xss"
  shows "merge_arrays (xss[j := rs]) (live[j := rs \<noteq> []]) (key[j := (if rs = [] then 0 else r_key (hd rs))])"
  using assms by (auto simp: merge_arrays_def nth_list_update)

lemma rescan_heads:
  assumes "merge_arrays xss live key" "rescan live key [0..<length xss] (mk0, mq0) = (mk, mq)"
    and "\<exists>i < length xss. xss ! i \<noteq> [] \<and> (r_key (hd (xss ! i)) < mk0 \<or> mk0 = - 1 \<or> (mk0, mq0) = (key ! i, int i))"
    and "\<forall>i < length xss. xss ! i \<noteq> [] \<longrightarrow> r_key (hd (xss ! i)) \<noteq> - 1"
  shows "\<exists>j. mq = int j \<and> heads_min xss j \<and> mk = r_key (hd (xss ! j))"
proof -
  note m = rescan_min [OF assms(2)]
  have min: "\<forall>i < length xss. xss ! i \<noteq> [] \<longrightarrow> mk \<le> r_key (hd (xss ! i))"
    using m assms(1) by (auto simp: merge_arrays_def)
  have "\<exists>i < length xss. xss ! i \<noteq> [] \<and> mq = int i \<and> mk = r_key (hd (xss ! i))"
  proof (cases "(mk, mq) = (mk0, mq0)")
    case True
    obtain i where i: "i < length xss" "xss ! i \<noteq> []"
      "r_key (hd (xss ! i)) < mk0 \<or> mk0 = - 1 \<or> (mk0, mq0) = (key ! i, int i)"
      using assms(3) by blast
    have "\<not> r_key (hd (xss ! i)) < mk0" using min i True by auto
    moreover have "mk0 \<noteq> - 1" using min i True assms(4) word_n1_ge [of "r_key (hd (xss ! i))"] by fastforce
    ultimately show ?thesis using i True assms(1) by (auto simp: merge_arrays_def)
  next
    case False
    then show ?thesis using m assms(1) by (auto simp: merge_arrays_def)
  qed
  then show ?thesis using min by (auto simp: heads_min_def)
qed


lemma nil_in_update: "j < length xss \<Longrightarrow> xss ! j \<noteq> [] \<Longrightarrow> ys \<noteq> [] \<Longrightarrow> [] \<in> set (xss[j := ys]) \<longleftrightarrow> [] \<in> set xss"
  by (auto simp: in_set_conv_nth nth_list_update)

lemma heads_not_max:
  assumes "mergeable xss"
  shows "\<forall>i < length xss. xss ! i \<noteq> [] \<longrightarrow> r_key (hd (xss ! i)) \<noteq> - 1"
  using assms unfolding mergeable_def by (meson hd_in_set nth_mem)

lemma merge_update_last:
  assumes inv: "merge_inv xss m" and min: "heads_min xss j"
    and xs: "xss ! j = [r]" and good: "mergeable xss"
    and qs: "list_all2 dq_holds (c_queues c) (xss[j := []])"
  shows "merge_inv (xss[j := []]) (merge_update (length xss) j 0 (m\<lparr>m_combine := c, m_out := out\<rparr>))"
proof -
  have j: "j < length xss" using min by (simp add: heads_min_def)
  let ?xss = "xss[j := []]" and ?live = "(m_live m)[j := False]" and ?key = "(m_key m)[j := 0]"
  have arr: "merge_arrays ?xss ?live ?key"
    using merge_arrays_upd [of xss "m_live m" "m_key m" j "[]"] inv j by (simp add: merge_inv_def)
  obtain mk mq where res: "rescan ?live ?key [0..<length xss] (- 1, -1) = (mk, mq)" by fastforce
  then have res': "rescan ?live ?key [0..<length ?xss] (- 1, -1) = (mk, mq)" by simp
  have tot: "live_total ?xss + 1 = live_total xss" using live_total_upd [OF j, of "[]"] xs by simp
  have "\<exists>i. mq = int i \<and> heads_min ?xss i \<and> mk = r_key (hd (?xss ! i))" if nz: "live_total ?xss \<noteq> 0"
  proof -
    obtain xs where "xs \<in> set ?xss" "xs \<noteq> []" using nz unfolding live_total_0 by blast
    then obtain i where "i < length ?xss" "?xss ! i \<noteq> []" by (metis in_set_conv_nth)
    then have "\<exists>i < length ?xss. ?xss ! i \<noteq> [] \<and>
        (r_key (hd (?xss ! i)) < - 1 \<or> - 1 = (- 1 :: u64) \<or> (- 1, -1) = (?key ! i, int i))"
      by blast
    then show ?thesis
      by (rule rescan_heads [OF arr res' _ heads_not_max [OF mergeable_head(3) [OF good j xs]]])
  qed
  moreover have "[] \<in> set ?xss" using j by (metis set_update_memI)
  ultimately show ?thesis
    using inv arr qs res tot by (auto simp: merge_inv_def merge_update_def Let_def)
qed

lemma merge_update_more:
  assumes inv: "merge_inv xss m" and min: "heads_min xss j" "m_min_key m = r_key r" "m_min_queue m = int j"
    and xs: "xss ! j = r # rs" "rs \<noteq> []" and good: "mergeable xss"
    and qs: "list_all2 dq_holds (c_queues c) (xss[j := rs])"
  shows "merge_inv (xss[j := rs]) (merge_update (length xss) j (r_key (hd rs)) (m\<lparr>m_combine := c, m_out := out\<rparr>))"
proof -
  have j: "j < length xss" using min by (simp add: heads_min_def)
  let ?xss = "xss[j := rs]" and ?key = "(m_key m)[j := r_key (hd rs)]"
  have live: "(m_live m)[j := True] = m_live m"
    using inv j xs by (intro list_update_same_conv [THEN iffD2]) (auto simp: merge_inv_def merge_arrays_def)
  have arr: "merge_arrays ?xss (m_live m) ?key"
    using merge_arrays_upd [of xss "m_live m" "m_key m" j rs] inv j xs(2) live by (simp add: merge_inv_def)
  note hd = mergeable_head(4) [OF good j xs(1) xs(2)]
  note good' = mergeable_head(3) [OF good j xs(1)]
  have tot: "live_total ?xss = live_total xss" using live_total_upd [OF j, of rs] xs by simp
  have all: "[] \<in> set ?xss \<longleftrightarrow> [] \<in> set xss" using nil_in_update j xs by (metis list.distinct(1))
  show ?thesis
  proof (cases "r_key (hd rs) \<le> r_key r")
    case True
    then have "heads_min ?xss j" using min(1) hd xs j
      by (auto simp: heads_min_def nth_list_update intro: order_trans)
    then show ?thesis
      using True inv arr qs tot all hd min j
      by (auto simp: merge_inv_def merge_update_def Let_def)
  next
    case False
    obtain mk mq where res: "rescan (m_live m) ?key [0..<length xss] (r_key (hd rs), int j) = (mk, mq)" by fastforce
    have "\<exists>i < length ?xss. ?xss ! i \<noteq> [] \<and> (r_key (hd rs), int j) = (?key ! i, int i)"
      using j xs arr by (intro exI [of _ j]) (auto simp: merge_arrays_def)
    then have "\<exists>i. mq = int i \<and> heads_min ?xss i \<and> mk = r_key (hd (?xss ! i))"
      using rescan_heads [OF arr, of "r_key (hd rs)" "int j" mk mq] res heads_not_max [OF good'] by auto
    then show ?thesis
      using False inv arr qs res tot all hd min by (auto simp: merge_inv_def merge_update_def Let_def)
  qed
qed

lemma merge_step_inv:
  assumes "merge_inv xss m" "mergeable xss" "live_total xss \<noteq> 0" "perpkt_threads t = length xss"
  obtains j r rs m' where "heads_min xss j" "xss ! j = r # rs" "merge_step t m = Some (Inr m')"
    "m_out m' = m_out m @ [r]" "merge_inv (xss[j := rs]) m'"
proof -
  obtain j where j: "m_min_queue m = int j" "heads_min xss j" "m_min_key m = r_key (hd (xss ! j))"
    using assms(1,3) by (auto simp: merge_inv_def)
  then obtain r rs where xs: "xss ! j = r # rs" and lt: "j < length xss"
    by (cases "xss ! j") (auto simp: heads_min_def)
  have qs: "list_all2 dq_holds (c_queues (m_combine m)) xss" using assms(1) by (simp add: merge_inv_def)
  obtain c where c: "pop_queue (m_combine m) j = Inr (r, c)" "list_all2 dq_holds (c_queues c) (xss[j := rs])"
    by (rule pop_queue_holds [OF qs lt xs])
  let ?peeked = "if rs = [] then 0 else r_key (hd rs)"
  have "next_message t c j (m_out m @ [r]) = Some (Inr (?peeked, c, m_out m @ [r]))"
    using next_message_plain [OF c(2), of j] lt mergeable_head(4) [OF assms(2) lt xs] by simp
  then have step: "merge_step t m =
      Some (Inr (merge_update (length xss) j ?peeked (m\<lparr>m_combine := c, m_out := m_out m @ [r]\<rparr>)))"
    using c(1) j(1) assms(4) by (simp add: merge_step_def Let_def)
  have "merge_inv (xss[j := rs]) (merge_update (length xss) j ?peeked (m\<lparr>m_combine := c, m_out := m_out m @ [r]\<rparr>))"
    using merge_update_last [OF assms(1) j(2), of r c] merge_update_more [OF assms(1) j(2), of r rs c] xs j c(2) assms(2)
    by (cases "rs = []") auto
  moreover have "m_out (merge_update (length xss) j ?peeked (m\<lparr>m_combine := c, m_out := m_out m @ [r]\<rparr>)) = m_out m @ [r]"
    by (simp add: merge_update_def Let_def split_beta)
  ultimately show ?thesis using that [OF j(2) xs step] by simp
qed


section \<open>The merge\<close>

lemma heads_min_all:
  assumes "mergeable xss" "heads_min xss j" "r \<in> set (concat xss)"
  shows "r_key (hd (xss ! j)) \<le> r_key r"
proof -
  obtain xs where "xs \<in> set xss" "r \<in> set xs" using assms(3) by auto
  then obtain i where i: "i < length xss" "r \<in> set (xss ! i)" by (metis in_set_conv_nth)
  then have "sorted (map r_key (xss ! i))" "xss ! i \<noteq> []" using assms(1) by (auto simp: mergeable_def)
  then have "r_key (hd (xss ! i)) \<le> r_key r" using i(2) by (cases "xss ! i") auto
  moreover have "r_key (hd (xss ! j)) \<le> r_key (hd (xss ! i))"
    using assms(2) i(1) \<open>xss ! i \<noteq> []\<close> by (simp add: heads_min_def)
  ultimately show ?thesis by simp
qed

lemma mset_concat_upd:
  assumes "j < length xss" "xss ! j = r # rs"
  shows "mset (concat xss) = add_mset r (mset (concat (xss[j := rs])))"
proof -
  have "xss = take j xss @ (r # rs) # drop (Suc j) xss"
    using assms id_take_nth_drop by metis
  then have "mset (concat xss) = mset (concat (take j xss @ (r # rs) # drop (Suc j) xss))" by simp
  then show ?thesis using assms(1) by (simp add: upd_conv_take_nth_drop)
qed

definition merged :: "'p libtrace_result list list \<Rightarrow> 'p libtrace_result list \<Rightarrow> 'p libtrace_result list list \<Rightarrow> bool" where
  "merged xss out xss' \<longleftrightarrow> sorted (map r_key out) \<and> list_all2 suffix xss' xss \<and>
     mset (concat xss) = mset out + mset (concat xss') \<and>
     (\<forall>r \<in> set out. \<forall>r' \<in> set (concat xss'). r_key r \<le> r_key r')"

lemma merged_step:
  assumes "mergeable xss" "heads_min xss j" "xss ! j = r # rs" "merged (xss[j := rs]) out xss'"
  shows "merged xss (r # out) xss'"
proof -
  have j: "j < length xss" using assms(2) by (simp add: heads_min_def)
  have ms: "mset (concat xss) = add_mset r (mset out + mset (concat xss'))"
    using mset_concat_upd [OF j assms(3)] assms(4) by (simp add: merged_def)
  then have "set (concat xss) = insert r (set out \<union> set (concat xss'))"
    by (metis set_mset_add_mset_insert set_mset_mset set_mset_union)
  then have "r_key r \<le> r_key x" if "x \<in> set out \<union> set (concat xss')" for x
    using heads_min_all [OF assms(1,2), of x] that assms(3) by simp
  moreover have "list_all2 suffix xss' xss"
  proof -
    have b: "list_all2 suffix (xss[j := rs]) xss"
      using assms(3) j by (auto simp: list_all2_conv_all_nth nth_list_update suffix_Cons)
    have a: "list_all2 suffix xss' (xss[j := rs])" using assms(4) by (simp add: merged_def)
    show ?thesis by (rule list_all2_trans [OF _ a b]) (rule suffix_order.trans)
  qed
  ultimately show ?thesis using assms(4) ms by (auto simp: merged_def)
qed

lemma merge_loop_merges:
  assumes "merge_inv xss m" "mergeable xss" "perpkt_threads t = length xss" "xss \<noteq> []"
  shows "\<exists>m' out xss'. merge_loop t final m = Some (Inr m') \<and> m_out m' = m_out m @ out \<and>
    list_all2 dq_holds (c_queues (m_combine m')) xss' \<and> merged xss out xss' \<and> mergeable xss' \<and>
    [] \<in> set xss' \<and> (final \<longrightarrow> concat xss' = [])"
  using assms
proof (induction "length (concat xss)" arbitrary: xss m rule: less_induct)
  case less
  show ?case
  proof (cases "m_allactive m \<or> m_live_count m \<noteq> 0 \<and> final")
    case False
    then have "[] \<in> set xss" "final \<longrightarrow> live_total xss = 0"
      using less.prems(1) by (auto simp: merge_inv_def)
    moreover have "merge_loop t final m = Some (Inr m)" using False by (subst merge_loop.simps) auto
    moreover have "merged xss [] xss" by (simp add: merged_def list_all2_refl)
    ultimately show ?thesis
      using less.prems(1,2) by (fastforce simp: merge_inv_def live_total_0)
  next
    case True
    then have "live_total xss \<noteq> 0"
      using less.prems(1,4) by (cases xss) (auto simp: merge_inv_def live_total_def)
    from merge_step_inv [OF less.prems(1,2) this less.prems(3)] obtain j r rs m1 where
      j: "heads_min xss j" "xss ! j = r # rs" "merge_step t m = Some (Inr m1)" "m_out m1 = m_out m @ [r]"
      "merge_inv (xss[j := rs]) m1" by blast
    have lt: "j < length xss" using j(1) by (simp add: heads_min_def)
    have "length (concat (xss[j := rs])) < length (concat xss)"
      using arg_cong [OF mset_concat_upd [OF lt j(2)], of size] by simp
    from less.hyps [OF this j(5) mergeable_head(3) [OF less.prems(2) lt j(2)]] less.prems(3,4)
    obtain m' out xss' where "merge_loop t final m1 = Some (Inr m')" "m_out m' = m_out m1 @ out"
      "list_all2 dq_holds (c_queues (m_combine m')) xss'" "merged (xss[j := rs]) out xss'" "mergeable xss'"
      "[] \<in> set xss'" "final \<longrightarrow> concat xss' = []" by auto
    moreover from this have "merged xss (r # out) xss'" using merged_step [OF less.prems(2) j(1,2)] by blast
    moreover have "merge_loop t final m = merge_loop t final m1"
      using True j(3) by (simp add: merge_loop.simps [of t final m])
    ultimately show ?thesis using j(4) by (intro exI [of _ m'] exI [of _ "r # out"] exI [of _ xss']) simp
  qed
qed


text \<open>The first loop establishes the invariant one queue after the other.\<close>

definition scan_inv :: "nat \<Rightarrow> 'p libtrace_result list list \<Rightarrow> 'p merge \<Rightarrow> bool" where
  "scan_inv k xss m \<longleftrightarrow> list_all2 dq_holds (c_queues (m_combine m)) xss \<and>
     length (m_live m) = length xss \<and> length (m_key m) = length xss \<and>
     (\<forall>i < k. m_live m ! i = (xss ! i \<noteq> []) \<and> (xss ! i \<noteq> [] \<longrightarrow> m_key m ! i = r_key (hd (xss ! i)))) \<and>
     m_live_count m = int (live_total (take k xss)) \<and> m_allactive m = ([] \<notin> set (take k xss)) \<and>
     (if live_total (take k xss) = 0 then m_min_key m = - 1
      else \<exists>j < k. m_min_queue m = int j \<and> xss ! j \<noteq> [] \<and> m_min_key m = r_key (hd (xss ! j)) \<and>
             (\<forall>i < k. xss ! i \<noteq> [] \<longrightarrow> m_min_key m \<le> r_key (hd (xss ! i))))"

lemma scan_inv_merge_inv: "scan_inv (length xss) xss m \<Longrightarrow> merge_inv xss m"
  by (auto simp: scan_inv_def merge_inv_def merge_arrays_def heads_min_def split: if_splits)

lemma scan_step_empty:
  assumes "scan_inv k xss m" "k < length xss" "xss ! k = []"
  shows "scan_inv (Suc k) xss
    (m\<lparr>m_allactive := False, m_live := (m_live m)[k := False], m_key := (m_key m)[k := 0]\<rparr>)"
proof -
  have "live_total (take (Suc k) xss) = live_total (take k xss)"
    using assms(2,3) by (simp add: take_Suc_conv_app_nth live_total_def)
  moreover have "[] \<in> set (take (Suc k) xss)" using assms(2,3) by (simp add: take_Suc_conv_app_nth)
  ultimately show ?thesis
    using assms by (auto simp: scan_inv_def nth_list_update less_Suc_eq)
qed

lemma scan_step_live:
  assumes inv: "scan_inv k xss m" and k: "k < length xss" "xss ! k = r # rs" "r_key r \<noteq> - 1"
  defines "m' \<equiv> m\<lparr>m_live_count := m_live_count m + 1, m_live := (m_live m)[k := True],
                  m_key := (m_key m)[k := r_key r]\<rparr>"
  shows "scan_inv (Suc k) xss
    (if k = 0 \<or> r_key r < m_min_key m' then m'\<lparr>m_min_key := r_key r, m_min_queue := int k\<rparr> else m')"
proof -
  have tot: "live_total (take (Suc k) xss) = Suc (live_total (take k xss))"
    using k by (simp add: take_Suc_conv_app_nth live_total_def)
  have all: "[] \<in> set (take (Suc k) xss) \<longleftrightarrow> [] \<in> set (take k xss)"
    using k by (simp add: take_Suc_conv_app_nth)
  show ?thesis
  proof (cases "live_total (take k xss) = 0")
    case True
    then have "\<forall>i < k. xss ! i = []"
      using k(1) unfolding live_total_0 by (metis in_set_conv_nth length_take min.absorb4 nth_take)
    moreover have "r_key r < m_min_key m"
      using inv True k(3) word_n1_ge [of "r_key r"] by (simp add: scan_inv_def order.not_eq_order_implies_strict)
    ultimately show ?thesis
      using inv tot all k by (auto simp: scan_inv_def m'_def nth_list_update less_Suc_eq)
  next
    case False
    then have "k \<noteq> 0" by (cases k) (auto simp: live_total_def)
    show ?thesis
    proof (cases "r_key r < m_min_key m")
      case True
      with False \<open>k \<noteq> 0\<close> show ?thesis
        using inv tot all k
        by (auto simp: scan_inv_def m'_def nth_list_update less_Suc_eq intro: order_trans [OF less_imp_le])
    next
      case n: False
      with False \<open>k \<noteq> 0\<close> show ?thesis
        using inv tot all k by (auto simp: scan_inv_def m'_def nth_list_update less_Suc_eq)
    qed
  qed
qed


lemma scan_queues_inv:
  assumes "scan_inv k xss m" "mergeable xss" "k \<le> length xss"
  shows "\<exists>m'. scan_queues t [k..<length xss] m = Inr m' \<and> scan_inv (length xss) xss m' \<and> m_out m' = m_out m"
  using assms
proof (induction "length xss - k" arbitrary: k m)
  case 0
  then show ?case by simp
next
  case (Suc d)
  then have k: "k < length xss" and qs: "list_all2 dq_holds (c_queues (m_combine m)) xss"
    by (auto simp: scan_inv_def)
  obtain v where v: "queue_at (m_combine m) k = Inr v" "dq_holds v (xss ! k)" by (rule queue_holds [OF qs k])
  show ?case
  proof (cases "xss ! k")
    case Nil
    let ?m = "m\<lparr>m_allactive := False, m_live := (m_live m)[k := False], m_key := (m_key m)[k := 0]\<rparr>"
    have "scan_queues t [k..<length xss] m = scan_queues t [Suc k..<length xss] ?m"
      using v dq_holds_size [OF v(2)] Nil k by (simp add: upt_conv_Cons Let_def)
    then show ?thesis
      using Suc.hyps(1) [of "Suc k" ?m] Suc.hyps(2) scan_step_empty [OF Suc.prems(1) k Nil] Suc.prems(2) k by simp
  next
    case (Cons r rs)
    note hd = mergeable_head(1,2) [OF Suc.prems(2) k Cons]
    let ?m1 = "m\<lparr>m_live_count := m_live_count m + 1, m_live := (m_live m)[k := True],
                  m_key := (m_key m)[k := r_key r]\<rparr>"
    let ?m = "if k = 0 \<or> r_key r < m_min_key ?m1 then ?m1\<lparr>m_min_key := r_key r, m_min_queue := int k\<rparr> else ?m1"
    have "peek_queue t (m_combine m) k None (m_out m) = Inr (Some (r_key r), m_combine m, m_out m)"
      using peek_queue_front [OF qs k Cons] peek_queue_plain [OF hd(1)] by simp
    then have "scan_queues t [k..<length xss] m = scan_queues t [Suc k..<length xss] ?m"
      using v dq_holds_size [OF v(2)] Cons k by (simp add: upt_conv_Cons Let_def)
    moreover have "scan_inv (Suc k) xss ?m" by (rule scan_step_live [OF Suc.prems(1) k Cons hd(2)])
    moreover have "m_out ?m = m_out m" by simp
    ultimately show ?thesis
      using Suc.hyps(1) [of "Suc k" ?m] Suc.hyps(2) Suc.prems(2) k by simp
  qed
qed

lemma read_internal_merges:
  assumes "list_all2 dq_holds (c_queues c) xss" "mergeable xss" "perpkt_threads t = length xss" "xss \<noteq> []"
  shows "\<exists>c' out xss'. read_internal t c final = Some (Inr (c', out)) \<and>
    list_all2 dq_holds (c_queues c') xss' \<and> merged xss out xss' \<and> mergeable xss' \<and>
    [] \<in> set xss' \<and> (final \<longrightarrow> concat xss' = [])"
proof -
  have "scan_inv 0 xss (merge_start t c)"
    using assms(1,3) by (simp add: scan_inv_def merge_start_def live_total_def)
  from scan_queues_inv [OF this assms(2), of t] obtain m where m:
    "scan_queues t [0..<length xss] (merge_start t c) = Inr m" "scan_inv (length xss) xss m" "m_out m = []"
    by (auto simp: merge_start_def)
  from merge_loop_merges [OF scan_inv_merge_inv [OF m(2)] assms(2,3,4), of final] m(1,3) assms(3)
  show ?thesis by (auto simp: read_internal_def)
qed

definition ordered_result :: "u64 \<Rightarrow> int \<Rightarrow> nat libtrace_result" where
  "ordered_result k ty = \<lparr>r_key = k, r_value = 0, r_type = ty\<rparr>"

definition ordered_state :: "nat libtrace_result list list \<Rightarrow> nat deque_combine" where
  "ordered_state xss =
     \<lparr>c_queues = map (\<lambda>xs. projr (push_all libtrace_deque_push_back (libtrace_deque_init 24) xs)) xss,
      c_last_count_tick = 0, c_last_ts_tick = 0\<rparr>"

definition two_threads :: trace_conf where
  "two_threads = \<lparr>perpkt_threads = 2, reporter_thold = 1, is_parallel = False\<rparr>"

lemma ordered_state_holds: "list_all2 dq_holds (c_queues (ordered_state xss)) xss"
proof -
  have "dq_holds (projr (push_all libtrace_deque_push_back (libtrace_deque_init 24) xs)) xs"
    for xs :: "nat libtrace_result list"
  proof -
    obtain q where "push_all libtrace_deque_push_back (libtrace_deque_init 24) xs = Inr q" "dq_inv q" "dq_contents q = xs"
      using dq.push_all_back [OF dq_inv_init(1), of 24 xs] dq_inv_init(2) by (metis append_Nil)
    then show ?thesis by (simp add: dq_holds_def)
  qed
  then show ?thesis by (simp add: ordered_state_def list_all2_map1 list_all2_same)
qed

text \<open>
  Ticks disturb the merge in two ways. A queue whose front is a tick when the final read
  starts takes no part in the merge that follows, so that a result behind the tick is sent
  after results with larger keys. And a count tick that waits at the front of its queue when
  a read ends is taken for a duplicate by the next read, which drops it although it was never
  sent.
\<close>

lemma ordered_combiner_tick_breaks_order:
  "case ordered_read_final two_threads
     (ordered_state [[ordered_result 1 RESULT_TICK_INTERVAL, ordered_result 5 RESULT_PACKET],
                     [ordered_result 10 RESULT_PACKET]]) [] of
     Some (Inr (c, out)) \<Rightarrow> map r_key (filter (\<lambda>r. \<not> is_tick r) out) = [10, 5]
   | _ \<Rightarrow> False"
  by code_simp

lemma ordered_combiner_loses_tick:
  "case ordered_read two_threads (ordered_state [[ordered_result 100 RESULT_TICK_COUNT], []]) of
     Some (Inr (c, out)) \<Rightarrow> out = [] \<and>
       (case ordered_read two_threads c of
          Some (Inr (c', out')) \<Rightarrow> out' = [] \<and> map libtrace_deque_get_size (c_queues c') = [0, 0]
        | _ \<Rightarrow> False)
   | _ \<Rightarrow> False"
  by code_simp

section \<open>Properties\<close>

text \<open>
  (C7) The ordered combiner merges. When every queue is sorted by key and holds no tick (and
  no key is \<open>UINT64_MAX\<close>, nor 0 but at the front of a queue), the final read ends without a
  fault, empties every queue and sends every result exactly once in the order of the keys.
\<close>

theorem ordered_combiner_read_final:
  assumes "list_all2 dq_holds (c_queues c) xss" and "mergeable xss"
    and "perpkt_threads t = length xss" and "xss \<noteq> []"
  shows "\<exists>c' out. ordered_read_final t c [] = Some (Inr (c', out)) \<and>
    mset out = mset (concat xss) \<and> sorted (map r_key out) \<and> (\<forall>q \<in> set (c_queues c'). dq_holds q [])"
proof -
  obtain c' out xss' where r: "read_internal t c True = Some (Inr (c', out))"
    "list_all2 dq_holds (c_queues c') xss'" "merged xss out xss'" "concat xss' = []"
    using read_internal_merges [OF assms, of True] by blast
  have len: "length (c_queues c') = length xss" "xss' = replicate (length xss) []"
    using r(2-4) by (auto simp: merged_def intro!: replicate_eqI dest!: list_all2_lengthD)
  then have empty: "\<forall>q \<in> set (c_queues c'). dq_holds q []"
    using r(2) by (auto simp: list_all2_conv_all_nth in_set_conv_nth)
  then have "\<forall>q \<in> set (c_queues c'). libtrace_deque_get_size q = 0" using dq_holds_size by fastforce
  then have "length (filter (\<lambda>q. libtrace_deque_get_size q = 0) (take (perpkt_threads t) (c_queues c'))) =
      perpkt_threads t"
    using assms(3) len(1) by simp
  then have "ordered_read_final t c [] = Some (Inr (c', out))"
    using r(1) by (subst ordered_read_final.simps) simp
  then show ?thesis using empty r(3,4) by (simp add: merged_def)
qed

theorem ordered_combiner_read_final_witness:
  "\<exists>c' out. ordered_read_final two_threads
      (ordered_state [[ordered_result 1 0, ordered_result 4 0], [ordered_result 2 0]]) [] = Some (Inr (c', out)) \<and>
    mset out = {#ordered_result 1 0, ordered_result 4 0, ordered_result 2 0#} \<and> sorted (map r_key out)"
proof -
  let ?xss = "[[ordered_result 1 0, ordered_result 4 0], [ordered_result 2 0]]"
  have "mergeable ?xss" by (simp add: mergeable_def is_tick_def ordered_result_def result_types)
  from ordered_combiner_read_final [OF ordered_state_holds this, of two_threads] show ?thesis
    by (auto simp: two_threads_def)
qed

text \<open>
  Reading while the threads still run. Under the same conditions a read ends without a
  fault; what it sends is in the order of the keys, is taken from the fronts of the queues,
  has no key larger than a key left behind, and it stops only when some queue has run empty.
\<close>

theorem ordered_combiner_read:
  assumes "list_all2 dq_holds (c_queues c) xss" and "mergeable xss"
    and "perpkt_threads t = length xss" and "xss \<noteq> []"
  shows "\<exists>c' out xss'. ordered_read t c = Some (Inr (c', out)) \<and>
    list_all2 dq_holds (c_queues c') xss' \<and> list_all2 suffix xss' xss \<and>
    mset (concat xss) = mset out + mset (concat xss') \<and> sorted (map r_key out) \<and>
    (\<forall>r \<in> set out. \<forall>r' \<in> set (concat xss'). r_key r \<le> r_key r') \<and> [] \<in> set xss'"
  using read_internal_merges [OF assms, of False] unfolding ordered_read_def merged_def by blast

theorem ordered_combiner_read_witness:
  "\<exists>c' out. ordered_read two_threads
      (ordered_state [[ordered_result 1 0, ordered_result 4 0], [ordered_result 2 0]]) = Some (Inr (c', out)) \<and>
    sorted (map r_key out)"
proof -
  let ?xss = "[[ordered_result 1 0, ordered_result 4 0], [ordered_result 2 0]]"
  have "mergeable ?xss" by (simp add: mergeable_def is_tick_def ordered_result_def result_types)
  from ordered_combiner_read [OF ordered_state_holds this, of two_threads] show ?thesis
    by (auto simp: two_threads_def)
qed

end
