(* ===== verification/Byteswap.thy ===== *)
theory Byteswap
  imports Prelude
begin

text \<open>
  Byte order. The conversion routines of \<open>lib/byteswap.c\<close>, and the loads a little-endian
  host makes from packet memory. \<open>ntohs\<close> and \<open>htons\<close> are \<open>byteswap16\<close> there.
\<close>

section \<open>The routines\<close>

definition byteswap16 :: "u16 \<Rightarrow> u16" where
  "byteswap16 num = ((push_bit 8 num) AND 0xFF00) OR ((drop_bit 8 num) AND 0x00FF)"

definition byteswap32 :: "u32 \<Rightarrow> u32" where
  "byteswap32 num =
     (push_bit 24 (num AND 0x000000FF)) OR (push_bit 8 (num AND 0x0000FF00)) OR
     (drop_bit 8 (num AND 0x00FF0000)) OR (drop_bit 24 (num AND 0xFF000000))"

definition byteswap64 :: "u64 \<Rightarrow> u64" where
  "byteswap64 num =
     ucast (byteswap32 (ucast (drop_bit 32 (num AND 0xFFFFFFFF00000000)))) OR
     push_bit 32 (ucast (byteswap32 (ucast (num AND 0x00000000FFFFFFFF))))"

definition be32 :: "u8 \<Rightarrow> u8 \<Rightarrow> u8 \<Rightarrow> u8 \<Rightarrow> u32" where
  "be32 a b c d = push_bit 24 (ucast a) OR push_bit 16 (ucast b) OR push_bit 8 (ucast c) OR ucast d"

definition be64 :: "u8 \<Rightarrow> u8 \<Rightarrow> u8 \<Rightarrow> u8 \<Rightarrow> u8 \<Rightarrow> u8 \<Rightarrow> u8 \<Rightarrow> u8 \<Rightarrow> u64" where
  "be64 a b c d e f g h = push_bit 32 (ucast (be32 a b c d)) OR ucast (be32 e f g h)"

definition le16 :: "u8 \<Rightarrow> u8 \<Rightarrow> u16" where
  "le16 lo hi = be16 hi lo"

text \<open>The masks of the source as shifted blocks of ones.\<close>

lemma hex_masks16: "(0xFF00 :: u16) = push_bit 8 (mask 8)" "(0x00FF :: u16) = mask 8"
  by (simp_all add: mask_eq_exp_minus_1)

lemma hex_masks32:
  "(0x000000FF :: u32) = mask 8" "(0x0000FF00 :: u32) = push_bit 8 (mask 8)"
  "(0x00FF0000 :: u32) = push_bit 16 (mask 8)" "(0xFF000000 :: u32) = push_bit 24 (mask 8)"
  by (simp_all add: mask_eq_exp_minus_1)

lemma hex_masks64:
  "(0xFFFFFFFF00000000 :: u64) = push_bit 32 (mask 32)" "(0x00000000FFFFFFFF :: u64) = mask 32"
  by (simp_all add: mask_eq_exp_minus_1)

section \<open>Bits of a swapped word\<close>

lemma bit_byteswap16: "bit (byteswap16 w) n \<longleftrightarrow> n < 16 \<and> bit w (if n < 8 then 8 + n else n - 8)"
  unfolding byteswap16_def hex_masks16 by (auto simp: bit_simps dest: bit_imp_le_length)

lemma bit_byteswap32:
  "bit (byteswap32 w) n \<longleftrightarrow> n < 32 \<and>
     bit w (if n < 8 then 24 + n else if n < 16 then 8 + n else if n < 24 then n - 8 else n - 24)"
  unfolding byteswap32_def hex_masks32 by (auto simp: bit_simps dest: bit_imp_le_length)

lemma bit_byteswap64:
  "bit (byteswap64 w) n \<longleftrightarrow> n < 64 \<and>
     (if n < 32 then bit (byteswap32 (ucast (drop_bit 32 w))) n
      else bit (byteswap32 (ucast w)) (n - 32))"
  unfolding byteswap64_def hex_masks64
  by (auto simp: bit_simps bit_byteswap32 dest: bit_imp_le_length)

lemma bit_be16: "bit (be16 a b) n \<longleftrightarrow> n < 16 \<and> (if n < 8 then bit b n else bit a (n - 8))"
  by (auto simp: be16_def bit_simps dest: bit_imp_le_length)

lemma bit_be32:
  "bit (be32 a b c d) n \<longleftrightarrow> n < 32 \<and>
     (if n < 8 then bit d n else if n < 16 then bit c (n - 8)
      else if n < 24 then bit b (n - 16) else bit a (n - 24))"
  by (auto simp: be32_def bit_simps dest: bit_imp_le_length)

lemma byteswap16_be16: "byteswap16 (be16 a b) = be16 b a"
  by (rule bit_word_eqI) (auto simp: bit_byteswap16 bit_be16 dest: bit_imp_le_length)

lemma byteswap32_be32: "byteswap32 (be32 a b c d) = be32 d c b a"
  by (rule bit_word_eqI) (auto simp: bit_byteswap32 bit_be32 dest: bit_imp_le_length)

lemma byteswap16_involution: "byteswap16 (byteswap16 w) = w"
  by (rule bit_word_eqI) (auto simp: bit_byteswap16 dest: bit_imp_le_length)

lemma byteswap32_involution: "byteswap32 (byteswap32 w) = w"
  by (rule bit_word_eqI) (auto simp: bit_byteswap32 dest: bit_imp_le_length)

lemma ucast_be64:
  "ucast (drop_bit 32 (be64 a b c d e f g h)) = be32 a b c d" "ucast (be64 a b c d e f g h) = be32 e f g h"
  by (rule bit_word_eqI; auto simp: be64_def bit_simps bit_be32)+

lemma byteswap64_be64: "byteswap64 (be64 a b c d e f g h) = be64 h g f e d c b a"
  by (rule bit_word_eqI)
    (auto simp: bit_byteswap64 ucast_be64 byteswap32_be32 be64_def [of h] bit_simps dest: bit_imp_le_length)


lemma byteswap64_halves:
  "ucast (drop_bit 32 (byteswap64 w)) = byteswap32 (ucast w)"
  "ucast (byteswap64 w) = byteswap32 (ucast (drop_bit 32 w))"
  by (rule bit_word_eqI; auto simp: bit_byteswap64 bit_simps)+

lemma byteswap64_involution: "byteswap64 (byteswap64 w) = w"
  by (rule bit_word_eqI)
    (auto simp: bit_byteswap64 byteswap64_halves byteswap32_involution bit_simps dest: bit_imp_le_length)

section \<open>Properties\<close>

text \<open>
  The byte swapping routines reverse the bytes of a word, and applying one twice gives
  the word back.
\<close>

theorem byteswap_reverses_bytes:
  "byteswap16 (be16 a b) = be16 b a \<and>
   byteswap32 (be32 a b c d) = be32 d c b a \<and>
   byteswap64 (be64 a b c d e f g h) = be64 h g f e d c b a \<and>
   byteswap16 (byteswap16 x) = x \<and> byteswap32 (byteswap32 y) = y \<and> byteswap64 (byteswap64 z) = z"
  by (simp add: byteswap16_be16 byteswap32_be32 byteswap64_be64 byteswap16_involution
      byteswap32_involution byteswap64_involution)

end
