(* ===== verification/Checksum.thy ===== *)
theory Checksum
  imports Byteswap
begin

text \<open>
  The Internet checksum of \<open>lib/checksum.c\<close>, on a little-endian host: 16-bit fields are added
  as the host loads them from the packet.
\<close>

section \<open>The routines\<close>

definition ld16 :: "pktmem \<Rightarrow> ptr \<Rightarrow> u16 res" where
  "ld16 m p = bindr (rd8 m p) (\<lambda>lo. bindr (rd8 m (p + 1)) (\<lambda>hi. Inr (le16 lo hi)))"

fun add_checksum_loop :: "pktmem \<Rightarrow> ptr \<Rightarrow> nat \<Rightarrow> u32 \<Rightarrow> u32 res" where
  "add_checksum_loop m buff (Suc (Suc count)) acc =
     bindr (ld16 m buff) (\<lambda>val. add_checksum_loop m (buff + 2) count (acc + ucast val))"
| "add_checksum_loop m buff (Suc 0) acc = bindr (rd8 m buff) (\<lambda>b. Inr (acc + ucast b))"
| "add_checksum_loop m buff 0 acc = Inr acc"

definition add_checksum :: "pktmem \<Rightarrow> ptr \<Rightarrow> u16 \<Rightarrow> u32 res" where
  "add_checksum m buffer len = add_checksum_loop m buffer (unat len) 0"

function fold_checksum :: "u32 \<Rightarrow> u32" where
  "fold_checksum acc =
     (if drop_bit 16 acc \<noteq> 0 then fold_checksum ((acc AND 0xffff) + drop_bit 16 acc) else acc)"
  by auto

lemma unat_fold_step: "unat ((s AND 0xffff) + drop_bit 16 s :: u32) = unat s mod 65536 + unat s div 65536"
proof -
  have "s AND 0xffff = take_bit 16 s" by (simp add: take_bit_eq_mask mask_eq_exp_minus_1)
  then have "unat (s AND 0xffff) = unat s mod 65536" by (simp add: take_bit_eq_mod unat_mod)
  moreover have "unat (drop_bit 16 s) = unat s div 65536" by (simp add: drop_bit_eq_div unat_div)
  moreover have "unat s mod 65536 + unat s div 65536 < 2 ^ 32"
    using unsigned_less [of s, where 'a = nat] mod_less_divisor [of 65536 "unat s"] by simp
  ultimately show ?thesis by (simp add: unat_word_ariths)
qed

lemma fold_step_less: "drop_bit 16 s \<noteq> (0 :: u32) \<Longrightarrow> unat s mod 65536 + unat s div 65536 < unat s"
proof -
  assume "drop_bit 16 s \<noteq> (0 :: u32)"
  then have "unat (drop_bit 16 s) \<noteq> 0" using unsigned_eq_0_iff by blast
  then have "unat s div 65536 \<noteq> 0" by (simp add: drop_bit_eq_div unat_div)
  moreover have "unat s = 65536 * (unat s div 65536) + unat s mod 65536" by simp
  ultimately show ?thesis by linarith
qed

termination fold_checksum
  by (relation "measure unat") (simp_all add: unat_fold_step fold_step_less)

definition finish_checksum :: "u32 \<Rightarrow> u16" where
  "finish_checksum acc = ucast (NOT (fold_checksum acc))"

definition checksum_buffer :: "pktmem \<Rightarrow> ptr \<Rightarrow> u16 \<Rightarrow> u16 res" where
  "checksum_buffer m buffer len = bindr (add_checksum m buffer len) (\<lambda>acc. Inr (finish_checksum acc))"

text \<open>
  The header is at offset \<open>ip\<close>. A local variable \<open>temp\<close> is a two-byte memory of its own, in
  which the host stores the value with the low byte first.
\<close>

definition host16 :: "u16 \<Rightarrow> pktmem" where
  "host16 w = [ucast w, ucast (drop_bit 8 w)]"

definition htons :: "u16 \<Rightarrow> u16" where
  "htons = byteswap16"

definition ipv4_pseudo_checksum :: "pktmem \<Rightarrow> ptr \<Rightarrow> u32 res" where
  "ipv4_pseudo_checksum m ip =
     bindr (add_checksum m (ip + 12) 4) (\<lambda>s1.
     bindr (add_checksum m (ip + 16) 4) (\<lambda>s2.
     bindr (rd8 m (ip + 9)) (\<lambda>ip_p.
     bindr (add_checksum (host16 (htons (ucast ip_p))) 0 2) (\<lambda>s3.
     bindr (rd16 m (ip + 2)) (\<lambda>ip_len.
     bindr (rd8 m ip) (\<lambda>vhl.
     bindr (add_checksum (host16 (htons (ip_len - ucast (vhl AND 0x0f) * 4))) 0 2) (\<lambda>s4.
     Inr (s1 + s2 + s3 + s4))))))))"

definition ipv6_pseudo_checksum :: "pktmem \<Rightarrow> ptr \<Rightarrow> u32 res" where
  "ipv6_pseudo_checksum m ip =
     bindr (add_checksum m (ip + 8) 16) (\<lambda>s1.
     bindr (add_checksum m (ip + 24) 16) (\<lambda>s2.
     bindr (ld16 m (ip + 4)) (\<lambda>plen.
     bindr (add_checksum (host16 plen) 0 2) (\<lambda>s3.
     bindr (rd8 m (ip + 6)) (\<lambda>nxt.
     bindr (add_checksum (host16 (htons (ucast nxt))) 0 2) (\<lambda>s4.
     Inr (s1 + s2 + s3 + s4)))))))"

section \<open>The sum\<close>

text \<open>The value of a byte string read as little-endian 16-bit digits, the last one padded.\<close>

fun byte_sum :: "u8 list \<Rightarrow> nat" where
  "byte_sum (a # b # bs) = unat a + 256 * unat b + byte_sum bs"
| "byte_sum [a] = unat a"
| "byte_sum [] = 0"

lemma unat_le16: "unat (le16 a b) = unat a + 256 * unat b"
proof -
  have ab: "unat a < 256" "unat b < 256" using unsigned_less [of a, where 'a = nat] unsigned_less [of b, where 'a = nat] by simp_all
  have "be16 b a = push_bit 8 (ucast b) + ucast a"
    unfolding be16_def by (rule disjunctive_add [symmetric]) (auto simp: bit_simps dest: bit_imp_le_length)
  moreover have "unat (push_bit 8 (ucast b) :: u16) = 256 * unat b"
    using ab by (simp add: unsigned_ucast_eq push_bit_eq_mult take_bit_eq_mod unat_word_ariths)
  moreover have "unat (ucast a :: u16) = unat a" using ab by (simp add: unsigned_ucast_eq take_bit_eq_mod)
  ultimately show ?thesis using ab by (simp add: le16_def unat_word_ariths)
qed

lemma byte_sum_bound: "2 * byte_sum bs \<le> 65535 * (length bs + 1)"
proof (induction bs rule: byte_sum.induct)
  case (1 a b bs)
  have "unat a < 256" "unat b < 256" using unsigned_less [of a, where 'a = nat] unsigned_less [of b, where 'a = nat] by simp_all
  with 1 show ?case by simp
next
  case (2 a)
  then show ?case using unsigned_less [of a, where 'a = nat] by simp
qed simp


lemma ld16_Inr: "p + 1 < length m \<Longrightarrow> ld16 m p = Inr (le16 (m ! p) (m ! (p + 1)))"
  by (simp add: ld16_def)

lemma add_checksum_loop_sum:
  assumes "p + n \<le> length m" "unat acc + byte_sum (take n (drop p m)) < 2 ^ 32"
  shows "\<exists>s. add_checksum_loop m p n acc = Inr s \<and> unat s = unat acc + byte_sum (take n (drop p m))"
  using assms
proof (induction m p n acc rule: add_checksum_loop.induct)
  case (1 m p n acc)
  have d: "drop p m = m ! p # m ! (p + 1) # drop (p + 2) m"
    using 1(2) by (simp add: Cons_nth_drop_Suc [symmetric])
  let ?w = "le16 (m ! p) (m ! (p + 1))"
  have w: "unat (acc + ucast ?w) = unat acc + unat ?w" "unat ?w = unat (m ! p) + 256 * unat (m ! (p + 1))"
    using 1(3) unat_le16 [of "m ! p" "m ! (p + 1)"]
    by (simp_all add: d unat_word_ariths unsigned_ucast_eq take_bit_eq_mod)
  then show ?case using 1(1) [of ?w] 1(2,3) by (simp add: d ld16_Inr add.assoc)
next
  case (2 m p acc)
  then have d: "drop p m = m ! p # drop (Suc p) m" by (simp add: Cons_nth_drop_Suc)
  then show ?case using 2 unsigned_less [of "m ! p", where 'a = nat]
    by (simp add: unat_word_ariths unsigned_ucast_eq take_bit_eq_mod)
qed simp

lemma add_checksum_sum:
  assumes "p + unat len \<le> length m"
  shows "\<exists>s. add_checksum m p len = Inr s \<and> unat s = byte_sum (take (unat len) (drop p m))"
proof -
  have "unat len < 65536" using unsigned_less [of len, where 'a = nat] by simp
  then have "byte_sum (take (unat len) (drop p m)) < 2 ^ 32"
    using byte_sum_bound [of "take (unat len) (drop p m)"] by simp
  then show ?thesis using add_checksum_loop_sum [OF assms, of 0] by (simp add: add_checksum_def)
qed

section \<open>Folding the carries\<close>

declare fold_checksum.simps [simp del]

lemma fold_checksum_small: "unat s < 65536 \<Longrightarrow> fold_checksum s = s"
proof -
  assume "unat s < 65536"
  then have "unat (drop_bit 16 s) = 0" by (simp add: drop_bit_eq_div unat_div)
  then have "drop_bit 16 s = 0" using unsigned_eq_0_iff by blast
  then show ?thesis by (simp add: fold_checksum.simps)
qed

definition ones_sum :: "nat \<Rightarrow> nat" where
  "ones_sum n = (if n = 0 then 0 else if n mod 65535 = 0 then 65535 else n mod 65535)"

lemma ones_sum_small:
  assumes "n < 65536"
  shows "ones_sum n = n"
proof (cases "n = 65535")
  case False
  then have "n < 65535" using assms by simp
  then show ?thesis by (simp add: ones_sum_def)
qed (simp add: ones_sum_def)

lemma ones_sum_fold: "ones_sum (n mod 65536 + n div 65536) = ones_sum n"
proof -
  have d: "n = 65536 * (n div 65536) + n mod 65536" by simp
  then have "n = (n mod 65536 + n div 65536) + 65535 * (n div 65536)" by linarith
  then have "n mod 65535 = (n mod 65536 + n div 65536) mod 65535" by (metis mod_mult_self2)
  moreover have "n mod 65536 + n div 65536 = 0 \<longleftrightarrow> n = 0" using d by linarith
  ultimately show ?thesis by (simp add: ones_sum_def)
qed

lemma unat_fold_checksum: "unat (fold_checksum s) = ones_sum (unat s)"
proof (induction s rule: fold_checksum.induct)
  case (1 s)
  show ?case
  proof (cases "drop_bit 16 s = 0")
    case True
    then have "unat (drop_bit 16 s) = 0" by simp
    then have "unat s div 65536 = 0" by (simp add: drop_bit_eq_div unat_div)
    then have "unat s < 65536" by (simp add: div_eq_0_iff)
    then show ?thesis by (simp add: fold_checksum_small ones_sum_small)
  next
    case False
    then have "fold_checksum s = fold_checksum ((s AND 0xffff) + drop_bit 16 s)"
      by (subst fold_checksum.simps) simp
    then show ?thesis using 1 [OF False] unat_fold_step [of s] ones_sum_fold by metis
  qed
qed

lemma ones_sum_le: "ones_sum n \<le> 65535"
  by (simp add: ones_sum_def)

lemma ones_sum_complement: "ones_sum (n + (65535 - ones_sum n)) = 65535"
proof (cases "n mod 65535 = 0")
  case True
  then show ?thesis by (simp add: ones_sum_def)
next
  case False
  then have "n \<noteq> 0" by auto
  then have "ones_sum n = n mod 65535" using False by (simp add: ones_sum_def)
  moreover have "n = 65535 * (n div 65535) + n mod 65535" "n mod 65535 < 65535" by simp_all
  ultimately obtain q r where qr: "n = 65535 * q + r" "r < 65535" "ones_sum n = r" by blast
  have "n + (65535 - ones_sum n) = 65535 * (q + 1)" unfolding qr(3) using qr(1,2) by simp
  then have "(n + (65535 - ones_sum n)) mod 65535 = 0" "n + (65535 - ones_sum n) \<noteq> 0"
    by (simp_all only: mod_mult_self1_is_0) simp
  then show ?thesis unfolding ones_sum_def [of "n + (65535 - ones_sum n)"] by simp
qed

lemma unat_not16: "unat (NOT w :: u16) = 65535 - unat w"
proof -
  have "take_bit 16 (uint w) = uint w"
    by (rule take_bit_int_eq_self) (use unsigned_less [of w, where 'a = int] in simp_all)
  then have "uint (NOT w) = 65535 - uint w"
    by (simp add: unsigned_not_eq take_bit_not_eq_mask_diff mask_eq_exp_minus_1)
  then have "int (unat (NOT w)) = 65535 - int (unat w)" by simp
  then show ?thesis by linarith
qed

lemma unat_finish_checksum: "unat (finish_checksum s) = 65535 - ones_sum (unat s)"
proof -
  have small: "unat (fold_checksum s) < 65536" using ones_sum_le [of "unat s"] by (simp add: unat_fold_checksum)
  have "finish_checksum s = NOT (ucast (fold_checksum s))"
    unfolding finish_checksum_def by (rule bit_word_eqI) (auto simp: bit_simps)
  moreover have "unat (ucast (fold_checksum s) :: u16) = unat (fold_checksum s)"
    using small by (simp add: unsigned_ucast_eq take_bit_eq_mod)
  ultimately show ?thesis
    by (simp add: unat_not16 unat_fold_checksum)
qed


section \<open>Stored fields\<close>

lemma be16_split: "be16 (ucast (drop_bit 8 w)) (ucast w) = w"
  by (rule bit_word_eqI) (auto simp: bit_be16 bit_simps dest: bit_imp_le_length)

lemma byte_sum_host16: "byte_sum (host16 w) = unat w"
  using be16_split [of w] unat_le16 [of "ucast w" "ucast (drop_bit 8 w)"] by (simp add: host16_def le16_def)

lemma byte_sum_htons: "byte_sum (host16 (htons w)) = byte_sum [ucast (drop_bit 8 w), ucast w]"
proof -
  have "htons w = le16 (ucast (drop_bit 8 w)) (ucast w)"
    using byteswap16_be16 [of "ucast (drop_bit 8 w)" "ucast w"] by (simp add: be16_split htons_def le16_def)
  then show ?thesis by (simp add: byte_sum_host16 unat_le16)
qed

lemma byte_sum_append: "even (length xs) \<Longrightarrow> byte_sum (xs @ ys) = byte_sum xs + byte_sum ys"
  by (induction xs rule: byte_sum.induct) auto

lemma add_checksum_host16: "\<exists>s. add_checksum (host16 w) 0 2 = Inr s \<and> unat s = byte_sum (host16 w)"
  using add_checksum_sum [of 0 2 "host16 w"] by (simp add: host16_def)

lemma unat_sum4:
  fixes s1 s2 s3 s4 :: u32
  assumes "unat s1 + unat s2 + unat s3 + unat s4 < 2 ^ 32"
  shows "unat (s1 + s2 + s3 + s4) = unat s1 + unat s2 + unat s3 + unat s4"
  using assms by (simp add: unat_word_ariths)

lemma byte_sum_take_bound: "byte_sum (take k xs) \<le> 65535 * (k + 1)"
  using byte_sum_bound [of "take k xs"] by (simp add: min_def split: if_splits)

lemma byte_sum_proto: "byte_sum (host16 (htons (ucast b))) = byte_sum [0, b :: u8]"
proof -
  have "(ucast (drop_bit 8 (ucast b :: u16)) :: u8) = 0" "(ucast (ucast b :: u16) :: u8) = b"
    by (rule bit_word_eqI; auto simp: bit_simps dest: bit_imp_le_length)+
  then show ?thesis by (simp add: byte_sum_htons)
qed

lemma byte_sum_2_bound: "byte_sum [a, b] < 65536"
  using unat_le16 [of a b] unsigned_less [of "le16 a b", where 'a = nat] by simp

lemma ipv4_pseudo_sum:
  assumes "ip + 20 \<le> length m"
  defines "len \<equiv> be16 (m ! (ip + 2)) (m ! (ip + 3)) - ucast (m ! ip AND 0x0f) * 4"
  shows "\<exists>s. ipv4_pseudo_checksum m ip = Inr s \<and>
    unat s = byte_sum (take 4 (drop (ip + 12) m)) + byte_sum (take 4 (drop (ip + 16) m)) +
      byte_sum [0, m ! (ip + 9), ucast (drop_bit 8 len), ucast len]"
proof -
  obtain s1 where s1: "add_checksum m (ip + 12) 4 = Inr s1" "unat s1 = byte_sum (take 4 (drop (ip + 12) m))"
    using add_checksum_sum [of "ip + 12" 4 m] assms(1) by auto
  obtain s2 where s2: "add_checksum m (ip + 16) 4 = Inr s2" "unat s2 = byte_sum (take 4 (drop (ip + 16) m))"
    using add_checksum_sum [of "ip + 16" 4 m] assms(1) by auto
  obtain s3 where s3: "add_checksum (host16 (htons (ucast (m ! (ip + 9))))) 0 2 = Inr s3"
    "unat s3 = byte_sum [0, m ! (ip + 9)]"
    using add_checksum_host16 byte_sum_proto by metis
  obtain s4 where s4: "add_checksum (host16 (htons len)) 0 2 = Inr s4"
    "unat s4 = byte_sum [ucast (drop_bit 8 len), ucast len]"
    using add_checksum_host16 byte_sum_htons by metis
  have "unat s1 + unat s2 + unat s3 + unat s4 < 2 ^ 32"
    using byte_sum_take_bound [of 4 "drop (ip + 12) m"] byte_sum_take_bound [of 4 "drop (ip + 16) m"]
      byte_sum_2_bound [of 0 "m ! (ip + 9)"] byte_sum_2_bound [of "ucast (drop_bit 8 len)" "ucast len"]
      s1(2) s2(2) s3(2) s4(2) by simp
  then have sum: "unat (s1 + s2 + s3 + s4) = unat s1 + unat s2 + unat s3 + unat s4" by (rule unat_sum4)
  have e: "ip + 3 = ip + 2 + 1" by simp
  have "rd16 m (ip + 2) = Inr (be16 (m ! (ip + 2)) (m ! (ip + 3)))"
    unfolding e by (rule rd16_Inr) (use assms(1) in simp)
  moreover have "rd8 m (ip + 9) = Inr (m ! (ip + 9))" "rd8 m ip = Inr (m ! ip)" using assms(1) by simp_all
  ultimately have "ipv4_pseudo_checksum m ip = Inr (s1 + s2 + s3 + s4)"
    using s1(1) s2(1) s3(1) s4(1) by (simp add: ipv4_pseudo_checksum_def len_def)
  then show ?thesis using sum s1(2) s2(2) s3(2) s4(2) by simp
qed

lemma ipv6_pseudo_sum:
  assumes "ip + 40 \<le> length m"
  shows "\<exists>s. ipv6_pseudo_checksum m ip = Inr s \<and>
    unat s = byte_sum (take 16 (drop (ip + 8) m)) + byte_sum (take 16 (drop (ip + 24) m)) +
      byte_sum [m ! (ip + 4), m ! (ip + 5), 0, m ! (ip + 6)]"
proof -
  obtain s1 where s1: "add_checksum m (ip + 8) 16 = Inr s1" "unat s1 = byte_sum (take 16 (drop (ip + 8) m))"
    using add_checksum_sum [of "ip + 8" 16 m] assms(1) by auto
  obtain s2 where s2: "add_checksum m (ip + 24) 16 = Inr s2" "unat s2 = byte_sum (take 16 (drop (ip + 24) m))"
    using add_checksum_sum [of "ip + 24" 16 m] assms(1) by auto
  let ?plen = "le16 (m ! (ip + 4)) (m ! (ip + 5))"
  obtain s3 where s3: "add_checksum (host16 ?plen) 0 2 = Inr s3" "unat s3 = byte_sum [m ! (ip + 4), m ! (ip + 5)]"
    using add_checksum_host16 [of ?plen] byte_sum_host16 [of ?plen] unat_le16 by auto
  obtain s4 where s4: "add_checksum (host16 (htons (ucast (m ! (ip + 6))))) 0 2 = Inr s4"
    "unat s4 = byte_sum [0, m ! (ip + 6)]"
    using add_checksum_host16 byte_sum_proto by metis
  have "unat s1 + unat s2 + unat s3 + unat s4 < 2 ^ 32"
    using byte_sum_take_bound [of 16 "drop (ip + 8) m"] byte_sum_take_bound [of 16 "drop (ip + 24) m"]
      byte_sum_2_bound [of 0 "m ! (ip + 6)"] byte_sum_2_bound [of "m ! (ip + 4)" "m ! (ip + 5)"]
      s1(2) s2(2) s3(2) s4(2) by simp
  then have sum: "unat (s1 + s2 + s3 + s4) = unat s1 + unat s2 + unat s3 + unat s4" by (rule unat_sum4)
  have e: "ip + 5 = ip + 4 + 1" by simp
  have "ld16 m (ip + 4) = Inr ?plen" unfolding e by (rule ld16_Inr) (use assms in simp)
  moreover have "rd8 m (ip + 6) = Inr (m ! (ip + 6))" using assms by simp
  ultimately have "ipv6_pseudo_checksum m ip = Inr (s1 + s2 + s3 + s4)"
    using s1(1) s2(1) s3(1) s4(1) by (simp add: ipv6_pseudo_checksum_def)
  then show ?thesis using sum s1(2) s2(2) s3(2) s4(2) by simp
qed

lemma checksum_whole:
  assumes "n = length bs" "n < 65536"
  shows "\<exists>c. checksum_buffer bs 0 (of_nat n) = Inr c \<and> unat c = 65535 - ones_sum (byte_sum bs)"
proof -
  have n: "unat (of_nat n :: u16) = n" using assms(2) by (simp add: unat_of_nat)
  then obtain s where "add_checksum bs 0 (of_nat n) = Inr s" "unat s = byte_sum bs"
    using add_checksum_sum [of 0 "of_nat n" bs] assms(1) unfolding n by auto
  then show ?thesis using unat_finish_checksum [of s] by (simp add: checksum_buffer_def)
qed

lemma checksum_store:
  assumes "even (length pre)" and "n = length pre + 2 + length post" and "n < 65536"
  shows "\<exists>c. checksum_buffer (pre @ [0, 0] @ post) 0 (of_nat n) = Inr c \<and>
    checksum_buffer (pre @ host16 c @ post) 0 (of_nat n) = Inr 0"
proof -
  obtain c where c: "checksum_buffer (pre @ [0, 0] @ post) 0 (of_nat n) = Inr c"
    "unat c = 65535 - ones_sum (byte_sum (pre @ [0, 0] @ post))"
    using checksum_whole [of n "pre @ [0, 0] @ post"] assms(2,3) unfolding length_append by auto
  let ?s = "byte_sum pre + byte_sum post"
  have "byte_sum (pre @ host16 c @ post) = ?s + unat c"
    using byte_sum_host16 [of c] by (simp add: byte_sum_append assms(1) host16_def)
  moreover have "length (host16 c) = 2" by (simp add: host16_def)
  ultimately obtain z where z: "checksum_buffer (pre @ host16 c @ post) 0 (of_nat n) = Inr z"
    "unat z = 65535 - ones_sum (?s + unat c)"
    using checksum_whole [of n "pre @ host16 c @ post"] assms(2,3) unfolding length_append by auto
  have "unat c = 65535 - ones_sum ?s" using c(2) by (simp add: byte_sum_append assms(1))
  then have "ones_sum (?s + unat c) = 65535" using ones_sum_complement [of ?s] by simp
  then have "z = 0" using z(2) by (simp add: unsigned_eq_0_iff)
  then show ?thesis using c(1) z(1) by blast
qed

lemma checksum_take:
  assumes "unat len \<le> length m"
  shows "checksum_buffer m 0 len = checksum_buffer (take (unat len) m) 0 len"
  using add_checksum_sum [of 0 len m] add_checksum_sum [of 0 len "take (unat len) m"] assms
  by (auto simp: checksum_buffer_def word_unat_eq_iff unat_finish_checksum)

section \<open>Properties\<close>

text \<open>
  (C13) The checksum of a buffer is the one's complement of the one's complement sum of its
  16-bit words, a last odd byte padded with zero. The 32-bit accumulator never overflows, the
  loop that folds the carries ends, and no byte outside the buffer is read.
\<close>

theorem checksum_buffer_correct:
  assumes "p + unat len \<le> length m"
  shows "\<exists>c. checksum_buffer m p len = Inr c \<and>
    unat c = 65535 - ones_sum (byte_sum (take (unat len) (drop p m)))"
  using add_checksum_sum [OF assms] unat_finish_checksum by (auto simp: checksum_buffer_def)

theorem checksum_buffer_correct_witness:
  "\<exists>c. checksum_buffer [1, 2, 3] 0 3 = Inr c \<and> unat c = 65535 - ones_sum (1 + 256 * 2 + 3)"
  using checksum_buffer_correct [of 0 3 "[1, 2, 3]"] by (simp add: ones_sum_def)

text \<open>
  (C12) A checksum verifies. Storing the checksum of a buffer in a field of the buffer that
  was zero when it was computed (at an even offset, as in the IP, TCP and UDP headers) gives
  a buffer whose checksum is zero.
\<close>

theorem checksum_verifies:
  assumes "even (length pre)" and "n = length pre + 2 + length post" and "n < 65536"
  shows "\<exists>c. checksum_buffer (pre @ [0, 0] @ post) 0 (of_nat n) = Inr c \<and>
    checksum_buffer (pre @ host16 c @ post) 0 (of_nat n) = Inr 0"
  using assms by (rule checksum_store)

theorem checksum_verifies_witness:
  "\<exists>c. checksum_buffer ([0x45, 0] @ [0, 0] @ [7]) 0 5 = Inr c \<and>
     checksum_buffer ([0x45, 0] @ host16 c @ [7]) 0 5 = Inr 0"
  using checksum_verifies [of "[0x45, 0]" 5 "[7]"] by simp

text \<open>
  The pseudo-header sums. For an IPv4 header that lies inside the packet, the sum is
  that of the pseudo-header: source and destination address, a zero byte and the protocol, and
  the length of the payload; for an IPv6 header it is the sum of both addresses, the payload
  length field, and the next header behind a zero byte.
\<close>

theorem pseudo_checksums:
  assumes "ip + 20 \<le> length m" and "ip6 + 40 \<le> length m"
    and "len = be16 (m ! (ip + 2)) (m ! (ip + 3)) - ucast (m ! ip AND 0x0f) * 4"
  shows "\<exists>s s6. ipv4_pseudo_checksum m ip = Inr s \<and>
      unat s = byte_sum (take 4 (drop (ip + 12) m)) + byte_sum (take 4 (drop (ip + 16) m)) +
        byte_sum [0, m ! (ip + 9), ucast (drop_bit 8 len), ucast len] \<and>
      ipv6_pseudo_checksum m ip6 = Inr s6 \<and>
      unat s6 = byte_sum (take 16 (drop (ip6 + 8) m)) + byte_sum (take 16 (drop (ip6 + 24) m)) +
        byte_sum [m ! (ip6 + 4), m ! (ip6 + 5), 0, m ! (ip6 + 6)]"
  using ipv4_pseudo_sum [OF assms(1)] ipv6_pseudo_sum [OF assms(2)] assms(3) by blast

theorem pseudo_checksums_witness:
  "\<exists>s. ipv4_pseudo_checksum (replicate 40 1) 0 = Inr s"
  using pseudo_checksums [of 0 "replicate 40 1" 0] by auto

end
