(* ===== verification/C_String.thy ===== *)
theory C_String
  imports Prelude "HOL-Library.Sublist"
begin

text \<open>
  The string functions of the C library that the sources use, on strings without the
  terminating zero: \<open>strtok\<close>, \<open>strtoll\<close>, \<open>strncmp\<close>, \<open>sscanf\<close> for a \<open>key=value\<close> pair, \<open>fgets\<close>, and
  \<open>strncpy\<close> into a buffer of fixed size. Printing in decimal is defined for the statements about
  round trips.
\<close>

section \<open>Characters\<close>

abbreviation (input) code_of :: "char \<Rightarrow> nat" where
  "code_of c \<equiv> of_char c"

definition isspace_c :: "char \<Rightarrow> bool" where
  "isspace_c c \<longleftrightarrow> code_of c = 32 \<or> 9 \<le> code_of c \<and> code_of c \<le> 13"

definition isdigit_c :: "char \<Rightarrow> bool" where
  "isdigit_c c \<longleftrightarrow> 48 \<le> code_of c \<and> code_of c \<le> 57"

definition isupper_c :: "char \<Rightarrow> bool" where
  "isupper_c c \<longleftrightarrow> 65 \<le> code_of c \<and> code_of c \<le> 90"

definition toupper_c :: "char \<Rightarrow> char" where
  "toupper_c c = (if 97 \<le> code_of c \<and> code_of c \<le> 122 then char_of (code_of c - 32) else c)"

definition digit_char :: "nat \<Rightarrow> char" where
  "digit_char d = char_of (48 + d)"

lemma code_digit_char [simp]: "d < 10 \<Longrightarrow> code_of (digit_char d) = 48 + d"
  by (simp add: digit_char_def)

lemma isdigit_digit_char [simp]: "d < 10 \<Longrightarrow> isdigit_c (digit_char d)"
  by (simp add: isdigit_c_def)

section \<open>Comparing and splitting\<close>

text \<open>Whether \<open>strncmp (a, b, n) = 0\<close>.\<close>

definition strncmp_eq :: "string \<Rightarrow> string \<Rightarrow> nat \<Rightarrow> bool" where
  "strncmp_eq a b n \<longleftrightarrow> take n a = take n b"

lemma strncmp_eq_short: "length a \<le> n \<Longrightarrow> length b \<le> n \<Longrightarrow> strncmp_eq a b n \<longleftrightarrow> a = b"
  by (simp add: strncmp_eq_def)

text \<open>The tokens that successive calls of \<open>strtok\<close> return; \<open>d\<close> holds of the delimiters.\<close>

function strtok :: "(char \<Rightarrow> bool) \<Rightarrow> string \<Rightarrow> string list" where
  "strtok d s =
     (case dropWhile d s of
        [] \<Rightarrow> []
      | c # t \<Rightarrow> (c # takeWhile (\<lambda>c. \<not> d c) t) # strtok d (dropWhile (\<lambda>c. \<not> d c) t))"
  by pat_completeness auto
termination
proof (relation "measure (\<lambda>(d, s). length s)")
  fix d :: "char \<Rightarrow> bool" and s c t
  assume "dropWhile d s = c # t"
  then have "length (c # t) \<le> length s" by (metis length_dropWhile_le)
  moreover have "length (dropWhile (\<lambda>c. \<not> d c) t) \<le> length t" by (rule length_dropWhile_le)
  ultimately show "((d, dropWhile (\<lambda>c. \<not> d c) t), d, s) \<in> measure (\<lambda>(d, s). length s)" by simp
qed simp

declare strtok.simps [simp del]

lemma strtok_Nil [simp]: "strtok d [] = []"
  by (simp add: strtok.simps)

lemma strtok_delim [simp]: "d c \<Longrightarrow> strtok d (c # s) = strtok d s"
  by (simp add: strtok.simps)

lemma strtok_token:
  assumes "w \<noteq> []" "\<And>c. c \<in> set w \<Longrightarrow> \<not> d c" "s = [] \<or> d (hd s)"
  shows "strtok d (w @ s) = w # strtok d s"
proof -
  obtain c t where w: "w = c # t" using assms(1) by (cases w) auto
  have "takeWhile (\<lambda>c. \<not> d c) (t @ s) = t" "dropWhile (\<lambda>c. \<not> d c) (t @ s) = s"
    using assms(2,3) unfolding w by (cases s; simp)+
  moreover have "dropWhile d (w @ s) = c # t @ s" using assms(2) unfolding w by simp
  ultimately show ?thesis unfolding w by (subst strtok.simps) simp
qed

text \<open>Words separated by a delimiter.\<close>

fun sep_by :: "char \<Rightarrow> string list \<Rightarrow> string" where
  "sep_by c [] = []"
| "sep_by c [w] = w"
| "sep_by c (w # v # ws) = w @ c # sep_by c (v # ws)"

lemma strtok_sep_by:
  assumes "d c" "\<And>w. w \<in> set ws \<Longrightarrow> w \<noteq> [] \<and> (\<forall>x\<in>set w. \<not> d x)"
  shows "strtok d (sep_by c ws) = ws"
  using assms(2)
proof (induction ws rule: induct_list012)
  case (2 w)
  then show ?case using strtok_token [of w d "[]"] by simp
next
  case (3 w v ws)
  moreover have "strtok d (w @ c # sep_by c (v # ws)) = w # strtok d (c # sep_by c (v # ws))"
    by (rule strtok_token) (use 3 assms(1) in auto)
  moreover have "strtok d (sep_by c (v # ws)) = v # ws" by (rule 3) (use "3.prems" in auto)
  ultimately show ?case using assms(1) by simp
qed simp

text \<open>\<open>sscanf (s, "%99[^=]=%99s", key, value)\<close>, when it converts both.\<close>

definition sscanf_key_value :: "string \<Rightarrow> (string \<times> string) option" where
  "sscanf_key_value s =
     (let key = take 99 (takeWhile (\<lambda>c. c \<noteq> CHR ''='') s) in
      if key = [] then None
      else case drop (length key) s of
        [] \<Rightarrow> None
      | c # t \<Rightarrow>
          if c = CHR ''='' then
            (let v = take 99 (takeWhile (\<lambda>c. \<not> isspace_c c) (dropWhile isspace_c t)) in
             if v = [] then None else Some (key, v))
          else None)"

lemma sscanf_pair:
  assumes "key \<noteq> []" "length key \<le> 99" "CHR ''='' \<notin> set key"
    "v \<noteq> []" "length v \<le> 99" "\<And>c. c \<in> set v \<Longrightarrow> \<not> isspace_c c" "rest = [] \<or> isspace_c (hd rest)"
  shows "sscanf_key_value (key @ CHR ''='' # v @ rest) = Some (key, v)"
proof -
  have "takeWhile (\<lambda>c. c \<noteq> CHR ''='') (key @ CHR ''='' # v @ rest) = key"
    using assms(3) by (simp add: takeWhile_append)
  moreover have "dropWhile isspace_c (v @ rest) = v @ rest"
    using assms(4,6) by (cases v) simp_all
  moreover have "takeWhile (\<lambda>c. \<not> isspace_c c) (v @ rest) = v"
    using assms(6,7) by (cases rest) (simp_all add: takeWhile_append)
  ultimately show ?thesis using assms by (simp add: sscanf_key_value_def Let_def)
qed

section \<open>Numbers\<close>

definition dec_value :: "string \<Rightarrow> int" where
  "dec_value s = foldl (\<lambda>v c. v * 10 + (int (code_of c) - 48)) 0 s"

definition clamp_ll :: "int \<Rightarrow> int" where
  "clamp_ll v = max (- (2 ^ 63)) (min (2 ^ 63 - 1) v)"

text \<open>\<open>strtoll (s, NULL, 10)\<close>: the value saturates, and is 0 where there is no number.\<close>

definition strtoll :: "string \<Rightarrow> int" where
  "strtoll s =
     (case dropWhile isspace_c s of
        [] \<Rightarrow> 0
      | c # t \<Rightarrow>
          if c = CHR ''-'' then clamp_ll (- dec_value (takeWhile isdigit_c t))
          else if c = CHR ''+'' then clamp_ll (dec_value (takeWhile isdigit_c t))
          else clamp_ll (dec_value (takeWhile isdigit_c (c # t))))"

fun show_dec :: "nat \<Rightarrow> string" where
  "show_dec n = (if n < 10 then [digit_char n] else show_dec (n div 10) @ [digit_char (n mod 10)])"

declare show_dec.simps [simp del]

lemma show_dec_not_Nil [simp]: "show_dec n \<noteq> []"
  by (subst show_dec.simps) simp

lemma show_dec_digits: "c \<in> set (show_dec n) \<Longrightarrow> isdigit_c c"
  by (induction n rule: show_dec.induct) (subst (asm) (2) show_dec.simps, auto split: if_splits)

lemma dec_value_show [simp]: "dec_value (show_dec n) = int n"
proof (induction n rule: show_dec.induct)
  case (1 n)
  show ?case
  proof (cases "n < 10")
    case True
    then show ?thesis by (subst show_dec.simps) (simp add: dec_value_def)
  next
    case False
    then have "dec_value (show_dec n) = dec_value (show_dec (n div 10)) * 10 + int (n mod 10)"
      by (subst show_dec.simps) (simp add: dec_value_def)
    also have "dec_value (show_dec (n div 10)) = int (n div 10)" using 1 False by simp
    also have "int (n div 10) * 10 + int (n mod 10) = int (n div 10 * 10 + n mod 10)"
      by (simp only: of_nat_add of_nat_mult of_nat_numeral)
    finally show ?thesis by (simp only: div_mult_mod_eq)
  qed
qed

lemma length_show_dec: "n < 10 ^ k \<Longrightarrow> 0 < k \<Longrightarrow> length (show_dec n) \<le> k"
proof (induction k arbitrary: n)
  case (Suc k)
  show ?case
  proof (cases "n < 10")
    case False
    then have "n div 10 < 10 ^ k" "0 < k" using Suc.prems by (auto intro: gr0I)
    then show ?thesis using Suc.IH [of "n div 10"] False by (subst show_dec.simps) simp
  qed (subst show_dec.simps, simp)
qed simp

lemma isdigit_not_space: "isdigit_c c \<Longrightarrow> \<not> isspace_c c"
  by (simp add: isdigit_c_def isspace_c_def)

lemma isdigit_not_sign: "isdigit_c c \<Longrightarrow> c \<noteq> CHR ''-'' \<and> c \<noteq> CHR ''+''"
  by (auto simp: isdigit_c_def)

lemma strtoll_show:
  assumes "n < 2 ^ 63"
  shows "strtoll (show_dec n) = int n"
proof -
  obtain c t where s: "show_dec n = c # t" by (cases "show_dec n") simp_all
  have all: "\<forall>x\<in>set (show_dec n). isdigit_c x" using show_dec_digits by blast
  then have c: "\<not> isspace_c c" "c \<noteq> CHR ''-''" "c \<noteq> CHR ''+''"
    using isdigit_not_space isdigit_not_sign unfolding s by auto
  have "takeWhile isdigit_c (c # t) = c # t" using all unfolding s by (subst takeWhile_eq_all_conv) simp
  then have "strtoll (show_dec n) = clamp_ll (dec_value (show_dec n))"
    using c by (simp add: strtoll_def s)
  also have "\<dots> = int n" using assms by (simp add: clamp_ll_def)
  finally show ?thesis .
qed

section \<open>Lines and buffers\<close>

text \<open>
  \<open>fgets (line, n, file)\<close> for a file with these bytes left: at most \<open>n - 1\<close> characters, up to and
  with a newline.
\<close>

definition fgets :: "nat \<Rightarrow> string \<Rightarrow> string" where
  "fgets n s = take (n - 1) (takeWhile (\<lambda>c. c \<noteq> CHR ''\<newline>'') s @
     (if CHR ''\<newline>'' \<in> set s then [CHR ''\<newline>''] else []))"

lemma fgets_prefix: "\<exists>t. s = fgets n s @ t"
proof -
  have "\<exists>t. s = (takeWhile (\<lambda>c. c \<noteq> CHR ''\<newline>'') s @
     (if CHR ''\<newline>'' \<in> set s then [CHR ''\<newline>''] else [])) @ t"
    by (induction s) auto
  then show ?thesis unfolding fgets_def by (metis append.assoc append_take_drop_id)
qed

lemma fgets_not_Nil: "s \<noteq> [] \<Longrightarrow> 2 \<le> n \<Longrightarrow> fgets n s \<noteq> []"
  by (cases s) (auto simp: fgets_def)

text \<open>
  \<open>strncpy (buf + off, s, n)\<close> on an array with explicit bytes: the string, then zeros, \<open>n\<close>
  characters in all; no terminating zero when the string has \<open>n\<close> characters or more.
\<close>

definition strncpy :: "string \<Rightarrow> nat \<Rightarrow> string \<Rightarrow> nat \<Rightarrow> string res" where
  "strncpy buf off s n =
     (if off + n \<le> length buf
      then Inr (take off buf @ take n (s @ replicate n (CHR 0x00)) @ drop (off + n) buf)
      else Inl (OutOfBounds (off + n)))"

end
