(* ===== verification/Toeplitz.thy ===== *)
theory Toeplitz
  imports Byteswap
begin

text \<open>
  The Toeplitz hash of \<open>lib/hash_toeplitz.c\<close>, which spreads packets over threads: the key
  schedule and the hash of a byte string. What \<open>rand_r\<close> returns is a parameter. The host is
  little-endian.
\<close>

section \<open>Configuration and key schedule\<close>

record toeplitz_conf =
  hash_ipv4 :: bool
  hash_tcp_ipv4 :: bool
  hash_ipv6 :: bool
  hash_tcp_ipv6 :: bool
  hash_ipv6_ex :: bool
  hash_tcp_ipv6_ex :: bool
  x_hash_udp_ipv4 :: bool
  x_hash_udp_ipv6 :: bool
  x_hash_udp_ipv6_ex :: bool
  tc_key :: "u8 list"
  tc_key_cache :: "u32 list"

definition get_bit :: "u8 \<Rightarrow> nat \<Rightarrow> u8" where
  "get_bit byte num = byte AND drop_bit num 0x80"

text \<open>One round of the loop that shifts the copied key left by one bit, byte after byte.\<close>

fun shift_key :: "u8 list \<Rightarrow> u8 list" where
  "shift_key (a # b # bs) = (push_bit 1 a OR drop_bit 7 (0x80 AND b)) # shift_key (b # bs)"
| "shift_key [a] = [push_bit 1 a]"
| "shift_key [] = []"

definition first_word :: "u8 list \<Rightarrow> u32" where
  "first_word k = be32 (k ! 3) (k ! 2) (k ! 1) (k ! 0)"

fun expand_loop :: "nat \<Rightarrow> u8 list \<Rightarrow> u32 list" where
  "expand_loop 0 key_cpy = []"
| "expand_loop (Suc n) key_cpy = first_word key_cpy # expand_loop n (shift_key key_cpy)"

definition toeplitz_hash_expand_key :: "toeplitz_conf \<Rightarrow> toeplitz_conf" where
  "toeplitz_hash_expand_key conf = conf\<lparr>tc_key_cache := expand_loop 320 (tc_key conf)\<rparr>"

definition toeplitz_create_unikey :: "(nat \<Rightarrow> u32) \<Rightarrow> u8 list" where
  "toeplitz_create_unikey rand = map (\<lambda>i. ucast (rand i)) [0..<40]"

definition toeplitz_create_bikey :: "(nat \<Rightarrow> u32) \<Rightarrow> u8 list" where
  "toeplitz_create_bikey rand =
     (let bi_key = (ucast (rand 0) :: u16) in
      concat (replicate 20 [ucast bi_key, ucast (drop_bit 8 bi_key)]))"

definition toeplitz_init_config :: "(nat \<Rightarrow> u32) \<Rightarrow> toeplitz_conf \<Rightarrow> bool \<Rightarrow> toeplitz_conf" where
  "toeplitz_init_config rand conf bidirectional =
     toeplitz_hash_expand_key
       (conf\<lparr>tc_key := (if bidirectional then toeplitz_create_bikey rand else toeplitz_create_unikey rand)\<rparr>)"

section \<open>The hash\<close>

fun hash_bits :: "u32 list \<Rightarrow> nat \<Rightarrow> u8 \<Rightarrow> nat list \<Rightarrow> u32 \<Rightarrow> u32 res" where
  "hash_bits cache i d [] result = Inr result"
| "hash_bits cache i d (b # bs) result =
     (if get_bit d b \<noteq> 0
      then (if i + b < length cache then hash_bits cache i d bs (result XOR cache ! (i + b))
            else Inl (OutOfBounds (i + b)))
      else hash_bits cache i d bs result)"

fun hash_bytes :: "u32 list \<Rightarrow> pktmem \<Rightarrow> ptr \<Rightarrow> nat \<Rightarrow> nat \<Rightarrow> u32 \<Rightarrow> u32 res" where
  "hash_bytes cache m p i 0 result = Inr result"
| "hash_bytes cache m p i (Suc n) result =
     bindr (rd8 m p) (\<lambda>d.
     bindr (hash_bits cache i d [0..<8] result) (\<lambda>result'.
     hash_bytes cache m (p + 1) (i + 8) n result'))"

definition toeplitz_hash :: "toeplitz_conf \<Rightarrow> pktmem \<Rightarrow> ptr \<Rightarrow> nat \<Rightarrow> nat \<Rightarrow> u32 \<Rightarrow> u32 res" where
  "toeplitz_hash tc m data offset n result = hash_bytes (tc_key_cache tc) m data (offset * 8) n result"

definition toeplitz_first_hash :: "toeplitz_conf \<Rightarrow> pktmem \<Rightarrow> ptr \<Rightarrow> nat \<Rightarrow> u32 res" where
  "toeplitz_first_hash tc m data n = toeplitz_hash tc m data 0 n 0"

section \<open>Key bits\<close>

text \<open>Bit \<open>b\<close> of a byte string, counted from the most significant bit of its first byte.\<close>

definition kbit :: "u8 list \<Rightarrow> nat \<Rightarrow> bool" where
  "kbit ks b \<longleftrightarrow> b < 8 * length ks \<and> bit (ks ! (b div 8)) (7 - b mod 8)"

lemma bit_80: "bit (0x80 :: u8) k \<longleftrightarrow> k = 7"
proof -
  have "bit (push_bit 7 (1 :: u8)) k \<longleftrightarrow> k = 7"
    unfolding bit_push_bit_iff bit_1_iff by (auto simp: possible_bit_word)
  then show ?thesis by simp
qed

lemma bit_twice: "bit (a * 2 :: u8) k \<longleftrightarrow> k \<noteq> 0 \<and> k < 8 \<and> bit a (k - 1)"
  unfolding mult.commute [of a 2] bit_double_iff by (auto simp: possible_bit_word)

lemma bit_get_bit: "bit (get_bit d n) k \<longleftrightarrow> bit d k \<and> n + k = 7"
  by (simp only: get_bit_def bit_and_iff bit_drop_bit_eq comp_def bit_80)

lemma get_bit_bit:
  assumes "n < 8"
  shows "get_bit d n \<noteq> 0 \<longleftrightarrow> bit d (7 - n)"
proof
  assume nz: "get_bit d n \<noteq> 0"
  have "get_bit d n = 0" if "\<nexists>k. bit (get_bit d n) k"
    by (rule bit_word_eqI) (use that in simp)
  with nz obtain k where "bit (get_bit d n) k" by blast
  then have "bit d k" "k = 7 - n" by (auto simp: bit_get_bit)
  then show "bit d (7 - n)" by simp
next
  assume "bit d (7 - n)"
  then have "bit (get_bit d n) (7 - n)" using assms by (simp add: bit_get_bit)
  then show "get_bit d n \<noteq> 0" by auto
qed

lemma length_shift_key [simp]: "length (shift_key ks) = length ks"
  by (induction ks rule: shift_key.induct) auto

lemma kbit_Cons: "kbit (a # ks) b \<longleftrightarrow> (if b < 8 then bit a (7 - b) else kbit ks (b - 8))"
  by (auto simp: kbit_def nth_Cons' le_div_geq le_mod_geq)

lemma kbit_Cons_ge: "8 \<le> b \<Longrightarrow> kbit (a # ks) b = kbit ks (b - 8)"
  by (simp add: kbit_Cons)

lemma bit_top: "bit (drop_bit 7 (0x80 AND b :: u8)) k \<longleftrightarrow> k = 0 \<and> bit b 7"
  by (auto simp: bit_simps bit_80)

lemma kbit_shift: "kbit (shift_key ks) b = kbit ks (Suc b)"
proof (induction ks arbitrary: b rule: shift_key.induct)
  case (1 a c ks)
  show ?case
  proof (cases "b < 8")
    case True
    then show ?thesis by (cases "b = 7") (auto simp: kbit_Cons bit_simps bit_top bit_twice)
  next
    case False
    then have "Suc (b - 8) = b - 7" by simp
    with False show ?thesis using "1.IH" [of "b - 8"] by (simp add: kbit_Cons_ge)
  qed
next
  case (2 a)
  then show ?case by (cases "b = 7") (auto simp: kbit_Cons kbit_def [of "[]"] bit_twice)
next
  case 3
  then show ?case by (simp add: kbit_def)
qed


lemma kbit_shifts: "kbit ((shift_key ^^ i) ks) b = kbit ks (b + i)"
  by (induction i arbitrary: b) (simp_all add: kbit_shift)

lemma length_shifts [simp]: "length ((shift_key ^^ i) ks) = length ks"
  by (induction i) simp_all

lemma length_expand [simp]: "length (expand_loop n ks) = n"
  by (induction n arbitrary: ks) simp_all

lemma nth_expand: "i < n \<Longrightarrow> expand_loop n ks ! i = first_word ((shift_key ^^ i) ks)"
proof (induction n arbitrary: i ks)
  case (Suc n)
  then show ?case by (cases i) (simp_all add: funpow_swap1)
qed simp

section \<open>The reference hash\<close>

text \<open>
  The hash of the RSS standard: for every bit of the input that is set, the 32 bits of the
  key that start at the position of the bit, most significant first, are added modulo 2.
\<close>

definition key_window :: "u8 list \<Rightarrow> nat \<Rightarrow> u32" where
  "key_window ks i = horner_sum of_bool 2 (map (\<lambda>n. kbit ks (i + (31 - n))) [0..<32])"

definition rss_step :: "u8 list \<Rightarrow> nat \<Rightarrow> u8 list \<Rightarrow> nat \<Rightarrow> u32 \<Rightarrow> u32" where
  "rss_step ks off ds b acc = (if kbit ds b then acc XOR key_window ks (off + b) else acc)"

definition rss_hash :: "u8 list \<Rightarrow> nat \<Rightarrow> u8 list \<Rightarrow> u32" where
  "rss_hash ks off ds = fold (rss_step ks off ds) [0..<8 * length ds] 0"

lemma bit_key_window: "bit (key_window ks i) n \<longleftrightarrow> n < 32 \<and> kbit ks (i + (31 - n))"
  by (auto simp: key_window_def bit_horner_sum_bit_word_iff)

lemma kbit_nth: "b < 8 \<Longrightarrow> j < length ks \<Longrightarrow> kbit ks (8 * j + b) \<longleftrightarrow> bit (ks ! j) (7 - b)"
  by (simp add: kbit_def)

lemma window_byte:
  fixes n :: nat
  assumes "n < 32"
  shows "((31 - n) div 8, 7 - (31 - n) mod 8) =
    (if n < 8 then (3, n) else if n < 16 then (2, n - 8) else if n < 24 then (1, n - 16) else (0, n - 24))"
proof -
  have "list_all (\<lambda>n::nat. ((31 - n) div 8, 7 - (31 - n) mod 8) =
    (if n < 8 then (3, n) else if n < 16 then (2, n - 8) else if n < 24 then (1, n - 16) else (0, n - 24)))
    [0..<32]" by code_simp
  then show ?thesis using assms by (simp add: list_all_iff)
qed

lemma first_word_window:
  assumes "4 \<le> length ks"
  shows "first_word ks = byteswap32 (key_window ks 0)"
proof -
  have k: "kbit ks b \<longleftrightarrow> bit (ks ! (b div 8)) (7 - b mod 8)" if "b < 32" for b
    using that assms by (auto simp: kbit_def)
  have "byteswap32 (key_window ks 0) = byteswap32 (be32 (ks ! 0) (ks ! 1) (ks ! 2) (ks ! 3))"
  proof (rule arg_cong [of _ _ byteswap32], rule bit_word_eqI)
    fix n
    assume "n < LENGTH(32)"
    then have n: "n < 32" by simp
    then show "bit (key_window ks 0) n = bit (be32 (ks ! 0) (ks ! 1) (ks ! 2) (ks ! 3)) n"
      using window_byte [OF n] by (simp add: bit_key_window bit_be32 k split: if_splits)
  qed
  then show ?thesis by (simp add: first_word_def byteswap32_be32)
qed


lemma window_shifts: "key_window ((shift_key ^^ i) ks) 0 = key_window ks i"
  by (simp add: key_window_def kbit_shifts add.commute)

lemma cache_window:
  assumes "4 \<le> length ks" "i < n"
  shows "expand_loop n ks ! i = byteswap32 (key_window ks i)"
  using assms first_word_window [of "(shift_key ^^ i) ks"] by (simp add: nth_expand window_shifts)

section \<open>The hash is the reference hash\<close>

lemma byteswap32_xor: "byteswap32 (a XOR b) = byteswap32 a XOR byteswap32 b"
  by (rule bit_word_eqI) (auto simp: bit_byteswap32 bit_xor_iff)

lemma byteswap32_0: "byteswap32 0 = 0"
  by (rule bit_word_eqI) (simp add: bit_byteswap32)

lemma fold_rss_step: "fold (rss_step ks off ds) bs acc = acc XOR fold (rss_step ks off ds) bs 0"
proof (induction bs arbitrary: acc)
  case (Cons b bs)
  show ?case
    using Cons.IH [of "rss_step ks off ds b acc"] Cons.IH [of "rss_step ks off ds b 0"]
    by (simp add: rss_step_def xor.assoc)
qed simp

lemma rss_hash_Cons:
  "rss_hash ks off (d # ds) = fold (rss_step ks off [d]) [0..<8] 0 XOR rss_hash ks (off + 8) ds"
proof -
  have u: "[0..<8 * length (d # ds)] = [0..<8] @ map (\<lambda>b. b + 8) [0..<8 * length ds]"
    unfolding map_add_upt using upt_add_eq_append [of 0 8 "8 * length ds"] by (simp add: add.commute)
  have a: "fold (rss_step ks off (d # ds)) [0..<8] acc = fold (rss_step ks off [d]) [0..<8] acc" for acc
    by (rule fold_cong) (auto simp: rss_step_def kbit_Cons fun_eq_iff)
  have b: "fold (rss_step ks off (d # ds)) (map (\<lambda>b. b + 8) bs) acc = fold (rss_step ks (off + 8) ds) bs acc"
    for bs acc
    unfolding fold_map by (rule fold_cong) (auto simp: rss_step_def kbit_Cons fun_eq_iff ac_simps)
  show ?thesis
    unfolding rss_hash_def u fold_append comp_def a b by (rule fold_rss_step)
qed

lemma rss_hash_Nil: "rss_hash ks off [] = 0"
  by (simp add: rss_hash_def)

lemma rss_hash_append:
  "rss_hash ks off (xs @ ys) = rss_hash ks off xs XOR rss_hash ks (off + 8 * length xs) ys"
  by (induction xs arbitrary: off) (simp_all add: rss_hash_Nil rss_hash_Cons xor.assoc add.assoc)

lemma hash_bits_rss:
  assumes "4 \<le> length ks" "i + 8 \<le> n" "set bs \<subseteq> {0..<8}"
  shows "hash_bits (expand_loop n ks) i d bs (r XOR byteswap32 acc) =
    Inr (r XOR byteswap32 (fold (rss_step ks i [d]) bs acc))"
  using assms(3)
proof (induction bs arbitrary: acc)
  case (Cons b bs)
  then have b: "b < 8" by simp
  have k: "kbit [d] b = (get_bit d b \<noteq> 0)" using b by (simp add: kbit_Cons get_bit_bit)
  have "(r XOR byteswap32 acc) XOR expand_loop n ks ! (i + b) = r XOR byteswap32 (acc XOR key_window ks (i + b))"
    using cache_window [OF assms(1), of "i + b" n] assms(2) b by (simp add: byteswap32_xor xor.assoc)
  then show ?case
    using Cons b assms(2) by (auto simp: rss_step_def k)
qed simp

lemma hash_bytes_rss:
  assumes "4 \<le> length ks" "i + 8 * n \<le> N" "p + n \<le> length m"
  shows "hash_bytes (expand_loop N ks) m p i n r = Inr (r XOR byteswap32 (rss_hash ks i (take n (drop p m))))"
  using assms(2,3)
proof (induction n arbitrary: p i r)
  case 0
  then show ?case by (simp add: rss_hash_Nil byteswap32_0)
next
  case (Suc n)
  have d: "take (Suc n) (drop p m) = m ! p # take n (drop (p + 1) m)"
    using Suc.prems by (simp add: Cons_nth_drop_Suc [symmetric])
  let ?b = "fold (rss_step ks i [m ! p]) [0..<8] 0"
  have "hash_bits (expand_loop N ks) i (m ! p) [0..<8] (r XOR byteswap32 0) = Inr (r XOR byteswap32 ?b)"
    by (rule hash_bits_rss) (use assms(1) Suc.prems in auto)
  then have bits: "hash_bits (expand_loop N ks) i (m ! p) [0..<8] r = Inr (r XOR byteswap32 ?b)"
    by (simp add: byteswap32_0)
  have "hash_bytes (expand_loop N ks) m (p + 1) (i + 8) n (r XOR byteswap32 ?b) =
      Inr ((r XOR byteswap32 ?b) XOR byteswap32 (rss_hash ks (i + 8) (take n (drop (p + 1) m))))"
    by (rule Suc.IH) (use Suc.prems in auto)
  then show ?case
    unfolding d rss_hash_Cons using bits Suc.prems by (simp add: byteswap32_xor xor.assoc)
qed


section \<open>Bidirectional keys\<close>

lemma nth_repeat2: "j < 2 * n \<Longrightarrow> concat (replicate n [a, b]) ! j = (if even j then a else b)"
proof (induction n arbitrary: j)
  case (Suc n)
  then show ?case by (cases j; cases "j - 1") auto
qed simp

lemma length_repeat2 [simp]: "length (concat (replicate n [a, b])) = 2 * n"
  by (induction n) auto

lemma length_bikey [simp]: "length (toeplitz_create_bikey rand) = 40"
  by (simp add: toeplitz_create_bikey_def Let_def)

lemma kbit_bikey:
  assumes "b + 16 < 320"
  shows "kbit (toeplitz_create_bikey rand) (b + 16) = kbit (toeplitz_create_bikey rand) b"
proof -
  have "(b + 16) div 8 = b div 8 + 2" "(b + 16) mod 8 = b mod 8"
    using mod_mult_self2 [of b 8 2] by simp_all
  moreover have "b div 8 + 2 < 2 * 20" using assms by linarith
  ultimately show ?thesis
    using assms by (simp add: kbit_def toeplitz_create_bikey_def Let_def nth_repeat2)
qed

lemma window_bikey:
  assumes "i + 16 \<le> 288"
  shows "key_window (toeplitz_create_bikey rand) (i + 16) = key_window (toeplitz_create_bikey rand) i"
proof (rule bit_word_eqI)
  fix n
  have "kbit (toeplitz_create_bikey rand) (i + (31 - n) + 16) = kbit (toeplitz_create_bikey rand) (i + (31 - n))"
    by (rule kbit_bikey) (use assms in simp)
  then show "bit (key_window (toeplitz_create_bikey rand) (i + 16)) n = bit (key_window (toeplitz_create_bikey rand) i) n"
    by (simp add: bit_key_window ac_simps)
qed

lemma rss_bikey_shift:
  assumes "i + 16 + 8 * length ds \<le> 288"
  shows "rss_hash (toeplitz_create_bikey rand) (i + 16) ds = rss_hash (toeplitz_create_bikey rand) i ds"
  unfolding rss_hash_def
proof (rule fold_cong)
  fix b
  assume "b \<in> set [0..<8 * length ds]"
  then have "i + b + 16 \<le> 288" using assms by simp
  from window_bikey [OF this]
  show "rss_step (toeplitz_create_bikey rand) (i + 16) ds b = rss_step (toeplitz_create_bikey rand) i ds b"
    by (simp add: rss_step_def fun_eq_iff ac_simps)
qed simp_all

lemma rss_bikey_shifts:
  "i + 16 * k + 8 * length ds \<le> 288 \<Longrightarrow>
    rss_hash (toeplitz_create_bikey rand) (i + 16 * k) ds = rss_hash (toeplitz_create_bikey rand) i ds"
proof (induction k)
  case (Suc k)
  then show ?case using rss_bikey_shift [of "i + 16 * k" ds rand] by (simp add: ac_simps)
qed simp

lemma rss_bikey_append:
  assumes "even (length xs)" "i + 8 * (length xs + length ys) \<le> 288"
  shows "rss_hash (toeplitz_create_bikey rand) i (xs @ ys) =
    rss_hash (toeplitz_create_bikey rand) i xs XOR rss_hash (toeplitz_create_bikey rand) i ys"
proof -
  obtain k where "length xs = 2 * k" using assms(1) by (elim evenE)
  then show ?thesis using rss_bikey_shifts [of i k ys rand] assms(2) by (simp add: rss_hash_append)
qed

section \<open>Properties\<close>


text \<open>
  Hashes with a bidirectional key do not depend on the direction. Exchanging two
  adjacent fields of even length (source and destination addresses, source and destination
  ports) leaves the hash unchanged, at every position up to the 36 bytes of an IPv6 address
  pair with its ports, whatever the random key.
\<close>

theorem toeplitz_bidirectional:
  assumes "even (length xs)" and "even (length ys)" and "offset + length xs + length ys \<le> 36"
  shows "toeplitz_hash (toeplitz_init_config rand conf True) (xs @ ys) 0 offset (length xs + length ys) r =
    toeplitz_hash (toeplitz_init_config rand conf True) (ys @ xs) 0 offset (length xs + length ys) r"
proof -
  let ?k = "toeplitz_create_bikey rand"
  have h: "toeplitz_hash (toeplitz_init_config rand conf True) ds 0 offset (length xs + length ys) r =
      Inr (r XOR byteswap32 (rss_hash ?k (offset * 8) ds))"
    if "length ds = length xs + length ys" for ds
    using hash_bytes_rss [of ?k "offset * 8" "length ds" 320 0 ds r] that assms(3)
    by (simp add: toeplitz_hash_def toeplitz_hash_expand_key_def toeplitz_init_config_def)
  have "rss_hash ?k (offset * 8) (xs @ ys) = rss_hash ?k (offset * 8) (ys @ xs)"
    using rss_bikey_append [of xs "offset * 8" ys rand] rss_bikey_append [of ys "offset * 8" xs rand] assms
    by (simp add: xor.commute)
  then show ?thesis by (simp add: h)
qed

definition toeplitz_example :: toeplitz_conf where
  "toeplitz_example =
     \<lparr>hash_ipv4 = True, hash_tcp_ipv4 = True, hash_ipv6 = True, hash_tcp_ipv6 = True, hash_ipv6_ex = False,
      hash_tcp_ipv6_ex = False, x_hash_udp_ipv4 = True, x_hash_udp_ipv6 = True, x_hash_udp_ipv6_ex = False,
      tc_key = replicate 40 0x6d, tc_key_cache = []\<rparr>"


theorem toeplitz_bidirectional_witness:
  "toeplitz_hash (toeplitz_init_config (\<lambda>_. 77) toeplitz_example True) ([1, 2] @ [3, 4]) 0 32 4 5 =
   toeplitz_hash (toeplitz_init_config (\<lambda>_. 77) toeplitz_example True) ([3, 4] @ [1, 2]) 0 32 4 5"
proof -
  have len: "length [1, 2 :: u8] + length [3, 4 :: u8] = 4" by simp
  show ?thesis
    using toeplitz_bidirectional [of "[1, 2]" "[3, 4]" 32 "\<lambda>_. 77" toeplitz_example 5] unfolding len
    by simp
qed

end
