(* ===== verification/Par_Config.thy ===== *)
theory Par_Config
  imports C_String Toeplitz
begin

text \<open>
  The configuration of the parallel framework, from \<open>lib/trace_parallel.c\<close>: the setters, the
  parser for configuration strings, files and environment variables, the choice of a hasher,
  and the defaults that are filled in when a trace is started.
\<close>

section \<open>State\<close>

datatype trace_state =
    STATE_NEW | STATE_RUNNING | STATE_PAUSING | STATE_PAUSED | STATE_FINISHED | STATE_FINISHING
  | STATE_DESTROYED | STATE_JOINED | STATE_ERROR

datatype hasher_types = HASHER_BALANCE | HASHER_BIDIRECTIONAL | HASHER_UNIDIRECTIONAL | HASHER_CUSTOM

record user_configuration =
  uc_cache_size :: size_t
  uc_thread_cache_size :: size_t
  uc_fixed_count :: bool
  uc_burst_size :: size_t
  uc_tick_interval :: size_t
  uc_tick_count :: size_t
  uc_perpkt_threads :: size_t
  uc_hasher_queue_size :: size_t
  uc_hasher_polling :: bool
  uc_reporter_polling :: bool
  uc_reporter_thold :: size_t
  uc_debug_state :: bool

text \<open>
  A hasher with its data: a function of the user, or the Toeplitz hash with a configuration. The
  type parameter is that of the user's functions.
\<close>

datatype 'f hasher = UserHasher 'f | ToeplitzHasher toeplitz_conf

text \<open>
  The fields of \<open>libtrace_t\<close> that the configuration concerns. \<open>lt_combiner\<close> is \<open>None\<close> when neither
  \<open>initialise\<close> nor \<open>publish\<close> is set; \<open>lt_dedicated_hasher\<close> says whether the type of the hasher
  thread is \<open>THREAD_HASHER\<close>.
\<close>

record ('f, 'c) libtrace =
  lt_state :: trace_state
  lt_config :: user_configuration
  lt_tracetime :: bool
  lt_hasher_type :: hasher_types
  lt_hasher :: "'f hasher option"
  lt_combiner :: "'c option"
  lt_perpkt_thread_count :: "32 word"
  lt_dedicated_hasher :: bool

section \<open>Setters\<close>

definition trace_is_configurable :: "('f, 'c) libtrace \<Rightarrow> bool" where
  "trace_is_configurable trace \<longleftrightarrow> lt_state trace = STATE_NEW \<or> lt_state trace = STATE_PAUSED"

text \<open>What the setters have in common: the trace must be configurable, else they return -1.\<close>

definition set_config ::
  "(user_configuration \<Rightarrow> user_configuration) \<Rightarrow> ('f, 'c) libtrace \<Rightarrow> 32 word \<times> ('f, 'c) libtrace" where
  "set_config f trace =
     (if \<not> trace_is_configurable trace then (- 1, trace) else (0, trace\<lparr>lt_config := f (lt_config trace)\<rparr>))"

definition trace_set_perpkt_threads :: "('f, 'c) libtrace \<Rightarrow> 32 word \<Rightarrow> 32 word \<times> ('f, 'c) libtrace" where
  "trace_set_perpkt_threads trace nb =
     (if \<not> trace_is_configurable trace then (- 1, trace)
      else if 0 \<le> sint nb then (0, trace\<lparr>lt_config := (lt_config trace)\<lparr>uc_perpkt_threads := scast nb\<rparr>\<rparr>)
      else (- 1, trace))"

definition trace_set_tick_interval :: "('f, 'c) libtrace \<Rightarrow> size_t \<Rightarrow> 32 word \<times> ('f, 'c) libtrace" where
  "trace_set_tick_interval trace millisec = set_config (\<lambda>uc. uc\<lparr>uc_tick_interval := millisec\<rparr>) trace"

definition trace_set_tick_count :: "('f, 'c) libtrace \<Rightarrow> size_t \<Rightarrow> 32 word \<times> ('f, 'c) libtrace" where
  "trace_set_tick_count trace count = set_config (\<lambda>uc. uc\<lparr>uc_tick_count := count\<rparr>) trace"

definition trace_set_tracetime :: "('f, 'c) libtrace \<Rightarrow> bool \<Rightarrow> 32 word \<times> ('f, 'c) libtrace" where
  "trace_set_tracetime trace tracetime =
     (if \<not> trace_is_configurable trace then (- 1, trace) else (0, trace\<lparr>lt_tracetime := tracetime\<rparr>))"

definition trace_set_cache_size :: "('f, 'c) libtrace \<Rightarrow> size_t \<Rightarrow> 32 word \<times> ('f, 'c) libtrace" where
  "trace_set_cache_size trace sz = set_config (\<lambda>uc. uc\<lparr>uc_cache_size := sz\<rparr>) trace"

definition trace_set_thread_cache_size :: "('f, 'c) libtrace \<Rightarrow> size_t \<Rightarrow> 32 word \<times> ('f, 'c) libtrace" where
  "trace_set_thread_cache_size trace sz = set_config (\<lambda>uc. uc\<lparr>uc_thread_cache_size := sz\<rparr>) trace"

definition trace_set_fixed_count :: "('f, 'c) libtrace \<Rightarrow> bool \<Rightarrow> 32 word \<times> ('f, 'c) libtrace" where
  "trace_set_fixed_count trace fixed = set_config (\<lambda>uc. uc\<lparr>uc_fixed_count := fixed\<rparr>) trace"

definition trace_set_burst_size :: "('f, 'c) libtrace \<Rightarrow> size_t \<Rightarrow> 32 word \<times> ('f, 'c) libtrace" where
  "trace_set_burst_size trace sz = set_config (\<lambda>uc. uc\<lparr>uc_burst_size := sz\<rparr>) trace"

definition trace_set_hasher_queue_size :: "('f, 'c) libtrace \<Rightarrow> size_t \<Rightarrow> 32 word \<times> ('f, 'c) libtrace" where
  "trace_set_hasher_queue_size trace sz = set_config (\<lambda>uc. uc\<lparr>uc_hasher_queue_size := sz\<rparr>) trace"

definition trace_set_hasher_polling :: "('f, 'c) libtrace \<Rightarrow> bool \<Rightarrow> 32 word \<times> ('f, 'c) libtrace" where
  "trace_set_hasher_polling trace polling = set_config (\<lambda>uc. uc\<lparr>uc_hasher_polling := polling\<rparr>) trace"

definition trace_set_reporter_polling :: "('f, 'c) libtrace \<Rightarrow> bool \<Rightarrow> 32 word \<times> ('f, 'c) libtrace" where
  "trace_set_reporter_polling trace polling = set_config (\<lambda>uc. uc\<lparr>uc_reporter_polling := polling\<rparr>) trace"

definition trace_set_reporter_thold :: "('f, 'c) libtrace \<Rightarrow> size_t \<Rightarrow> 32 word \<times> ('f, 'c) libtrace" where
  "trace_set_reporter_thold trace thold = set_config (\<lambda>uc. uc\<lparr>uc_reporter_thold := thold\<rparr>) trace"

definition trace_set_debug_state :: "('f, 'c) libtrace \<Rightarrow> bool \<Rightarrow> 32 word \<times> ('f, 'c) libtrace" where
  "trace_set_debug_state trace debug_state = set_config (\<lambda>uc. uc\<lparr>uc_debug_state := debug_state\<rparr>) trace"

definition trace_set_combiner :: "('f, 'c) libtrace \<Rightarrow> 'c option \<Rightarrow> ('f, 'c) libtrace" where
  "trace_set_combiner trace combiner = trace\<lparr>lt_combiner := combiner\<rparr>"

section \<open>Configuration strings\<close>

definition config_bool_parse :: "string \<Rightarrow> nat \<Rightarrow> bool" where
  "config_bool_parse value nvalue =
     (if strncmp_eq value ''true'' nvalue then True
      else if strncmp_eq value ''false'' nvalue then False
      else strtoll value \<noteq> 0)"

definition config_string ::
  "user_configuration \<Rightarrow> string \<Rightarrow> nat \<Rightarrow> string \<Rightarrow> nat \<Rightarrow> user_configuration" where
  "config_string uc key nkey value nvalue =
     (if strncmp_eq key ''cache_size'' nkey \<or> strncmp_eq key ''cs'' nkey then
        uc\<lparr>uc_cache_size := of_int (strtoll value)\<rparr>
      else if strncmp_eq key ''thread_cache_size'' nkey \<or> strncmp_eq key ''tcs'' nkey then
        uc\<lparr>uc_thread_cache_size := of_int (strtoll value)\<rparr>
      else if strncmp_eq key ''fixed_count'' nkey \<or> strncmp_eq key ''fc'' nkey then
        uc\<lparr>uc_fixed_count := config_bool_parse value nvalue\<rparr>
      else if strncmp_eq key ''burst_size'' nkey \<or> strncmp_eq key ''bs'' nkey then
        uc\<lparr>uc_burst_size := of_int (strtoll value)\<rparr>
      else if strncmp_eq key ''tick_interval'' nkey \<or> strncmp_eq key ''ti'' nkey then
        uc\<lparr>uc_tick_interval := of_int (strtoll value)\<rparr>
      else if strncmp_eq key ''tick_count'' nkey \<or> strncmp_eq key ''tc'' nkey then
        uc\<lparr>uc_tick_count := of_int (strtoll value)\<rparr>
      else if strncmp_eq key ''perpkt_threads'' nkey \<or> strncmp_eq key ''pt'' nkey then
        uc\<lparr>uc_perpkt_threads := of_int (strtoll value)\<rparr>
      else if strncmp_eq key ''hasher_queue_size'' nkey \<or> strncmp_eq key ''hqs'' nkey then
        uc\<lparr>uc_hasher_queue_size := of_int (strtoll value)\<rparr>
      else if strncmp_eq key ''hasher_polling'' nkey \<or> strncmp_eq key ''hp'' nkey then
        uc\<lparr>uc_hasher_polling := config_bool_parse value nvalue\<rparr>
      else if strncmp_eq key ''reporter_polling'' nkey \<or> strncmp_eq key ''rp'' nkey then
        uc\<lparr>uc_reporter_polling := config_bool_parse value nvalue\<rparr>
      else if strncmp_eq key ''reporter_thold'' nkey \<or> strncmp_eq key ''rt'' nkey then
        uc\<lparr>uc_reporter_thold := of_int (strtoll value)\<rparr>
      else if strncmp_eq key ''debug_state'' nkey \<or> strncmp_eq key ''ds'' nkey then
        uc\<lparr>uc_debug_state := config_bool_parse value nvalue\<rparr>
      else uc)"

text \<open>The delimiters of options, \<open>" ,.-"\<close>.\<close>

definition option_delim :: "char \<Rightarrow> bool" where
  "option_delim c \<longleftrightarrow> c \<in> {CHR '' '', CHR '','', CHR ''.'', CHR ''-''}"

definition config_token :: "string \<Rightarrow> user_configuration \<Rightarrow> user_configuration" where
  "config_token pch uc =
     (case sscanf_key_value pch of Some (key, value) \<Rightarrow> config_string uc key 100 value 100 | None \<Rightarrow> uc)"

definition trace_set_configuration :: "('f, 'c) libtrace \<Rightarrow> string \<Rightarrow> 32 word \<times> ('f, 'c) libtrace" where
  "trace_set_configuration trace str = set_config (fold config_token (strtok option_delim str)) trace"

text \<open>
  The lines of a file are read with \<open>fgets\<close> into a buffer of 1024 bytes. \<open>ferror\<close> says whether
  reading the file ended with an error.
\<close>

function config_lines :: "('f, 'c) libtrace \<Rightarrow> string \<Rightarrow> ('f, 'c) libtrace" where
  "config_lines trace input =
     (if input = [] then trace
      else let line = fgets 1024 input in
        config_lines (snd (trace_set_configuration trace line)) (drop (length line) input))"
  by pat_completeness auto
termination
proof (relation "measure (\<lambda>(trace, input). length input)")
  fix trace :: "('f, 'c) libtrace" and input line
  assume "input \<noteq> []" "line = fgets 1024 input"
  then have "line \<noteq> []" "input \<noteq> []" using fgets_not_Nil [of input 1024] by simp_all
  then show "((snd (trace_set_configuration trace line), drop (length line) input), trace, input)
      \<in> measure (\<lambda>(trace, input). length input)"
    by (cases line) (simp_all add: neq_Nil_conv)
qed simp

definition trace_set_configuration_file ::
  "('f, 'c) libtrace \<Rightarrow> string \<Rightarrow> bool \<Rightarrow> 32 word \<times> ('f, 'c) libtrace" where
  "trace_set_configuration_file trace input ferror =
     (if \<not> trace_is_configurable trace then (- 1, trace)
      else (if ferror then - 1 else 0, config_lines trace input))"

section \<open>Environment variables\<close>

text \<open>
  The name of the environment variables of a trace is put together in a buffer of 1024 bytes,
  \<open>LIBTRACE_CONF_<format>:<uri>\<close>, then brought to upper case with all characters but letters and
  digits replaced, noting where a colon was. \<open>env_chars\<close> is that loop over the bytes up to the
  terminating zero; running over the end of the buffer is a fault.
\<close>

definition env_char :: "char \<Rightarrow> char" where
  "env_char c = (let u = toupper_c c in if isupper_c u \<or> isdigit_c u then u else CHR ''_'')"

fun env_chars :: "nat \<Rightarrow> string \<Rightarrow> nat \<Rightarrow> (string \<times> nat) res" where
  "env_chars i [] mark = Inl (OutOfBounds i)"
| "env_chars i (c # cs) mark =
     (if c = CHR 0x00 then Inr (c # cs, mark)
      else bindr (env_chars (Suc i) cs (if c = CHR '':'' then i else mark)) (\<lambda>(cs, mark). Inr (env_char c # cs, mark)))"

text \<open>The string that starts a buffer, which the C library reads up to the terminating zero.\<close>

definition c_str :: "string \<Rightarrow> string" where
  "c_str buf = takeWhile (\<lambda>c. c \<noteq> CHR 0x00) buf"

definition env_apply :: "(string \<Rightarrow> string option) \<Rightarrow> string \<Rightarrow> ('f, 'c) libtrace \<Rightarrow> ('f, 'c) libtrace" where
  "env_apply getenv name trace =
     (case getenv name of None \<Rightarrow> trace | Some str \<Rightarrow> snd (trace_set_configuration trace str))"

definition env_name_size :: nat where
  "env_name_size = 1024"

definition parse_env_config ::
  "(string \<Rightarrow> string option) \<Rightarrow> string \<Rightarrow> string \<Rightarrow> ('f, 'c) libtrace \<Rightarrow> ('f, 'c) libtrace res" where
  "parse_env_config getenv format_name uridata trace =
     (let prefix = ''LIBTRACE_CONF_''; env_name = prefix @ replicate (env_name_size - length prefix) (CHR 0x00);
          len = length prefix in
      bindr (strncpy env_name len format_name (env_name_size - len)) (\<lambda>env_name.
      let len = len + length format_name in
      bindr (strncpy env_name len '':'' (env_name_size - len)) (\<lambda>env_name.
      let len = len + 1 in
      bindr (strncpy env_name len uridata (env_name_size - len)) (\<lambda>env_name.
      bindr (env_chars 0 env_name 0) (\<lambda>(env_name, mark).
      let trace = env_apply getenv ''LIBTRACE_CONF'' trace;
          trace = (if mark \<noteq> 0 then env_apply getenv (c_str (env_name[mark := CHR 0x00])) trace else trace);
          env_name = (if mark \<noteq> 0 then env_name[mark := CHR ''_''] else env_name) in
      Inr (env_apply getenv (c_str env_name) trace))))))"

section \<open>Hashers and defaults\<close>

text \<open>The configuration that \<open>calloc\<close> returns: no protocol is to be hashed.\<close>

definition zero_toeplitz_conf :: toeplitz_conf where
  "zero_toeplitz_conf =
     \<lparr>hash_ipv4 = False, hash_tcp_ipv4 = False, hash_ipv6 = False, hash_tcp_ipv6 = False, hash_ipv6_ex = False,
      hash_tcp_ipv6_ex = False, x_hash_udp_ipv4 = False, x_hash_udp_ipv6 = False, x_hash_udp_ipv6_ex = False,
      tc_key = replicate 40 0, tc_key_cache = replicate 320 0\<rparr>"

text \<open>
  \<open>config_input\<close> is the operation of the format that sets up hashing in hardware, when the format
  is parallel and has one; \<open>rand\<close> are the numbers that \<open>rand_r\<close> gives.
\<close>

definition trace_set_hasher ::
  "(hasher_types \<Rightarrow> 32 word) option \<Rightarrow> (nat \<Rightarrow> u32) \<Rightarrow> ('f, 'c) libtrace \<Rightarrow> hasher_types \<Rightarrow> 'f option \<Rightarrow>
    32 word \<times> ('f, 'c) libtrace" where
  "trace_set_hasher config_input rand trace type hasher =
     (if type = HASHER_CUSTOM \<and> hasher = None \<or> type = HASHER_BALANCE \<and> hasher \<noteq> None then (- 1, trace)
      else
        let trace = trace\<lparr>lt_hasher_type := type, lt_hasher := map_option UserHasher hasher\<rparr>;
            ret = (case config_input of Some config \<Rightarrow> config type | None \<Rightarrow> - 1) in
        if ret = - 1 then
          if hasher = None then
            (case type of
               HASHER_CUSTOM \<Rightarrow> (0, trace)
             | HASHER_BALANCE \<Rightarrow> (0, trace)
             | HASHER_BIDIRECTIONAL \<Rightarrow>
                 (0, trace\<lparr>lt_hasher := Some (ToeplitzHasher (toeplitz_init_config rand zero_toeplitz_conf True))\<rparr>)
             | HASHER_UNIDIRECTIONAL \<Rightarrow>
                 (0, trace\<lparr>lt_hasher := Some (ToeplitzHasher (toeplitz_init_config rand zero_toeplitz_conf False))\<rparr>))
          else (0, trace)
        else (0, trace\<lparr>lt_hasher := None\<rparr>))"

definition get_nb_cores :: "32 word \<Rightarrow> 32 word" where
  "get_nb_cores numCPU = (if sint numCPU \<le> 0 then 1 else numCPU)"

text \<open>
  \<open>numCPU\<close> is what the system says about its processors, \<open>combiner_unordered\<close> the default combiner.
  The sizes are unsigned, so that \<open>x \<le> 0\<close> means zero.
\<close>

definition verify_configuration :: "32 word \<Rightarrow> 'c \<Rightarrow> ('f, 'c) libtrace \<Rightarrow> ('f, 'c) libtrace" where
  "verify_configuration numCPU combiner_unordered trace =
     (let uc = lt_config trace;
          uc = (if uc_hasher_queue_size uc \<le> 0 then uc\<lparr>uc_hasher_queue_size := 1000\<rparr> else uc);
          count = (if uc_perpkt_threads uc \<le> 0
                   then (if sint (get_nb_cores numCPU) \<le> 0 then 1 else get_nb_cores numCPU)
                   else ucast (uc_perpkt_threads uc));
          uc = (if uc_reporter_thold uc \<le> 0 then uc\<lparr>uc_reporter_thold := 100\<rparr> else uc);
          uc = (if uc_burst_size uc \<le> 0 then uc\<lparr>uc_burst_size := 10\<rparr> else uc);
          uc = (if uc_thread_cache_size uc \<le> 0 then uc\<lparr>uc_thread_cache_size := 20\<rparr> else uc);
          uc = (if uc_cache_size uc \<le> 0 then uc\<lparr>uc_cache_size := (uc_hasher_queue_size uc + 1) * scast count\<rparr> else uc) in
      trace\<lparr>lt_config := uc, lt_perpkt_thread_count := count,
        lt_combiner := (if lt_combiner trace = None then Some combiner_unordered else lt_combiner trace),
        lt_dedicated_hasher := (if lt_hasher trace \<noteq> None \<and> 1 < sint count then True else lt_dedicated_hasher trace)\<rparr>)"

section \<open>Printing a configuration\<close>

definition show_bool :: "bool \<Rightarrow> string" where
  "show_bool b = (if b then ''true'' else ''false'')"

definition option_word :: "bool \<Rightarrow> string \<Rightarrow> string \<Rightarrow> string \<Rightarrow> string" where
  "option_word short long_name short_name value =
     (if short then short_name else long_name) @ CHR ''='' # value"

definition config_words :: "bool \<Rightarrow> user_configuration \<Rightarrow> string list" where
  "config_words short uc =
     [option_word short ''cache_size'' ''cs'' (show_dec (unat (uc_cache_size uc))),
      option_word short ''thread_cache_size'' ''tcs'' (show_dec (unat (uc_thread_cache_size uc))),
      option_word short ''fixed_count'' ''fc'' (show_bool (uc_fixed_count uc)),
      option_word short ''burst_size'' ''bs'' (show_dec (unat (uc_burst_size uc))),
      option_word short ''tick_interval'' ''ti'' (show_dec (unat (uc_tick_interval uc))),
      option_word short ''tick_count'' ''tc'' (show_dec (unat (uc_tick_count uc))),
      option_word short ''perpkt_threads'' ''pt'' (show_dec (unat (uc_perpkt_threads uc))),
      option_word short ''hasher_queue_size'' ''hqs'' (show_dec (unat (uc_hasher_queue_size uc))),
      option_word short ''hasher_polling'' ''hp'' (show_bool (uc_hasher_polling uc)),
      option_word short ''reporter_polling'' ''rp'' (show_bool (uc_reporter_polling uc)),
      option_word short ''reporter_thold'' ''rt'' (show_dec (unat (uc_reporter_thold uc))),
      option_word short ''debug_state'' ''ds'' (show_bool (uc_debug_state uc))]"

text \<open>The values that \<open>strtoll\<close> represents.\<close>

definition config_sizes :: "user_configuration \<Rightarrow> size_t list" where
  "config_sizes uc = [uc_cache_size uc, uc_thread_cache_size uc, uc_burst_size uc, uc_tick_interval uc,
     uc_tick_count uc, uc_perpkt_threads uc, uc_hasher_queue_size uc, uc_reporter_thold uc]"

definition value_word :: "string \<Rightarrow> bool" where
  "value_word v \<longleftrightarrow> v \<noteq> [] \<and> length v \<le> 99 \<and> (\<forall>c\<in>set v. \<not> isspace_c c \<and> \<not> option_delim c)"

definition key_word :: "string \<Rightarrow> bool" where
  "key_word k \<longleftrightarrow> k \<noteq> [] \<and> length k \<le> 99 \<and> (\<forall>c\<in>set k. c \<noteq> CHR ''='' \<and> \<not> option_delim c)"

lemma isdigit_not_delim: "isdigit_c c \<Longrightarrow> \<not> option_delim c"
  by (auto simp: isdigit_c_def option_delim_def)

lemma value_show_dec: "value_word (show_dec (unat (w :: size_t)))"
proof -
  have "unat w < 2 ^ 64" using unsigned_less [of w] by simp
  also have "\<dots> < (10 :: nat) ^ 20" by simp
  finally have "length (show_dec (unat w)) \<le> 20" by (rule length_show_dec) simp
  then show ?thesis
    using show_dec_digits isdigit_not_space isdigit_not_delim by (force simp: value_word_def)
qed

lemma value_show_bool: "value_word (show_bool b)"
proof -
  have "value_word (show_bool True)" "value_word (show_bool False)" by code_simp+
  then show ?thesis by (cases b) simp_all
qed

lemma parse_show_bool [simp]: "config_bool_parse (show_bool b) 100 = b"
  by (cases b) (simp_all add: config_bool_parse_def show_bool_def strncmp_eq_def)

lemma parse_show_size: "w < 2 ^ 63 \<Longrightarrow> of_int (strtoll (show_dec (unat w))) = (w :: size_t)"
  by (subst strtoll_show) (simp_all add: word_less_nat_alt)

lemma config_token_word:
  assumes "key_word k" "value_word v"
  shows "config_token (k @ CHR ''='' # v) uc = config_string uc k 100 v 100"
proof -
  have "sscanf_key_value (k @ CHR ''='' # v @ []) = Some (k, v)"
    by (rule sscanf_pair) (use assms in \<open>auto simp: key_word_def value_word_def\<close>)
  then show ?thesis by (simp add: config_token_def)
qed

lemma config_option_word:
  assumes "key_word l" "key_word s" "value_word v"
  shows "config_token (option_word short l s v) uc = config_string uc (if short then s else l) 100 v 100"
  using assms by (simp add: option_word_def config_token_word)

lemma strncmp_100: "length a \<le> 100 \<Longrightarrow> length b \<le> 100 \<Longrightarrow> strncmp_eq a b 100 \<longleftrightarrow> a = b"
  by (rule strncmp_eq_short)

text \<open>Each option changes its own field, under its long and its short name.\<close>

lemma config_token_options:
  assumes "value_word v"
  shows
    "config_token (option_word short ''cache_size'' ''cs'' v) uc = uc\<lparr>uc_cache_size := of_int (strtoll v)\<rparr>"
    "config_token (option_word short ''thread_cache_size'' ''tcs'' v) uc = uc\<lparr>uc_thread_cache_size := of_int (strtoll v)\<rparr>"
    "config_token (option_word short ''fixed_count'' ''fc'' v) uc = uc\<lparr>uc_fixed_count := config_bool_parse v 100\<rparr>"
    "config_token (option_word short ''burst_size'' ''bs'' v) uc = uc\<lparr>uc_burst_size := of_int (strtoll v)\<rparr>"
    "config_token (option_word short ''tick_interval'' ''ti'' v) uc = uc\<lparr>uc_tick_interval := of_int (strtoll v)\<rparr>"
    "config_token (option_word short ''tick_count'' ''tc'' v) uc = uc\<lparr>uc_tick_count := of_int (strtoll v)\<rparr>"
    "config_token (option_word short ''perpkt_threads'' ''pt'' v) uc = uc\<lparr>uc_perpkt_threads := of_int (strtoll v)\<rparr>"
    "config_token (option_word short ''hasher_queue_size'' ''hqs'' v) uc = uc\<lparr>uc_hasher_queue_size := of_int (strtoll v)\<rparr>"
    "config_token (option_word short ''hasher_polling'' ''hp'' v) uc = uc\<lparr>uc_hasher_polling := config_bool_parse v 100\<rparr>"
    "config_token (option_word short ''reporter_polling'' ''rp'' v) uc = uc\<lparr>uc_reporter_polling := config_bool_parse v 100\<rparr>"
    "config_token (option_word short ''reporter_thold'' ''rt'' v) uc = uc\<lparr>uc_reporter_thold := of_int (strtoll v)\<rparr>"
    "config_token (option_word short ''debug_state'' ''ds'' v) uc = uc\<lparr>uc_debug_state := config_bool_parse v 100\<rparr>"
  by (subst config_option_word, code_simp, code_simp, rule assms, cases short,
      simp_all add: config_string_def strncmp_100)+

definition option_ok :: "string \<Rightarrow> bool" where
  "option_ok w \<longleftrightarrow> w \<noteq> [] \<and> (\<forall>x\<in>set w. \<not> option_delim x)"

lemma option_ok_word:
  assumes "key_word l" "key_word s" "value_word v"
  shows "option_ok (option_word short l s v)"
proof -
  have "\<not> option_delim (CHR ''='')" by code_simp
  moreover have "option_ok (k @ CHR ''='' # v)" if "key_word k" "\<not> option_delim (CHR ''='')" for k
    using that assms(3) unfolding option_ok_def key_word_def value_word_def set_append set_simps(2) by blast
  ultimately show ?thesis using assms(1,2) by (simp add: option_word_def)
qed

lemma key_words:
  "key_word ''cache_size''" "key_word ''cs''" "key_word ''thread_cache_size''" "key_word ''tcs''"
  "key_word ''fixed_count''" "key_word ''fc''" "key_word ''burst_size''" "key_word ''bs''"
  "key_word ''tick_interval''" "key_word ''ti''" "key_word ''tick_count''" "key_word ''tc''"
  "key_word ''perpkt_threads''" "key_word ''pt''" "key_word ''hasher_queue_size''" "key_word ''hqs''"
  "key_word ''hasher_polling''" "key_word ''hp''" "key_word ''reporter_polling''" "key_word ''rp''"
  "key_word ''reporter_thold''" "key_word ''rt''" "key_word ''debug_state''" "key_word ''ds''"
  by code_simp+

lemma config_words_ok: "list_all option_ok (config_words short uc)"
  unfolding config_words_def list.pred_inject
  by (intro conjI option_ok_word key_words value_show_dec value_show_bool list.pred_inject(1))

lemma fold_config_words:
  assumes "list_all (\<lambda>w. w < 2 ^ 63) (config_sizes uc)"
  shows "fold config_token (config_words short uc) uc0 = uc"
proof -
  note sizes = assms [unfolded config_sizes_def list.pred_inject]
  show ?thesis
    unfolding config_words_def fold_simps config_token_options [OF value_show_dec] config_token_options [OF value_show_bool]
    using sizes by (simp add: parse_show_size)
qed

section \<open>The names of environment variables\<close>

lemma env_chars_clean:
  assumes "CHR 0x00 \<notin> set w" "CHR '':'' \<notin> set w"
  shows "env_chars i (w @ CHR 0x00 # z) mark = Inr (map env_char w @ CHR 0x00 # z, mark)"
  using assms by (induction w arbitrary: i) auto

lemma env_chars_colon:
  assumes "CHR 0x00 \<notin> set w" "CHR 0x00 \<notin> set v" "CHR '':'' \<notin> set v"
  shows "env_chars i (w @ CHR '':'' # v @ CHR 0x00 # z) mark =
    Inr (map env_char (w @ CHR '':'' # v) @ CHR 0x00 # z, i + length w)"
  using assms by (induction w arbitrary: i mark) (auto simp: env_chars_clean)

lemma env_chars_overrun:
  assumes "CHR 0x00 \<notin> set w"
  shows "env_chars i w mark = Inl (OutOfBounds (i + length w))"
  using assms by (induction w arbitrary: i mark) auto

lemma strncpy_end:
  assumes "off = length w" "k = length z"
  shows "strncpy (w @ z) off s k = Inr (w @ take k (s @ replicate k (CHR 0x00)))"
  using assms by (simp add: strncpy_def)

lemma strncpy_fits:
  assumes "off = length w" "k = length z" "length s + j = k"
  shows "strncpy (w @ z) off s k = Inr (w @ s @ replicate j (CHR 0x00))"
proof -
  have "take k (s @ replicate k (CHR 0x00)) = s @ replicate j (CHR 0x00)"
    using assms(3) by (auto simp: min_def)
  then show ?thesis using strncpy_end [OF assms(1,2)] by simp
qed

text \<open>The buffer after the three copies.\<close>

definition env_prefix :: string where
  "env_prefix = ''LIBTRACE_CONF_''"

lemma env_prefix_props: "length env_prefix = 14" "map env_char env_prefix = env_prefix"
  "CHR 0x00 \<notin> set env_prefix" by code_simp+

lemma parse_env_buffer:
  assumes "length format_name < 1000" "k = env_name_size - (15 + length format_name)"
  shows "parse_env_config getenv format_name uridata trace =
    bindr (env_chars 0 ((env_prefix @ format_name @ '':'') @ take k (uridata @ replicate k (CHR 0x00))) 0)
      (\<lambda>(env_name, mark).
        let trace = env_apply getenv ''LIBTRACE_CONF'' trace;
            trace = (if mark \<noteq> 0 then env_apply getenv (c_str (env_name[mark := CHR 0x00])) trace else trace);
            env_name = (if mark \<noteq> 0 then env_name[mark := CHR ''_''] else env_name) in
        Inr (env_apply getenv (c_str env_name) trace))"
proof -
  let ?F = "length format_name" and ?N = env_name_size
  have N: "15 + ?F \<le> ?N" using assms(1) by (simp add: env_name_size_def)
  note l = env_prefix_props(1)
  have 1: "strncpy (env_prefix @ replicate (?N - 14) (CHR 0x00)) 14 format_name (?N - 14) =
      Inr (env_prefix @ format_name @ replicate (?N - (14 + ?F)) (CHR 0x00))"
    by (rule strncpy_fits) (use N l in simp_all)
  have 2: "strncpy ((env_prefix @ format_name) @ replicate (?N - (14 + ?F)) (CHR 0x00)) (14 + ?F) '':'' (?N - (14 + ?F)) =
      Inr ((env_prefix @ format_name) @ '':'' @ replicate k (CHR 0x00))"
    by (rule strncpy_fits) (use N l assms(2) in simp_all)
  have 3: "strncpy ((env_prefix @ format_name @ '':'') @ replicate k (CHR 0x00)) (14 + ?F + 1) uridata (?N - (14 + ?F + 1)) =
      Inr ((env_prefix @ format_name @ '':'') @ take k (uridata @ replicate k (CHR 0x00)))"
    using assms(2) strncpy_end [of "14 + ?F + 1" "env_prefix @ format_name @ '':''" k "replicate k (CHR 0x00)" uridata] l
    by simp
  note steps = 1 2 [unfolded append_assoc] 3 [unfolded append_assoc]
  show ?thesis
    unfolding parse_env_config_def env_prefix_def [symmetric] Let_def l append_assoc steps bindr_Inr ..
qed

lemma c_str_zero:
  assumes "CHR 0x00 \<notin> set w"
  shows "c_str (w @ CHR 0x00 # z) = w"
  using assms unfolding c_str_def by (simp add: takeWhile_append)

lemma env_char_not_zero: "CHR 0x00 \<notin> set (map env_char w)"
proof -
  have "env_char c \<noteq> CHR 0x00" for c
    by (simp add: env_char_def Let_def isupper_c_def isdigit_c_def split: if_split) auto
  then have "CHR 0x00 \<noteq> env_char c" for c by (rule not_sym)
  then show ?thesis by (induction w) simp_all
qed

text \<open>The loop over a name that fits, with its last colon between \<open>pre\<close> and \<open>post\<close>.\<close>

lemma env_chars_name:
  assumes "CHR 0x00 \<notin> set (pre @ CHR '':'' # post)" "CHR '':'' \<notin> set post"
  shows "env_chars 0 (env_prefix @ pre @ CHR '':'' # post @ CHR 0x00 # z) 0 =
    Inr (env_prefix @ map env_char pre @ CHR ''_'' # map env_char post @ CHR 0x00 # z, 14 + length pre)"
proof -
  have "env_char (CHR '':'') = CHR ''_''" by code_simp
  then show ?thesis
    using env_chars_colon [of "env_prefix @ pre" post 0 z 0] assms env_prefix_props by simp
qed

lemma c_str_name: "c_str (env_prefix @ map env_char pre @ CHR 0x00 # z) = env_prefix @ map env_char pre"
  using c_str_zero [of "env_prefix @ map env_char pre" z] env_prefix_props(3) env_char_not_zero [of pre] by simp

lemma c_str_full:
  "c_str (env_prefix @ map env_char pre @ CHR ''_'' # map env_char post @ CHR 0x00 # z) =
     env_prefix @ map env_char pre @ CHR ''_'' # map env_char post"
  using c_str_zero [of "env_prefix @ map env_char pre @ CHR ''_'' # map env_char post" z]
    env_prefix_props(3) env_char_not_zero [of pre] env_char_not_zero [of post] by simp

lemma env_buffer:
  "(env_prefix @ format_name @ '':'') @ take k (uridata @ replicate k (CHR 0x00)) =
      env_prefix @ (format_name @ CHR '':'' # take k uridata) @ replicate (k - length uridata) (CHR 0x00)"
  by simp

lemma parse_env_fits:
  assumes "length format_name < 1000" "CHR 0x00 \<notin> set format_name" "CHR 0x00 \<notin> set uridata"
    "format_name @ CHR '':'' # uridata = pre @ CHR '':'' # post" "CHR '':'' \<notin> set post"
    and fits: "length format_name + length uridata < 1009"
  shows "parse_env_config getenv format_name uridata trace =
    Inr (env_apply getenv (env_prefix @ map env_char pre @ CHR ''_'' # map env_char post)
      (env_apply getenv (env_prefix @ map env_char pre) (env_apply getenv ''LIBTRACE_CONF'' trace)))"
proof -
  define k where "k = env_name_size - (15 + length format_name)"
  note parse = parse_env_buffer [OF assms(1) k_def, unfolded env_buffer]
  obtain j where j: "k - length uridata = Suc j" and "length uridata \<le> k"
    using fits unfolding k_def env_name_size_def by (cases "1024 - (15 + length format_name) - length uridata") auto
  then have "(format_name @ CHR '':'' # take k uridata) @ replicate (k - length uridata) (CHR 0x00) =
      pre @ CHR '':'' # post @ CHR 0x00 # replicate j (CHR 0x00)"
    using assms(4) by simp
  moreover have "CHR 0x00 \<notin> set (pre @ CHR '':'' # post)"
    using assms(2,3) unfolding assms(4) [symmetric] by simp
  ultimately show ?thesis
    unfolding parse
    by (simp add: env_chars_name assms(5) list_update_append env_prefix_props(1) c_str_name c_str_full)
qed

lemma parse_env_too_long:
  assumes "length format_name < 1000" "CHR 0x00 \<notin> set format_name" "CHR 0x00 \<notin> set uridata"
    "\<not> length format_name + length uridata < 1009"
  shows "parse_env_config getenv format_name uridata trace = Inl (OutOfBounds 1024)"
proof -
  define k where "k = env_name_size - (15 + length format_name)"
  have k: "k - length uridata = 0" "length (take k uridata) = k" "k + length format_name + 15 = 1024"
    using assms(1,4) unfolding k_def env_name_size_def by simp_all
  have "CHR 0x00 \<notin> set (env_prefix @ format_name @ CHR '':'' # take k uridata)"
    using assms(2,3) env_prefix_props(3) by (auto dest: in_set_takeD)
  from env_chars_overrun [OF this, of 0 0] k show ?thesis
    unfolding parse_env_buffer [OF assms(1) k_def, unfolded env_buffer] by (simp add: env_prefix_props(1))
qed

section \<open>Properties\<close>

text \<open>
  (C30) Configuration strings. A configuration that is written out with all its options, under
  their long or their short names, separated by any of the four delimiters, is read back exactly,
  whatever was configured before, as long as its sizes are below \<open>2 ^ 63\<close> (beyond that the
  number parser saturates). A trace that is not configurable is not changed.
\<close>

theorem configuration_roundtrip:
  assumes "option_delim c" "list_all (\<lambda>w. w < 2 ^ 63) (config_sizes uc)"
  shows "trace_set_configuration trace (sep_by c (config_words short uc)) =
    (if lt_state trace = STATE_NEW \<or> lt_state trace = STATE_PAUSED then (0, trace\<lparr>lt_config := uc\<rparr>) else (- 1, trace))"
proof -
  have "strtok option_delim (sep_by c (config_words short uc)) = config_words short uc"
    using assms(1) by (rule strtok_sep_by) (use config_words_ok in \<open>auto simp: list_all_iff option_ok_def\<close>)
  then show ?thesis
    using fold_config_words [OF assms(2)]
    by (simp add: trace_set_configuration_def set_config_def trace_is_configurable_def)
qed

text \<open>
  Configuration from the environment. The variables are applied from the general to the
  specific: \<open>LIBTRACE_CONF\<close>, then the name up to the last colon of \<open>format:uri\<close>, then the full
  name, in capitals with all other characters replaced by underscores. The second is the
  variable of the format, as documented, only for a URI without a colon (then \<open>pre\<close> is the
  name of the format). A name that does not fit into the 1024 bytes of the buffer is not
  terminated, and the loop over it runs out of the buffer.
\<close>

theorem env_config_order:
  assumes "length format_name < 1000" "CHR 0x00 \<notin> set format_name" "CHR 0x00 \<notin> set uridata"
    and "format_name @ CHR '':'' # uridata = pre @ CHR '':'' # post" "CHR '':'' \<notin> set post"
  shows "parse_env_config getenv format_name uridata trace =
    (if length format_name + length uridata < 1009
     then Inr (env_apply getenv (env_prefix @ map env_char pre @ CHR ''_'' # map env_char post)
         (env_apply getenv (env_prefix @ map env_char pre) (env_apply getenv ''LIBTRACE_CONF'' trace)))
     else Inl (OutOfBounds 1024))"
  by (cases "length format_name + length uridata < 1009")
    (simp_all add: parse_env_fits [OF assms] parse_env_too_long [OF assms(1-3)])

definition example_config :: user_configuration where
  "example_config = \<lparr>uc_cache_size = 0, uc_thread_cache_size = 0, uc_fixed_count = False, uc_burst_size = 0,
     uc_tick_interval = 0, uc_tick_count = 0, uc_perpkt_threads = 0, uc_hasher_queue_size = 0,
     uc_hasher_polling = False, uc_reporter_polling = False, uc_reporter_thold = 0, uc_debug_state = False\<rparr>"

definition example_trace :: "('f, 'c) libtrace" where
  "example_trace = \<lparr>lt_state = STATE_NEW, lt_config = example_config,
     lt_tracetime = False, lt_hasher_type = HASHER_BALANCE, lt_hasher = None, lt_combiner = None,
     lt_perpkt_thread_count = 0, lt_dedicated_hasher = False\<rparr>"

theorem configuration_roundtrip_witness:
  "trace_set_configuration (example_trace :: (unit, unit) libtrace)
     (sep_by (CHR '','') (config_words True (example_config\<lparr>uc_burst_size := 16\<rparr>))) =
    (0, example_trace\<lparr>lt_config := example_config\<lparr>uc_burst_size := 16\<rparr>\<rparr>)"
proof -
  have "option_delim (CHR '','')" "list_all (\<lambda>w. w < 2 ^ 63) (config_sizes (example_config\<lparr>uc_burst_size := 16\<rparr>))"
    by code_simp+
  from configuration_roundtrip [OF this, of example_trace True] show ?thesis by (simp add: example_trace_def)
qed

lemma rt_name:
  "length ''rt'' < 1000" "CHR 0x00 \<notin> set ''rt''" "CHR 0x00 \<notin> set ''host:3434''"
  "''rt'' @ CHR '':'' # ''host:3434'' = ''rt:host'' @ CHR '':'' # ''3434''" "CHR '':'' \<notin> set ''3434''"
  "length ''rt'' + length ''host:3434'' < 1009"
  "env_prefix @ map env_char ''rt:host'' @ CHR ''_'' # map env_char ''3434'' = ''LIBTRACE_CONF_RT_HOST_3434''"
  "env_prefix @ map env_char ''rt:host'' = ''LIBTRACE_CONF_RT_HOST''"
  by code_simp+

theorem env_config_order_witness:
  "parse_env_config (\<lambda>_. None) ''rt'' ''host:3434'' example_trace = Inr example_trace"
  using env_config_order [OF rt_name(1-5), of "\<lambda>_. None" example_trace] by (simp add: env_apply_def)

text \<open>The URI of an RT server has a colon: the variable of its format is not looked at.\<close>

lemma env_format_missed:
  "parse_env_config (\<lambda>n. if n = ''LIBTRACE_CONF_RT'' then Some ''burst_size=16'' else None)
     ''rt'' ''host:3434'' example_trace = Inr example_trace"
  unfolding parse_env_fits [OF rt_name(1-6)] rt_name(7,8) by (simp add: env_apply_def)

lemma perpkt_count_pos:
  assumes "unat (w :: size_t) < 2 ^ 31" "w \<noteq> 0"
  shows "0 < sint (ucast w :: 32 word)" "unat (ucast w :: 32 word) = unat w"
proof -
  show u: "unat (ucast w :: 32 word) = unat w" using assms(1) by (simp add: unsigned_ucast_eq take_bit_nat_eq_self)
  have "int (unat w) < int (2 ^ 31)" using assms(1) by (simp only: of_nat_less_iff)
  then have b: "uint w < 2 ^ 31" by simp
  then have c: "uint (ucast w :: 32 word) = uint w" by (simp add: unsigned_ucast_eq take_bit_int_eq_self)
  then have "sint (ucast w :: 32 word) = uint w"
    unfolding sint_uint c using b uint_ge_0 [of w]
    by (intro signed_take_bit_int_eq_self) (simp_all add: order.trans [of _ 0])
  then show "0 < sint (ucast w :: 32 word)" using assms(2) uint_ge_0 [of w] by (simp add: order_less_le unsigned_eq_0_iff)
qed

lemma pos_int:
  assumes "0 < sint (n :: 32 word)"
  shows "unat (scast n :: size_t) = unat n" "unat n < 2 ^ 31"
proof -
  have b: "sint n < 2 ^ 31" using sint_less [of n] by simp
  then have s: "uint n = sint n" using assms uint_sint [of n] by (simp add: take_bit_int_eq_self)
  then show "unat n < 2 ^ 31" using b by (simp add: unat_eq_nat_uint nat_less_iff)
  have c: "(scast n :: size_t) = word_of_int (sint n)" by (rule scast_eq)
  have "uint (scast n :: size_t) = sint n" unfolding c uint_word_of_int_eq
    by (rule take_bit_int_eq_self) (use b assms in simp_all)
  then show "unat (scast n :: size_t) = unat n" using s by (simp only: unat_eq_nat_uint)
qed

lemma verify_fields:
  fixes trace :: "('f, 'c) libtrace"
  assumes "uc = lt_config trace" "trace' = verify_configuration numCPU dflt trace"
    "uc' = lt_config trace'" "n = lt_perpkt_thread_count trace'"
  shows "n = (if uc_perpkt_threads uc = 0 then get_nb_cores numCPU else ucast (uc_perpkt_threads uc))"
    "uc_hasher_queue_size uc' = (if uc_hasher_queue_size uc = 0 then 1000 else uc_hasher_queue_size uc)"
    "uc_reporter_thold uc' = (if uc_reporter_thold uc = 0 then 100 else uc_reporter_thold uc)"
    "uc_burst_size uc' = (if uc_burst_size uc = 0 then 10 else uc_burst_size uc)"
    "uc_thread_cache_size uc' = (if uc_thread_cache_size uc = 0 then 20 else uc_thread_cache_size uc)"
    "uc_cache_size uc' = (if uc_cache_size uc = 0 then (uc_hasher_queue_size uc' + 1) * scast n else uc_cache_size uc)"
    "lt_combiner trace' \<noteq> None" "lt_hasher trace \<noteq> None \<and> 1 < sint n \<Longrightarrow> lt_dedicated_hasher trace'"
  unfolding assms(3,4) unfolding assms(1,2)
  by (simp_all add: verify_configuration_def get_nb_cores_def Let_def)

text \<open>
  The configuration that a trace is started with. For a number of threads that is an \<open>int\<close>,
  the number of per-packet threads is positive; every size is set, to the value that was configured
  if there was one; the packet cache that is chosen by default has room for a full queue and one
  more packet per thread, and its size does not wrap around; there is a combiner, and a
  dedicated hasher whenever there is a hasher and more than one thread.
\<close>

theorem verify_configuration_correct:
  fixes trace :: "('f, 'c) libtrace"
  assumes "unat (uc_perpkt_threads (lt_config trace)) < 2 ^ 31" "unat (uc_hasher_queue_size (lt_config trace)) < 2 ^ 32 - 1"
    and "uc = lt_config trace" "trace' = verify_configuration numCPU dflt trace"
    and "uc' = lt_config trace'" "n = lt_perpkt_thread_count trace'"
  shows "0 < sint n \<and> (uc_perpkt_threads uc \<noteq> 0 \<longrightarrow> unat n = unat (uc_perpkt_threads uc)) \<and>
    uc_hasher_queue_size uc' = (if uc_hasher_queue_size uc = 0 then 1000 else uc_hasher_queue_size uc) \<and>
    uc_reporter_thold uc' = (if uc_reporter_thold uc = 0 then 100 else uc_reporter_thold uc) \<and>
    uc_burst_size uc' = (if uc_burst_size uc = 0 then 10 else uc_burst_size uc) \<and>
    uc_thread_cache_size uc' = (if uc_thread_cache_size uc = 0 then 20 else uc_thread_cache_size uc) \<and>
    (uc_cache_size uc \<noteq> 0 \<longrightarrow> uc_cache_size uc' = uc_cache_size uc) \<and>
    (uc_cache_size uc = 0 \<longrightarrow> unat (uc_cache_size uc') = (unat (uc_hasher_queue_size uc') + 1) * unat n) \<and>
    lt_combiner trace' \<noteq> None \<and> (lt_hasher trace \<noteq> None \<and> 1 < sint n \<longrightarrow> lt_dedicated_hasher trace')"
proof -
  note f = verify_fields [OF assms(3-6)]
  define q where "q = uc_hasher_queue_size uc'"
  have t: "unat (uc_perpkt_threads uc) < 2 ^ 31" "unat (uc_hasher_queue_size uc) < 2 ^ 32 - 1"
    using assms(1,2) unfolding assms(3) by simp_all
  have pos: "0 < sint n" and thr: "uc_perpkt_threads uc \<noteq> 0 \<Longrightarrow> unat n = unat (uc_perpkt_threads uc)"
    using perpkt_count_pos [OF t(1)] unfolding f(1) by (auto simp: get_nb_cores_def)
  have q: "unat q < 2 ^ 32 - 1" using t(2) unfolding q_def f(2) by simp
  then have q1: "unat (q + 1) = unat q + 1" by (simp add: unat_word_ariths)
  have "(unat q + 1) * unat n < 2 ^ 32 * 2 ^ 31"
    by (rule mult_strict_mono) (use q pos_int(2) [OF pos] in simp_all)
  then have "unat ((q + 1) * scast n) = (unat q + 1) * unat n"
    using q1 pos_int(1) [OF pos] by (simp add: unat_word_ariths)
  then show ?thesis
    using pos thr f(3-5,7,8) f(6) [folded q_def] f(2) unfolding q_def [symmetric] by simp
qed

theorem verify_configuration_correct_witness:
  "0 < sint (lt_perpkt_thread_count (verify_configuration 4 () (example_trace :: (unit, unit) libtrace))) \<and>
   uc_burst_size (lt_config (verify_configuration 4 () (example_trace :: (unit, unit) libtrace))) = 10"
  using verify_configuration_correct [OF _ _ refl refl refl refl, of "example_trace :: (unit, unit) libtrace" 4 "()"]
  by (simp add: example_trace_def example_config_def)

text \<open>More threads than an \<open>int\<close> can count, which a configuration string can ask for, may mean none.\<close>

lemma perpkt_threads_truncated:
  "lt_perpkt_thread_count (verify_configuration 4 ()
     (snd (trace_set_configuration (example_trace :: (unit, unit) libtrace) ''perpkt_threads=4294967296''))) = 0"
  by code_simp

end
