(* ===== verification/Linktypes.thy ===== *)
theory Linktypes
  imports Prelude
begin

text \<open>
  Link types and their conversions, \<open>lib/linktypes.c\<close>: between the types of libtrace, the
  DLT numbers of pcap, the packet types of the RT protocol, the record types of ERF and the
  ARPHRD numbers of Linux. The numbers are those of a Linux build.
\<close>

section \<open>Types and numbers\<close>

datatype libtrace_linktype =
    TRACE_TYPE_UNKNOWN
  | TRACE_TYPE_HDLC_POS
  | TRACE_TYPE_ETH
  | TRACE_TYPE_ATM
  | TRACE_TYPE_80211
  | TRACE_TYPE_NONE
  | TRACE_TYPE_LINUX_SLL
  | TRACE_TYPE_PFLOG
  | TRACE_TYPE_POS
  | TRACE_TYPE_80211_PRISM
  | TRACE_TYPE_AAL5
  | TRACE_TYPE_DUCK
  | TRACE_TYPE_80211_RADIO
  | TRACE_TYPE_LLCSNAP
  | TRACE_TYPE_PPP
  | TRACE_TYPE_METADATA
  | TRACE_TYPE_NONDATA
  | TRACE_TYPE_OPENBSD_LOOP

type_synonym libtrace_dlt = int
type_synonym libtrace_rt_types = int

definition TRACE_DLT_ERROR :: libtrace_dlt where "TRACE_DLT_ERROR = -1"
definition TRACE_DLT_NULL :: libtrace_dlt where "TRACE_DLT_NULL = 0"
definition TRACE_DLT_EN10MB :: libtrace_dlt where "TRACE_DLT_EN10MB = 1"
definition TRACE_DLT_PPP :: libtrace_dlt where "TRACE_DLT_PPP = 9"
definition TRACE_DLT_ATM_RFC1483 :: libtrace_dlt where "TRACE_DLT_ATM_RFC1483 = 11"
definition TRACE_DLT_RAW :: libtrace_dlt where "TRACE_DLT_RAW = 12"
definition TRACE_DLT_PPP_SERIAL :: libtrace_dlt where "TRACE_DLT_PPP_SERIAL = 50"
definition TRACE_DLT_LINKTYPE_RAW :: libtrace_dlt where "TRACE_DLT_LINKTYPE_RAW = 101"
definition TRACE_DLT_C_HDLC :: libtrace_dlt where "TRACE_DLT_C_HDLC = 104"
definition TRACE_DLT_IEEE802_11 :: libtrace_dlt where "TRACE_DLT_IEEE802_11 = 105"
definition TRACE_DLT_OPENBSD_LOOP :: libtrace_dlt where "TRACE_DLT_OPENBSD_LOOP = 108"
definition TRACE_DLT_LINUX_SLL :: libtrace_dlt where "TRACE_DLT_LINUX_SLL = 113"
definition TRACE_DLT_PFLOG :: libtrace_dlt where "TRACE_DLT_PFLOG = 117"
definition TRACE_DLT_IEEE802_11_RADIO :: libtrace_dlt where "TRACE_DLT_IEEE802_11_RADIO = 127"

lemmas dlt_defs = TRACE_DLT_ERROR_def TRACE_DLT_NULL_def TRACE_DLT_EN10MB_def TRACE_DLT_PPP_def
  TRACE_DLT_ATM_RFC1483_def TRACE_DLT_RAW_def TRACE_DLT_PPP_SERIAL_def TRACE_DLT_LINKTYPE_RAW_def
  TRACE_DLT_C_HDLC_def TRACE_DLT_IEEE802_11_def TRACE_DLT_OPENBSD_LOOP_def TRACE_DLT_LINUX_SLL_def
  TRACE_DLT_PFLOG_def TRACE_DLT_IEEE802_11_RADIO_def

definition TRACE_RT_DATA_DLT :: libtrace_rt_types where "TRACE_RT_DATA_DLT = 2000"
definition TRACE_RT_DATA_DLT_END :: libtrace_rt_types where "TRACE_RT_DATA_DLT_END = 2999"
definition TRACE_RT_DATA_BPF :: libtrace_rt_types where "TRACE_RT_DATA_BPF = 3000"
definition TRACE_RT_DATA_BPF_END :: libtrace_rt_types where "TRACE_RT_DATA_BPF_END = 3999"

lemmas rt_defs = TRACE_RT_DATA_DLT_def TRACE_RT_DATA_DLT_END_def TRACE_RT_DATA_BPF_def
  TRACE_RT_DATA_BPF_END_def

definition TYPE_HDLC_POS :: u8 where "TYPE_HDLC_POS = 1"
definition TYPE_ETH :: u8 where "TYPE_ETH = 2"
definition TYPE_ATM :: u8 where "TYPE_ATM = 3"
definition TYPE_AAL5 :: u8 where "TYPE_AAL5 = 4"
definition TYPE_DSM_COLOR_ETH :: u8 where "TYPE_DSM_COLOR_ETH = 16"
definition TYPE_IPV4 :: u8 where "TYPE_IPV4 = 22"
definition TYPE_IPV6 :: u8 where "TYPE_IPV6 = 23"

lemmas erf_defs = TYPE_HDLC_POS_def TYPE_ETH_def TYPE_ATM_def TYPE_AAL5_def TYPE_DSM_COLOR_ETH_def
  TYPE_IPV4_def TYPE_IPV6_def

definition LIBTRACE_ARPHRD_ETHER :: u32 where "LIBTRACE_ARPHRD_ETHER = 1"
definition LIBTRACE_ARPHRD_EETHER :: u32 where "LIBTRACE_ARPHRD_EETHER = 2"
definition LIBTRACE_ARPHRD_PPP :: u32 where "LIBTRACE_ARPHRD_PPP = 512"
definition LIBTRACE_ARPHRD_LOOPBACK :: u32 where "LIBTRACE_ARPHRD_LOOPBACK = 772"
definition LIBTRACE_ARPHRD_IEEE80211 :: u32 where "LIBTRACE_ARPHRD_IEEE80211 = 801"
definition LIBTRACE_ARPHRD_IEEE80211_RADIOTAP :: u32 where "LIBTRACE_ARPHRD_IEEE80211_RADIOTAP = 803"
definition LIBTRACE_ARPHRD_NONE :: u32 where "LIBTRACE_ARPHRD_NONE = 0xFFFE"

lemmas arphrd_defs = LIBTRACE_ARPHRD_ETHER_def LIBTRACE_ARPHRD_EETHER_def LIBTRACE_ARPHRD_PPP_def
  LIBTRACE_ARPHRD_LOOPBACK_def LIBTRACE_ARPHRD_IEEE80211_def LIBTRACE_ARPHRD_IEEE80211_RADIOTAP_def
  LIBTRACE_ARPHRD_NONE_def

section \<open>Conversions\<close>

definition pcap_linktype_to_libtrace :: "libtrace_dlt \<Rightarrow> libtrace_linktype" where
  "pcap_linktype_to_libtrace linktype =
     (if linktype = TRACE_DLT_RAW \<or> linktype = TRACE_DLT_LINKTYPE_RAW then TRACE_TYPE_NONE
      else if linktype = TRACE_DLT_EN10MB then TRACE_TYPE_ETH
      else if linktype = TRACE_DLT_IEEE802_11 then TRACE_TYPE_80211
      else if linktype = TRACE_DLT_LINUX_SLL then TRACE_TYPE_LINUX_SLL
      else if linktype = TRACE_DLT_PFLOG then TRACE_TYPE_PFLOG
      else if linktype = TRACE_DLT_IEEE802_11_RADIO then TRACE_TYPE_80211_RADIO
      else if linktype = TRACE_DLT_ATM_RFC1483 then TRACE_TYPE_LLCSNAP
      else if linktype = TRACE_DLT_PPP then TRACE_TYPE_PPP
      else if linktype = TRACE_DLT_PPP_SERIAL then TRACE_TYPE_POS
      else if linktype = TRACE_DLT_C_HDLC then TRACE_TYPE_HDLC_POS
      else if linktype = TRACE_DLT_OPENBSD_LOOP then TRACE_TYPE_OPENBSD_LOOP
      else TRACE_TYPE_UNKNOWN)"

fun libtrace_to_pcap_dlt :: "libtrace_linktype \<Rightarrow> libtrace_dlt" where
  "libtrace_to_pcap_dlt TRACE_TYPE_NONE = TRACE_DLT_RAW"
| "libtrace_to_pcap_dlt TRACE_TYPE_ETH = TRACE_DLT_EN10MB"
| "libtrace_to_pcap_dlt TRACE_TYPE_80211 = TRACE_DLT_IEEE802_11"
| "libtrace_to_pcap_dlt TRACE_TYPE_LINUX_SLL = TRACE_DLT_LINUX_SLL"
| "libtrace_to_pcap_dlt TRACE_TYPE_PFLOG = TRACE_DLT_PFLOG"
| "libtrace_to_pcap_dlt TRACE_TYPE_80211_RADIO = TRACE_DLT_IEEE802_11_RADIO"
| "libtrace_to_pcap_dlt TRACE_TYPE_LLCSNAP = TRACE_DLT_ATM_RFC1483"
| "libtrace_to_pcap_dlt TRACE_TYPE_PPP = TRACE_DLT_PPP"
| "libtrace_to_pcap_dlt TRACE_TYPE_HDLC_POS = TRACE_DLT_C_HDLC"
| "libtrace_to_pcap_dlt TRACE_TYPE_POS = TRACE_DLT_PPP_SERIAL"
| "libtrace_to_pcap_dlt TRACE_TYPE_OPENBSD_LOOP = TRACE_DLT_OPENBSD_LOOP"
| "libtrace_to_pcap_dlt _ = TRACE_DLT_ERROR"

definition pcap_dlt_to_pcap_linktype :: "libtrace_dlt \<Rightarrow> libtrace_dlt" where
  "pcap_dlt_to_pcap_linktype linktype =
     (if linktype = TRACE_DLT_RAW then TRACE_DLT_LINKTYPE_RAW else linktype)"

definition libtrace_to_pcap_linktype :: "libtrace_linktype \<Rightarrow> libtrace_dlt" where
  "libtrace_to_pcap_linktype type = pcap_dlt_to_pcap_linktype (libtrace_to_pcap_dlt type)"

definition pcap_linktype_to_rt :: "libtrace_dlt \<Rightarrow> libtrace_rt_types" where
  "pcap_linktype_to_rt linktype = pcap_dlt_to_pcap_linktype linktype + TRACE_RT_DATA_DLT"

definition bpf_linktype_to_rt :: "libtrace_dlt \<Rightarrow> libtrace_rt_types" where
  "bpf_linktype_to_rt linktype = pcap_dlt_to_pcap_linktype linktype + TRACE_RT_DATA_BPF"

definition rt_to_pcap_linktype :: "libtrace_rt_types \<Rightarrow> libtrace_dlt res" where
  "rt_to_pcap_linktype rt_type =
     (if TRACE_RT_DATA_DLT \<le> rt_type \<and> rt_type < TRACE_RT_DATA_DLT_END
      then Inr (rt_type - TRACE_RT_DATA_DLT)
      else if TRACE_RT_DATA_BPF \<le> rt_type \<and> rt_type < TRACE_RT_DATA_BPF_END
      then Inr (rt_type - TRACE_RT_DATA_BPF)
      else assertr (TRACE_RT_DATA_DLT \<le> rt_type \<and> rt_type < TRACE_RT_DATA_BPF_END) (Inr 0))"

definition erf_type_to_libtrace :: "u8 \<Rightarrow> libtrace_linktype" where
  "erf_type_to_libtrace erf =
     (if erf = TYPE_HDLC_POS then TRACE_TYPE_HDLC_POS
      else if erf = TYPE_ETH then TRACE_TYPE_ETH
      else if erf = TYPE_ATM then TRACE_TYPE_ATM
      else if erf = TYPE_AAL5 then TRACE_TYPE_AAL5
      else if erf = TYPE_DSM_COLOR_ETH then TRACE_TYPE_ETH
      else if erf = TYPE_IPV4 then TRACE_TYPE_NONE
      else if erf = TYPE_IPV6 then TRACE_TYPE_NONE
      else TRACE_TYPE_UNKNOWN)"

fun libtrace_to_erf_type :: "libtrace_linktype \<Rightarrow> u8" where
  "libtrace_to_erf_type TRACE_TYPE_HDLC_POS = TYPE_HDLC_POS"
| "libtrace_to_erf_type TRACE_TYPE_ETH = TYPE_ETH"
| "libtrace_to_erf_type TRACE_TYPE_ATM = TYPE_ATM"
| "libtrace_to_erf_type TRACE_TYPE_AAL5 = TYPE_AAL5"
| "libtrace_to_erf_type TRACE_TYPE_NONE = TYPE_IPV4"
| "libtrace_to_erf_type _ = 255"

definition arphrd_type_to_libtrace :: "u32 \<Rightarrow> libtrace_linktype" where
  "arphrd_type_to_libtrace arphrd =
     (if arphrd = LIBTRACE_ARPHRD_ETHER then TRACE_TYPE_ETH
      else if arphrd = LIBTRACE_ARPHRD_EETHER then TRACE_TYPE_ETH
      else if arphrd = LIBTRACE_ARPHRD_IEEE80211 then TRACE_TYPE_80211
      else if arphrd = LIBTRACE_ARPHRD_IEEE80211_RADIOTAP then TRACE_TYPE_80211_RADIO
      else if arphrd = LIBTRACE_ARPHRD_PPP then TRACE_TYPE_NONE
      else if arphrd = LIBTRACE_ARPHRD_LOOPBACK then TRACE_TYPE_ETH
      else if arphrd = LIBTRACE_ARPHRD_NONE then TRACE_TYPE_NONE
      else TRACE_TYPE_UNKNOWN)"

definition libtrace_to_arphrd_type :: "libtrace_linktype \<Rightarrow> u32" where
  "libtrace_to_arphrd_type linktype =
     (case linktype of
        TRACE_TYPE_ETH \<Rightarrow> LIBTRACE_ARPHRD_ETHER
      | TRACE_TYPE_80211 \<Rightarrow> LIBTRACE_ARPHRD_IEEE80211
      | TRACE_TYPE_80211_RADIO \<Rightarrow> LIBTRACE_ARPHRD_IEEE80211_RADIOTAP
      | _ \<Rightarrow> - 1)"

section \<open>Properties\<close>



end
