(* ===== verification/Decode.thy ===== *)
theory Decode
  imports Prelude
begin

text \<open>
  The conventions that the protocol decoders of \<open>lib/protocols_*.c\<close> share. A decoder is given
  the address of a header, the address of a variable for the type of the next header (or
  \<open>NULL\<close>) and the address of the number of captured bytes from the header on (or \<open>NULL\<close>). It
  returns the address of the next header (or \<open>NULL\<close>) and updates the two variables. The locale
  \<open>fixed_header\<close> is the contract of the decoders that skip a header of a fixed size; what
  follows from the contract is proved once, for every decoder.
\<close>

section \<open>Out-parameters\<close>

text \<open>
  The memory behind an out-parameter: there may be none (\<open>NULL\<close>), it may be a variable
  that was never written, or hold a value.
\<close>

datatype 'a outp = NoPtr | Undef | Val 'a

definition put_opt :: "'a outp \<Rightarrow> 'a res \<Rightarrow> 'a outp res" where
  "put_opt tp v = (if tp = NoPtr then Inr NoPtr else bindr v (\<lambda>x. Inr (Val x)))"

definition put :: "'a outp \<Rightarrow> 'a \<Rightarrow> 'a outp res" where
  "put tp x = (if tp = NoPtr then Inl NullDeref else Inr (Val x))"

definition get :: "'a outp \<Rightarrow> 'a res" where
  "get tp = (case tp of NoPtr \<Rightarrow> Inl NullDeref | Undef \<Rightarrow> Inl Uninitialised | Val x \<Rightarrow> Inr x)"

lemma put_Val [simp]: "tp \<noteq> NoPtr \<Longrightarrow> put tp x = Inr (Val x)"
  by (simp add: put_def)

lemma get_Val [simp]: "get (Val x) = Inr x"
  by (simp add: get_def)

lemma get_Undef [simp]: "get Undef = Inl Uninitialised"
  by (simp add: get_def)

lemma put_opt_Inr [simp]: "put_opt tp (Inr x) = Inr (if tp = NoPtr then NoPtr else Val x)"
  by (simp add: put_opt_def)

lemma put_opt_NoPtr [simp]: "put_opt NoPtr v = Inr NoPtr"
  by (simp add: put_opt_def)

section \<open>Widening\<close>

lemma unat_ucast_up:
  fixes w :: "'a::len word"
  assumes "LENGTH('a) \<le> LENGTH('b::len)"
  shows "unat (ucast w :: 'b word) = unat w"
proof -
  have "unat w < 2 ^ LENGTH('a)" by (rule unsigned_less)
  also have "\<dots> \<le> (2 :: nat) ^ LENGTH('b)" using assms by (rule power_increasing) simp
  finally have "unat w < 2 ^ LENGTH('b)" .
  then show ?thesis by (simp add: unsigned_ucast_eq take_bit_nat_eq_self)
qed

lemma unat_ucast_widen [simp]:
  "unat (ucast (a :: u8) :: u16) = unat a"
  "unat (ucast (a :: u8) :: u32) = unat a"
  "unat (ucast (b :: u16) :: u32) = unat b"
  "unat (ucast (b :: u16) :: u64) = unat b"
  "unat (ucast (c :: u32) :: u64) = unat c"
  by (rule unat_ucast_up; simp)+

section \<open>Remaining captured bytes\<close>

type_synonym 'x decoded = "(ptr option \<times> 'x \<times> u32 option) res"

text \<open>
  The block at the head of most decoders: with a count of remaining bytes, fail when there are
  fewer than \<open>sz\<close> (\<open>None\<close>) and otherwise take \<open>sz\<close> off the count; without a count, go on.
\<close>

definition take_header :: "u32 \<Rightarrow> u32 option \<Rightarrow> u32 option option" where
  "take_header sz remaining =
     (case remaining of
        None \<Rightarrow> Some None
      | Some r \<Rightarrow> if r < sz then None else Some (Some (r - sz)))"

lemma take_header_None [simp]: "take_header sz None = Some None"
  by (simp add: take_header_def)

lemma take_header_short [simp]: "r < sz \<Longrightarrow> take_header sz (Some r) = None"
  by (simp add: take_header_def)

lemma take_header_enough [simp]: "sz \<le> r \<Longrightarrow> take_header sz (Some r) = Some (Some (r - sz))"
  by (auto simp: take_header_def)

lemma unat_diff_le: "sz \<le> (r :: u32) \<Longrightarrow> unat (r - sz) = unat r - unat sz"
  by (simp add: unat_sub word_le_nat_alt)

lemma bindr_cong [fundef_cong]:
  assumes "m = m'" "\<And>x. m' = Inr x \<Longrightarrow> f x = f' x"
  shows "bindr m f = bindr m' f'"
  using assms by (cases m') auto

section \<open>Contracts of the decoders\<close>

text \<open>
  \<open>decodes p r res\<close>: run at \<open>p\<close> with \<open>r\<close> captured bytes from there on, a decoder that gave
  \<open>res\<close> did not fault, never increased the count, and the address it returned together with the
  new count describes exactly the rest of the captured bytes.
\<close>

definition decodes :: "ptr \<Rightarrow> u32 \<Rightarrow> 'x decoded \<Rightarrow> bool" where
  "decodes p r res \<longleftrightarrow>
     (\<exists>q x r'. res = Inr (q, x, Some r') \<and> unat r' \<le> unat r \<and>
       (\<forall>p'. q = Some p' \<longrightarrow> p \<le> p' \<and> p' + unat r' = p + unat r))"

lemma decodes_Null [simp]: "decodes p r (Inr (None, x, Some r')) \<longleftrightarrow> unat r' \<le> unat r"
  by (simp add: decodes_def)

lemma decodes_Some [simp]:
  "decodes p r (Inr (Some p', x, Some r')) \<longleftrightarrow> p \<le> p' \<and> p' + unat r' = p + unat r"
  by (auto simp: decodes_def)

lemma decodes_Inl [simp]: "\<not> decodes p r (Inl e)"
  by (simp add: decodes_def)

lemma decodesE [elim]:
  assumes "decodes p r res"
  obtains (null) x r' where "res = Inr (None, x, Some r')" "unat r' \<le> unat r"
    | (next_header) p' x r' where "res = Inr (Some p', x, Some r')" "p \<le> p'"
        "p' + unat r' = p + unat r" "unat r' \<le> unat r"
  using assms unfolding decodes_def by (metis option.exhaust)

lemma decodes_trans:
  assumes "decodes p' r' res" "p \<le> p'" "p' + unat r' = p + unat r"
  shows "decodes p r res"
  using assms unfolding decodes_def by fastforce

lemma decodes_bind:
  assumes "decodes p r res"
    "\<And>q x r'. res = Inr (q, x, Some r') \<Longrightarrow> \<exists>y. f (q, x, Some r') = Inr (q, y, Some r')"
  shows "decodes p r (bindr res f)"
proof -
  obtain q x r' where "res = Inr (q, x, Some r')" using assms(1) by (auto simp: decodes_def)
  with assms show ?thesis unfolding decodes_def by fastforce
qed

text \<open>
  \<open>header_decoder dec k\<close>: \<open>dec\<close> keeps to these rules when the buffer goes on for at least \<open>k\<close>
  bytes behind the captured ones. The number \<open>k\<close> is how far the code may look ahead before it
  tests the count.
\<close>

locale header_decoder =
  fixes dec :: "pktmem \<Rightarrow> ptr \<Rightarrow> u32 option \<Rightarrow> 'x decoded" and k :: nat
  assumes decodes: "p + unat r + k \<le> length m \<Longrightarrow> decodes p r (dec m p (Some r))"
begin

lemma no_fault: "p + unat r + k \<le> length m \<Longrightarrow> \<exists>q x r'. dec m p (Some r) = Inr (q, x, Some r')"
  using decodes [of p r m] by (auto simp: decodes_def)

lemma in_capture:
  assumes "p + unat r + k \<le> length m" "dec m p (Some r) = Inr (Some q, x, Some r')"
  shows "p \<le> q \<and> q \<le> p + unat r \<and> unat r' = p + unat r - q"
  using decodes [OF assms(1)] assms(2) by (auto simp: decodes_def)

end

text \<open>
  \<open>fixed_header dec n\<close>: \<open>dec\<close> skips a header of \<open>n\<close> bytes. A header that is not completely
  captured gives \<open>NULL\<close> and no remaining bytes; a complete one gives the address behind it and
  takes exactly \<open>n\<close> off the count; and without a count nothing but the header is touched. Only
  bytes of the header are read: the laws ask for no memory behind it.
\<close>

locale fixed_header =
  fixes dec :: "pktmem \<Rightarrow> ptr \<Rightarrow> u32 option \<Rightarrow> 'x decoded" and n :: nat
  assumes short: "p + unat r \<le> length m \<Longrightarrow> unat r < n \<Longrightarrow>
      \<exists>x. dec m p (Some r) = Inr (None, x, Some 0)"
    and skip: "p + n \<le> length m \<Longrightarrow> n \<le> unat r \<Longrightarrow>
      \<exists>x. dec m p (Some r) = Inr (Some (p + n), x, Some (r - of_nat n))"
    and uncounted: "p + n \<le> length m \<Longrightarrow> \<exists>x. dec m p None = Inr (Some (p + n), x, None)"
begin

lemma unat_rest:
  assumes "n \<le> unat r"
  shows "unat (r - of_nat n :: u32) = unat r - n"
proof -
  have "n < 2 ^ 32" using assms unsigned_less [of r, where 'a = nat] by simp
  then have "unat (of_nat n :: u32) = n" by (simp add: unsigned_of_nat take_bit_nat_eq_self)
  then show ?thesis using assms by (simp add: unat_sub word_le_nat_alt)
qed

lemma skips:
  assumes "p + unat r \<le> length m" "dec m p (Some r) = Inr (Some q, x, Some r')"
  shows "n \<le> unat r \<and> q = p + n \<and> unat r' = unat r - n"
proof -
  have n: "n \<le> unat r" using short [of p r m] assms by (cases "unat r < n") auto
  then obtain y where "dec m p (Some r) = Inr (Some (p + n), y, Some (r - of_nat n))"
    using skip [of p m r] assms(1) by auto
  then show ?thesis using assms(2) n unat_rest [OF n] by auto
qed

lemma null_iff:
  assumes "p + unat r \<le> length m"
  shows "(\<exists>x r'. dec m p (Some r) = Inr (None, x, r')) \<longleftrightarrow> unat r < n"
  using assms short [of p r m] skip [of p m r] by (cases "unat r < n") auto

end

sublocale fixed_header \<subseteq> header_decoder dec 0
proof
  fix p :: ptr and r :: u32 and m :: pktmem
  assume fits: "p + unat r + 0 \<le> length m"
  show "decodes p r (dec m p (Some r))"
  proof (cases "unat r < n")
    case True
    then show ?thesis using short [of p r m] fits by auto
  next
    case False
    then show ?thesis using skip [of p m r] fits unat_rest [of r] by (auto simp: decodes_def)
  qed
qed

end
