(* ===== verification/Packet.thy ===== *)
theory Packet
  imports Complex_Main Linktypes Decode
begin

text \<open>
  Packets and the accessors of \<open>lib/trace.c\<close> that the protocol decoders rest on: the packet
  with its caches, the operations a capture format provides, the lengths and the link type of a
  packet and the conversions between the three representations of time.

  The memory of a packet is one buffer; \<open>header\<close> and \<open>payload\<close> are addresses in it. The format
  of the trace that a packet belongs to, \<open>packet->trace->format\<close> in the code, is an argument of
  every operation that calls it.
\<close>

section \<open>Memory\<close>

type_synonym c_int = "32 word"

definition rdn :: "pktmem \<Rightarrow> ptr \<Rightarrow> nat \<Rightarrow> u8 list res" where
  "rdn m p n = (if p + n \<le> length m then Inr (take n (drop p m)) else Inl (OutOfBounds (p + n)))"

definition wrn :: "pktmem \<Rightarrow> ptr \<Rightarrow> u8 list \<Rightarrow> pktmem res" where
  "wrn m p bs = (if p + length bs \<le> length m then Inr (take p m @ bs @ drop (p + length bs) m)
                 else Inl (OutOfBounds (p + length bs)))"

lemma rdn_Inr [simp, load_simps]: "p + n \<le> length m \<Longrightarrow> rdn m p n = Inr (take n (drop p m))"
  by (simp add: rdn_def)

lemma rdn_eq_Inr: "rdn m p n = Inr bs \<longleftrightarrow> p + n \<le> length m \<and> bs = take n (drop p m)"
  by (auto simp: rdn_def)

lemma wrn_eq_Inr:
  "wrn m p bs = Inr m' \<longleftrightarrow> p + length bs \<le> length m \<and> m' = take p m @ bs @ drop (p + length bs) m"
  by (auto simp: wrn_def)

lemma wrn_length: "wrn m p bs = Inr m' \<Longrightarrow> length m' = length m"
  by (auto simp: wrn_eq_Inr)

lemma rdn_wrn_same: "wrn m p bs = Inr m' \<Longrightarrow> rdn m' p (length bs) = Inr bs"
  by (auto simp: wrn_eq_Inr)

lemma nth_wrn_before: "wrn m p bs = Inr m' \<Longrightarrow> q < p \<Longrightarrow> m' ! q = m ! q"
  by (auto simp: wrn_eq_Inr nth_append)

lemma nth_wrn_after: "wrn m p bs = Inr m' \<Longrightarrow> p + length bs \<le> q \<Longrightarrow> q < length m \<Longrightarrow> m' ! q = m ! q"
  by (auto simp: wrn_eq_Inr nth_append)

section \<open>Packets and formats\<close>

datatype buf_control = TRACE_CTRL_PACKET | TRACE_CTRL_EXTERNAL

text \<open>
  A null pointer is \<open>None\<close>. The cached link type 0, which no link type has, is \<open>None\<close>; the
  cached lengths are \<open>int\<close>s of the code, -1 when not known. The cached transport protocol may be
  a copy of a variable that was never written.
\<close>

record libtrace_packet =
  p_mem :: pktmem
  p_header :: "ptr option"
  p_payload :: "ptr option"
  p_type :: libtrace_rt_types
  p_buf_control :: buf_control
  p_capture_length :: c_int
  p_wire_length :: c_int
  p_payload_length :: c_int
  p_l2_header :: "ptr option"
  p_link_type :: "libtrace_linktype option"
  p_l2_remaining :: u32
  p_l3_header :: "ptr option"
  p_l3_ethertype :: u16
  p_l3_remaining :: u32
  p_l4_header :: "ptr option"
  p_transport_proto :: "u8 outp"
  p_l4_remaining :: u32
  p_order :: u64
  p_hash :: u64
  p_error :: c_int

record timeval =
  tv_sec :: "64 word"
  tv_usec :: "64 word"

record timespec =
  ts_sec :: "64 word"
  ts_nsec :: "64 word"

datatype base_format =
    TRACE_FORMAT_ERF | TRACE_FORMAT_PCAP | TRACE_FORMAT_PCAPFILE | TRACE_FORMAT_WAG | TRACE_FORMAT_RT
  | TRACE_FORMAT_LEGACY_ATM | TRACE_FORMAT_LEGACY_POS | TRACE_FORMAT_LEGACY_ETH
  | TRACE_FORMAT_LINUX_NATIVE | TRACE_FORMAT_DUCK | TRACE_FORMAT_BPF | TRACE_FORMAT_TSH
  | TRACE_FORMAT_ATMHDR | TRACE_FORMAT_LEGACY_NZIX | TRACE_FORMAT_LINUX_RING | TRACE_FORMAT_RAWERF
  | TRACE_FORMAT_DPDK | TRACE_FORMAT_ODP

text \<open>
  The operations of a format that concern a packet; a null function pointer is \<open>None\<close>. A
  floating-point number is the real number it denotes.
\<close>

type_synonym double = real

record libtrace_format =
  f_type :: base_format
  f_get_link_type :: "(libtrace_packet \<Rightarrow> libtrace_linktype res) option"
  f_get_direction :: "(libtrace_packet \<Rightarrow> c_int res) option"
  f_set_direction :: "(libtrace_packet \<Rightarrow> c_int \<Rightarrow> (c_int \<times> libtrace_packet) res) option"
  f_get_erf_timestamp :: "(libtrace_packet \<Rightarrow> u64 res) option"
  f_get_timeval :: "(libtrace_packet \<Rightarrow> timeval res) option"
  f_get_timespec :: "(libtrace_packet \<Rightarrow> timespec res) option"
  f_get_seconds :: "(libtrace_packet \<Rightarrow> double res) option"
  f_get_capture_length :: "(libtrace_packet \<Rightarrow> c_int res) option"
  f_get_wire_length :: "(libtrace_packet \<Rightarrow> c_int res) option"
  f_get_framing_length :: "(libtrace_packet \<Rightarrow> c_int res) option"
  f_set_capture_length :: "(libtrace_packet \<Rightarrow> size_t \<Rightarrow> (size_t \<times> libtrace_packet) res) option"

section \<open>Caches\<close>

definition trace_clear_cache :: "libtrace_packet \<Rightarrow> libtrace_packet" where
  "trace_clear_cache packet = packet\<lparr>
     p_l2_header := None, p_l3_header := None, p_l4_header := None,
     p_link_type := None, p_l3_ethertype := 0, p_transport_proto := Val 0,
     p_capture_length := - 1, p_wire_length := - 1, p_payload_length := - 1,
     p_l2_remaining := 0, p_l3_remaining := 0, p_l4_remaining := 0\<rparr>"

definition trace_create_packet :: libtrace_packet where
  "trace_create_packet = trace_clear_cache
     \<lparr>p_mem = [], p_header = None, p_payload = None, p_type = 0, p_buf_control = TRACE_CTRL_PACKET,
      p_capture_length = 0, p_wire_length = 0, p_payload_length = 0,
      p_l2_header = None, p_link_type = None, p_l2_remaining = 0,
      p_l3_header = None, p_l3_ethertype = 0, p_l3_remaining = 0,
      p_l4_header = None, p_transport_proto = Val 0, p_l4_remaining = 0,
      p_order = 0, p_hash = 0, p_error = 0\<rparr>"

section \<open>Lengths, link type, direction\<close>

text \<open>The sizes of the code are 64 bits wide; \<open>~0U\<close> is the largest 32-bit number.\<close>

definition LIBTRACE_PACKET_BUFSIZE :: int where
  "LIBTRACE_PACKET_BUFSIZE = 65536"

definition no_size :: size_t where
  "no_size = 0xFFFFFFFF"

definition trace_get_capture_length :: "libtrace_format \<Rightarrow> libtrace_packet \<Rightarrow> (size_t \<times> libtrace_packet) res" where
  "trace_get_capture_length fmt packet =
     (let checked = (\<lambda>packet. assertr (sint (p_capture_length packet) < LIBTRACE_PACKET_BUFSIZE)
                                (Inr (scast (p_capture_length packet), packet))) in
      if p_capture_length packet = - 1 then
        (case f_get_capture_length fmt of
           None \<Rightarrow> Inr (no_size, packet)
         | Some get_len \<Rightarrow> bindr (get_len packet) (\<lambda>n. checked (packet\<lparr>p_capture_length := n\<rparr>)))
      else checked packet)"

definition trace_get_wire_length :: "libtrace_format \<Rightarrow> libtrace_packet \<Rightarrow> (size_t \<times> libtrace_packet) res" where
  "trace_get_wire_length fmt packet =
     (let checked = (\<lambda>packet. assertr (sint (p_wire_length packet) < LIBTRACE_PACKET_BUFSIZE)
                                (Inr (scast (p_wire_length packet), packet))) in
      if p_wire_length packet = - 1 then
        (case f_get_wire_length fmt of
           None \<Rightarrow> Inr (no_size, packet)
         | Some get_len \<Rightarrow> bindr (get_len packet) (\<lambda>n. checked (packet\<lparr>p_wire_length := n\<rparr>)))
      else checked packet)"

definition trace_get_framing_length :: "libtrace_format \<Rightarrow> libtrace_packet \<Rightarrow> size_t res" where
  "trace_get_framing_length fmt packet =
     (case f_get_framing_length fmt of
        None \<Rightarrow> Inr no_size
      | Some get_len \<Rightarrow> bindr (get_len packet) (\<lambda>n. Inr (scast n)))"

definition trace_get_link_type :: "libtrace_format \<Rightarrow> libtrace_packet \<Rightarrow> (libtrace_linktype \<times> libtrace_packet) res" where
  "trace_get_link_type fmt packet =
     (case p_link_type packet of
        Some t \<Rightarrow> Inr (t, packet)
      | None \<Rightarrow> (case f_get_link_type fmt of
           None \<Rightarrow> Inr (TRACE_TYPE_UNKNOWN, packet)
         | Some get_type \<Rightarrow> bindr (get_type packet) (\<lambda>t. Inr (t, packet\<lparr>p_link_type := Some t\<rparr>))))"

definition trace_get_packet_buffer ::
  "libtrace_format \<Rightarrow> libtrace_packet \<Rightarrow> (ptr option \<times> libtrace_linktype \<times> u32 \<times> libtrace_packet) res" where
  "trace_get_packet_buffer fmt packet =
     bindr (trace_get_link_type fmt packet) (\<lambda>(linktype, packet).
     bindr (trace_get_capture_length fmt packet) (\<lambda>(cap, packet).
     bindr (trace_get_wire_length fmt packet) (\<lambda>(wire, packet).
       let cap_len = (ucast cap :: c_int); wire_len = (ucast wire :: c_int) in
       assertr (0 \<le> sint cap_len)
         (Inr (p_payload packet, linktype,
               (if sint wire_len < 0 then cap_len
                else if sint wire_len < sint cap_len then wire_len
                else cap_len),
               packet)))))"

definition trace_get_link :: "libtrace_packet \<Rightarrow> ptr option" where
  "trace_get_link packet = p_payload packet"

definition trace_set_capture_length ::
  "libtrace_format \<Rightarrow> libtrace_packet \<Rightarrow> size_t \<Rightarrow> (size_t \<times> libtrace_packet) res" where
  "trace_set_capture_length fmt packet len =
     (case f_set_capture_length fmt of
        None \<Rightarrow> Inr (no_size, packet)
      | Some set_len \<Rightarrow> bindr (set_len packet len) (\<lambda>(n, packet).
          let packet = packet\<lparr>p_capture_length := ucast n\<rparr> in
          Inr (scast (p_capture_length packet), packet)))"

definition trace_get_direction :: "libtrace_format \<Rightarrow> libtrace_packet \<Rightarrow> c_int res" where
  "trace_get_direction fmt packet =
     (case f_get_direction fmt of None \<Rightarrow> Inr (- 1) | Some get_dir \<Rightarrow> get_dir packet)"

definition trace_set_direction ::
  "libtrace_format \<Rightarrow> libtrace_packet \<Rightarrow> c_int \<Rightarrow> (c_int \<times> libtrace_packet) res" where
  "trace_set_direction fmt packet d =
     (case f_set_direction fmt of None \<Rightarrow> Inr (- 1, packet) | Some set_dir \<Rightarrow> set_dir packet d)"

section \<open>Copying a packet\<close>

text \<open>Reading no bytes touches no memory, so a null pointer does not matter then.\<close>

definition rdn_ptr :: "pktmem \<Rightarrow> ptr option \<Rightarrow> nat \<Rightarrow> u8 list res" where
  "rdn_ptr m po n = (if n = 0 then Inr [] else case po of None \<Rightarrow> Inl NullDeref | Some p \<Rightarrow> rdn m p n)"

text \<open>\<open>fresh\<close> is what the 65536 bytes that \<open>malloc\<close> returned happen to hold.\<close>

definition trace_copy_packet ::
  "libtrace_format \<Rightarrow> pktmem \<Rightarrow> libtrace_packet \<Rightarrow> (libtrace_packet \<times> libtrace_packet) res" where
  "trace_copy_packet fmt fresh packet =
     bindr (trace_get_framing_length fmt packet) (\<lambda>framing.
     let dest = trace_clear_cache (trace_create_packet\<lparr>
           p_mem := fresh, p_header := Some 0, p_payload := Some (unat framing),
           p_type := p_type packet, p_buf_control := TRACE_CTRL_PACKET,
           p_order := p_order packet, p_hash := p_hash packet, p_error := p_error packet\<rparr>) in
     bindr (rdn_ptr (p_mem packet) (p_header packet) (unat framing)) (\<lambda>hdr.
     bindr (wrn fresh 0 hdr) (\<lambda>mem.
     bindr (trace_get_capture_length fmt packet) (\<lambda>(caplen, packet).
     bindr (rdn_ptr (p_mem packet) (p_payload packet) (unat caplen)) (\<lambda>body.
     bindr (wrn mem (unat framing) body) (\<lambda>mem.
       Inr (dest\<lparr>p_mem := mem\<rparr>, packet)))))))"

section \<open>What a format reports\<close>

text \<open>
  \<open>described fmt packet lt cap wire\<close>: the format reports the link type \<open>lt\<close>, the capture length
  \<open>cap\<close> and the wire length \<open>wire\<close> (negative in some corrupt records), whatever parts of these are
  cached; and what is cached agrees.
\<close>

definition cached_ok :: "libtrace_linktype \<Rightarrow> nat \<Rightarrow> int \<Rightarrow> libtrace_packet \<Rightarrow> bool" where
  "cached_ok lt cap wire packet \<longleftrightarrow>
     (p_link_type packet = None \<or> p_link_type packet = Some lt) \<and>
     (p_capture_length packet = - 1 \<or> p_capture_length packet = of_nat cap) \<and>
     (p_wire_length packet = - 1 \<or> p_wire_length packet = of_int wire)"

definition answers :: "('a \<Rightarrow> 'b res) option \<Rightarrow> 'a \<Rightarrow> 'b \<Rightarrow> bool" where
  "answers f x y \<longleftrightarrow> (case f of None \<Rightarrow> False | Some g \<Rightarrow> g x = Inr y)"

definition described ::
  "libtrace_format \<Rightarrow> libtrace_packet \<Rightarrow> libtrace_linktype \<Rightarrow> nat \<Rightarrow> int \<Rightarrow> bool" where
  "described fmt packet lt cap wire \<longleftrightarrow>
     cap < 65536 \<and> - 65536 < wire \<and> wire < 65536 \<and> cached_ok lt cap wire packet \<and>
     (\<forall>q. trace_clear_cache q = trace_clear_cache packet \<longrightarrow> cached_ok lt cap wire q \<longrightarrow>
        answers (f_get_link_type fmt) q lt \<and>
        answers (f_get_capture_length fmt) q (of_nat cap) \<and>
        answers (f_get_wire_length fmt) q (of_int wire))"

definition packet_bytes :: "nat \<Rightarrow> int \<Rightarrow> nat" where
  "packet_bytes cap wire = (if wire < 0 then cap else min cap (nat wire))"

lemma described_upd:
  assumes "described fmt packet lt cap wire" "trace_clear_cache q = trace_clear_cache packet"
    "cached_ok lt cap wire q"
  shows "described fmt q lt cap wire"
  using assms unfolding described_def by simp

lemma sint_nat_small: "n < 65536 \<Longrightarrow> sint (of_nat n :: c_int) = int n"
  by (simp add: signed_of_nat signed_take_bit_int_eq_self)

lemma sint_int_small: "- 65536 < i \<Longrightarrow> i < 65536 \<Longrightarrow> sint (of_int i :: c_int) = i"
  by (simp add: signed_of_int signed_take_bit_int_eq_self)

lemma ucast_scast_int: "ucast (scast (x :: c_int) :: size_t) = x"
  by (rule bit_word_eqI) (simp add: bit_simps)

lemma answersE:
  assumes "answers f x y"
  obtains g where "f = Some g" "g x = Inr y"
  using assms by (auto simp: answers_def split: option.splits)

lemma get_link_type_described:
  assumes "described fmt packet lt cap wire"
  shows "trace_get_link_type fmt packet = Inr (lt, packet\<lparr>p_link_type := Some lt\<rparr>)"
proof -
  have "packet\<lparr>p_link_type := Some lt\<rparr> = packet" if "p_link_type packet = Some lt"
    using that by (cases packet) simp
  moreover have "answers (f_get_link_type fmt) packet lt" "cached_ok lt cap wire packet"
    using assms by (auto simp: described_def)
  ultimately show ?thesis
    by (auto simp: trace_get_link_type_def cached_ok_def elim!: answersE)
qed

lemma get_capture_length_described:
  assumes "described fmt packet lt cap wire"
  shows "trace_get_capture_length fmt packet =
    Inr (scast (of_nat cap :: c_int), packet\<lparr>p_capture_length := of_nat cap\<rparr>)"
proof -
  have "packet\<lparr>p_capture_length := of_nat cap\<rparr> = packet" if "p_capture_length packet = of_nat cap"
    using that by (cases packet) simp
  moreover have "answers (f_get_capture_length fmt) packet (of_nat cap)" "cached_ok lt cap wire packet"
    "cap < 65536"
    using assms by (auto simp: described_def)
  ultimately show ?thesis
    by (auto simp: trace_get_capture_length_def cached_ok_def Let_def LIBTRACE_PACKET_BUFSIZE_def
        sint_nat_small elim!: answersE)
qed

lemma get_wire_length_described:
  assumes "described fmt packet lt cap wire"
  shows "trace_get_wire_length fmt packet =
    Inr (scast (of_int wire :: c_int), packet\<lparr>p_wire_length := of_int wire\<rparr>)"
proof -
  have "packet\<lparr>p_wire_length := of_int wire\<rparr> = packet" if "p_wire_length packet = of_int wire"
    using that by (cases packet) simp
  moreover have "answers (f_get_wire_length fmt) packet (of_int wire)" "cached_ok lt cap wire packet"
    "- 65536 < wire" "wire < 65536"
    using assms by (auto simp: described_def)
  ultimately show ?thesis
    by (auto simp: trace_get_wire_length_def cached_ok_def Let_def LIBTRACE_PACKET_BUFSIZE_def
        sint_int_small elim!: answersE)
qed

lemma clear_cache_lengths [simp]:
  "trace_clear_cache (packet\<lparr>p_link_type := a\<rparr>) = trace_clear_cache packet"
  "trace_clear_cache (packet\<lparr>p_capture_length := n\<rparr>) = trace_clear_cache packet"
  "trace_clear_cache (packet\<lparr>p_wire_length := n\<rparr>) = trace_clear_cache packet"
  "trace_clear_cache (packet\<lparr>p_payload_length := n\<rparr>) = trace_clear_cache packet"
  "trace_clear_cache (packet\<lparr>p_l2_header := q\<rparr>) = trace_clear_cache packet"
  "trace_clear_cache (packet\<lparr>p_l2_remaining := r\<rparr>) = trace_clear_cache packet"
  "trace_clear_cache (packet\<lparr>p_l3_header := q\<rparr>) = trace_clear_cache packet"
  "trace_clear_cache (packet\<lparr>p_l3_ethertype := t\<rparr>) = trace_clear_cache packet"
  "trace_clear_cache (packet\<lparr>p_l3_remaining := r\<rparr>) = trace_clear_cache packet"
  "trace_clear_cache (packet\<lparr>p_l4_header := q\<rparr>) = trace_clear_cache packet"
  "trace_clear_cache (packet\<lparr>p_transport_proto := u\<rparr>) = trace_clear_cache packet"
  "trace_clear_cache (packet\<lparr>p_l4_remaining := r\<rparr>) = trace_clear_cache packet"
  by (simp_all add: trace_clear_cache_def)

definition lengths_cached :: "libtrace_linktype \<Rightarrow> nat \<Rightarrow> int \<Rightarrow> libtrace_packet \<Rightarrow> libtrace_packet" where
  "lengths_cached lt cap wire packet = packet\<lparr>p_link_type := Some lt, p_capture_length := of_nat cap,
     p_wire_length := of_int wire\<rparr>"

lemma get_packet_buffer_described:
  assumes d: "described fmt packet lt cap wire"
  shows "trace_get_packet_buffer fmt packet =
    Inr (p_payload packet, lt, of_nat (packet_bytes cap wire), lengths_cached lt cap wire packet)"
proof -
  have small: "cap < 65536" "- 65536 < wire" "wire < 65536"
    and ok: "cached_ok lt cap wire packet" using d by (auto simp: described_def)
  have d1: "described fmt (packet\<lparr>p_link_type := Some lt\<rparr>) lt cap wire"
    using d ok by (auto intro: described_upd simp: cached_ok_def)
  have d2: "described fmt (packet\<lparr>p_link_type := Some lt, p_capture_length := of_nat cap\<rparr>) lt cap wire"
    using d1 ok by (auto intro: described_upd simp: cached_ok_def)
  have "(of_int wire :: c_int) = of_nat (nat wire)" if "0 \<le> wire"
    using that by simp
  then show ?thesis
    using small by (auto simp: trace_get_packet_buffer_def get_link_type_described [OF d]
        get_capture_length_described [OF d1] get_wire_length_described [OF d2] ucast_scast_int
        sint_nat_small sint_int_small Let_def packet_bytes_def lengths_cached_def min_def)
qed

section \<open>Properties\<close>

lemma unat_scast_small:
  assumes "n < 65536"
  shows "unat (scast (of_nat n :: c_int) :: size_t) = n"
proof -
  have "(scast (of_nat n :: c_int) :: size_t) = of_int (sint (of_nat n :: c_int))" by simp
  also have "\<dots> = of_nat n" using sint_nat_small [OF assms] by simp
  finally show ?thesis using assms by (simp add: unsigned_of_nat take_bit_nat_eq_self)
qed

lemma rdn_ptr_Some: "p + n \<le> length m \<Longrightarrow> rdn_ptr m (Some p) n = Inr (take n (drop p m))"
  by (simp add: rdn_ptr_def)

lemma clear_cache_idem [simp]: "trace_clear_cache (trace_clear_cache packet) = trace_clear_cache packet"
  by (simp add: trace_clear_cache_def)

lemma clear_cache_mem [simp]:
  "(trace_clear_cache packet)\<lparr>p_mem := m\<rparr> = trace_clear_cache (packet\<lparr>p_mem := m\<rparr>)"
  by (simp add: trace_clear_cache_def)

lemma clear_cache_keeps [simp]:
  "p_mem (trace_clear_cache packet) = p_mem packet"
  "p_header (trace_clear_cache packet) = p_header packet"
  "p_payload (trace_clear_cache packet) = p_payload packet"
  "p_type (trace_clear_cache packet) = p_type packet"
  "p_order (trace_clear_cache packet) = p_order packet"
  "p_hash (trace_clear_cache packet) = p_hash packet"
  by (simp_all add: trace_clear_cache_def)

text \<open>
  (C16) Copying a packet. Let the framing header have \<open>fr\<close> bytes and the packet \<open>cap\<close> captured
  bytes. If they fit into the buffer of 65536 bytes together, the copy has the same header bytes
  directly followed by the same captured bytes, the same type, order and hash, and empty caches;
  of the original only the cached capture length changes. If they do not fit, the copy writes
  behind its buffer: nothing in the code excludes it, since only the capture length alone is
  known to be below 65536.
\<close>

theorem packet_copy:
  assumes "described fmt packet lt cap wire" "answers (f_get_framing_length fmt) packet (of_nat fr)"
    "fr < 65536" "p_header packet = Some h" "p_payload packet = Some b"
    "h + fr \<le> length (p_mem packet)" "b + cap \<le> length (p_mem packet)" "length fresh = 65536"
  shows "if fr + cap \<le> 65536
    then \<exists>dest. trace_copy_packet fmt fresh packet = Inr (dest, packet\<lparr>p_capture_length := of_nat cap\<rparr>) \<and>
           p_header dest = Some 0 \<and> p_payload dest = Some fr \<and>
           take (fr + cap) (p_mem dest) = take fr (drop h (p_mem packet)) @ take cap (drop b (p_mem packet)) \<and>
           p_type dest = p_type packet \<and> p_order dest = p_order packet \<and> p_hash dest = p_hash packet \<and>
           trace_clear_cache dest = dest
    else trace_copy_packet fmt fresh packet = Inl (OutOfBounds (fr + cap))"
proof -
  have cap: "cap < 65536" using assms(1) by (simp add: described_def)
  have "trace_get_framing_length fmt packet = Inr (scast (of_nat fr :: c_int))"
    using assms(2) by (auto simp: trace_get_framing_length_def elim!: answersE)
  then show ?thesis
    using assms(3-) cap get_capture_length_described [OF assms(1)]
    by (auto simp: trace_copy_packet_def Let_def unat_scast_small rdn_ptr_Some wrn_def)
qed

text \<open>A format that reports the same link type and lengths for every packet.\<close>

definition fixed_format :: "libtrace_linktype \<Rightarrow> nat \<Rightarrow> int \<Rightarrow> nat \<Rightarrow> libtrace_format" where
  "fixed_format lt cap wire fr = \<lparr>f_type = TRACE_FORMAT_ERF, f_get_link_type = Some (\<lambda>_. Inr lt),
     f_get_direction = None, f_set_direction = None, f_get_erf_timestamp = None, f_get_timeval = None,
     f_get_timespec = None, f_get_seconds = None, f_get_capture_length = Some (\<lambda>_. Inr (of_nat cap)),
     f_get_wire_length = Some (\<lambda>_. Inr (of_int wire)), f_get_framing_length = Some (\<lambda>_. Inr (of_nat fr)),
     f_set_capture_length = None\<rparr>"

abbreviation null_format :: libtrace_format where
  "null_format \<equiv> fixed_format TRACE_TYPE_ETH 3 3 2"

lemma described_fixed:
  assumes "cap < 65536" "- 65536 < wire" "wire < 65536" "p_link_type packet = None"
    "p_capture_length packet = - 1" "p_wire_length packet = - 1"
  shows "described (fixed_format lt cap wire fr) packet lt cap wire"
  using assms by (simp add: described_def cached_ok_def answers_def fixed_format_def)

theorem packet_copy_witness:
  "\<exists>dest packet'. trace_copy_packet null_format (replicate 65536 0)
       (trace_create_packet\<lparr>p_mem := [1, 2, 3, 4, 5], p_header := Some 0, p_payload := Some 2\<rparr>) = Inr (dest, packet') \<and>
     take 5 (p_mem dest) = [1, 2, 3, 4, 5]"
proof -
  let ?packet = "trace_create_packet\<lparr>p_mem := [1, 2, 3, 4, 5], p_header := Some 0, p_payload := Some 2\<rparr>"
  have "described null_format ?packet TRACE_TYPE_ETH 3 3"
    by (rule described_fixed) (simp_all add: trace_create_packet_def trace_clear_cache_def)
  from packet_copy [OF this, of 2 0 2 "replicate 65536 0"] show ?thesis
    by (auto simp: answers_def fixed_format_def)
qed

end
