(* ===== verification/Packet_Time.thy ===== *)
theory Packet_Time
  imports Packet
begin

text \<open>
  The time of a packet, \<open>trace_get_erf_timestamp\<close>, \<open>trace_get_timeval\<close>, \<open>trace_get_timespec\<close>
  and \<open>trace_get_seconds\<close> of \<open>lib/trace.c\<close>: a format provides one representation and the
  others are computed from it. Integers are 64 bits wide as in the code. Floating-point
  arithmetic is real arithmetic in which the result of each operation is rounded by \<open>rnd\<close>, an
  argument of the definitions.
\<close>

section \<open>Conversions\<close>

definition c_quot :: "64 word \<Rightarrow> int \<Rightarrow> 64 word" where
  "c_quot x d = of_int (sgn (sint x) * (\<bar>sint x\<bar> div d))"

definition UINT_MAX :: double where
  "UINT_MAX = 4294967295"

text \<open>A time before 1970 does not occur as floating-point seconds: truncation is the floor.\<close>

definition erf_of_seconds :: "(double \<Rightarrow> double) \<Rightarrow> double \<Rightarrow> u64" where
  "erf_of_seconds rnd s =
     push_bit 32 (of_int \<lfloor>s\<rfloor>) + of_int \<lfloor>rnd (rnd (s - of_int \<lfloor>s\<rfloor>) * UINT_MAX)\<rfloor>"

definition trace_get_erf_timestamp ::
  "(double \<Rightarrow> double) \<Rightarrow> libtrace_format \<Rightarrow> libtrace_packet \<Rightarrow> u64 res" where
  "trace_get_erf_timestamp rnd fmt packet =
     (case f_get_erf_timestamp fmt of Some get_erf \<Rightarrow> get_erf packet
      | None \<Rightarrow> (case f_get_timespec fmt of Some get_ts \<Rightarrow>
          bindr (get_ts packet) (\<lambda>ts.
            Inr (push_bit 32 (ts_sec ts) + push_bit 32 (ts_nsec ts) div 1000000000))
      | None \<Rightarrow> (case f_get_timeval fmt of Some get_tv \<Rightarrow>
          bindr (get_tv packet) (\<lambda>tv.
            Inr (push_bit 32 (tv_sec tv) + push_bit 32 (tv_usec tv) div 1000000))
      | None \<Rightarrow> (case f_get_seconds fmt of Some get_s \<Rightarrow>
          bindr (get_s packet) (\<lambda>s. Inr (erf_of_seconds rnd s))
      | None \<Rightarrow> Inr 0))))"

definition trace_get_timeval ::
  "(double \<Rightarrow> double) \<Rightarrow> libtrace_format \<Rightarrow> libtrace_packet \<Rightarrow> timeval res" where
  "trace_get_timeval rnd fmt packet =
     (case f_get_timeval fmt of Some get_tv \<Rightarrow> get_tv packet
      | None \<Rightarrow> (case f_get_erf_timestamp fmt of Some get_erf \<Rightarrow>
          bindr (get_erf packet) (\<lambda>ts.
            let sec = drop_bit 32 ts; usec = drop_bit 32 (and ts 0xFFFFFFFF * 1000000) in
            Inr (if 1000000 \<le> sint usec
                 then \<lparr>tv_sec = sec + 1, tv_usec = usec - 1000000\<rparr>
                 else \<lparr>tv_sec = sec, tv_usec = usec\<rparr>))
      | None \<Rightarrow> (case f_get_timespec fmt of Some get_ts \<Rightarrow>
          bindr (get_ts packet) (\<lambda>ts. Inr \<lparr>tv_sec = ts_sec ts, tv_usec = c_quot (ts_nsec ts) 1000\<rparr>)
      | None \<Rightarrow> (case f_get_seconds fmt of Some get_s \<Rightarrow>
          bindr (get_s packet) (\<lambda>s.
            let sec = (ucast (of_int \<lfloor>s\<rfloor> :: u32) :: u64) in
            Inr \<lparr>tv_sec = sec,
                 tv_usec = ucast (of_int \<lfloor>rnd (rnd (rnd (s - of_int (sint sec)) * 1000000) / UINT_MAX)\<rfloor> :: u32)\<rparr>)
      | None \<Rightarrow> Inr \<lparr>tv_sec = - 1, tv_usec = - 1\<rparr>))))"

definition trace_get_timespec ::
  "(double \<Rightarrow> double) \<Rightarrow> libtrace_format \<Rightarrow> libtrace_packet \<Rightarrow> timespec res" where
  "trace_get_timespec rnd fmt packet =
     (case f_get_timespec fmt of Some get_ts \<Rightarrow> get_ts packet
      | None \<Rightarrow> (case f_get_erf_timestamp fmt of Some get_erf \<Rightarrow>
          bindr (get_erf packet) (\<lambda>ts.
            let sec = drop_bit 32 ts; nsec = drop_bit 32 (and ts 0xFFFFFFFF * 1000000000) in
            Inr (if 1000000000 \<le> sint nsec
                 then \<lparr>ts_sec = sec + 1, ts_nsec = nsec - 1000000000\<rparr>
                 else \<lparr>ts_sec = sec, ts_nsec = nsec\<rparr>))
      | None \<Rightarrow> (case f_get_timeval fmt of Some get_tv \<Rightarrow>
          bindr (get_tv packet) (\<lambda>tv. Inr \<lparr>ts_sec = tv_sec tv, ts_nsec = tv_usec tv * 1000\<rparr>)
      | None \<Rightarrow> (case f_get_seconds fmt of Some get_s \<Rightarrow>
          bindr (get_s packet) (\<lambda>s.
            let sec = (ucast (of_int \<lfloor>s\<rfloor> :: u32) :: u64) in
            Inr \<lparr>ts_sec = sec,
                 ts_nsec = of_int \<lfloor>rnd (rnd (rnd (s - of_int (sint sec)) * 1000000000) / UINT_MAX)\<rfloor>\<rparr>)
      | None \<Rightarrow> Inr \<lparr>ts_sec = - 1, ts_nsec = - 1\<rparr>))))"

definition trace_get_seconds ::
  "(double \<Rightarrow> double) \<Rightarrow> libtrace_format \<Rightarrow> libtrace_packet \<Rightarrow> double res" where
  "trace_get_seconds rnd fmt packet =
     (case f_get_seconds fmt of Some get_s \<Rightarrow> get_s packet
      | None \<Rightarrow> (case f_get_erf_timestamp fmt of Some get_erf \<Rightarrow>
          bindr (get_erf packet) (\<lambda>ts.
            Inr (rnd (of_nat (unat (drop_bit 32 ts)) + rnd (of_nat (unat (and ts 0xFFFFFFFF)) / UINT_MAX))))
      | None \<Rightarrow> (case f_get_timespec fmt of Some get_ts \<Rightarrow>
          bindr (get_ts packet) (\<lambda>ts.
            Inr (rnd (rnd (of_int (sint (ts_sec ts))) + rnd (rnd (of_int (sint (ts_nsec ts))) / 1000000000))))
      | None \<Rightarrow> (case f_get_timeval fmt of Some get_tv \<Rightarrow>
          bindr (get_tv packet) (\<lambda>tv.
            Inr (rnd (rnd (of_int (sint (tv_sec tv))) + rnd (rnd (of_int (sint (tv_usec tv))) / 1000000))))
      | None \<Rightarrow> Inr 0))))"

section \<open>Arithmetic of the fraction\<close>

text \<open>
  The fraction of a timestamp counts in units of 1/2^32 of a second; \<open>scale f k\<close> is that fraction
  in units of \<open>1/k\<close> of a second, \<open>unscale\<close> the way back. Both round down.
\<close>

definition scale :: "nat \<Rightarrow> nat \<Rightarrow> nat" where
  "scale k f = f * k div 2 ^ 32"

definition unscale :: "nat \<Rightarrow> nat \<Rightarrow> nat" where
  "unscale k u = u * 2 ^ 32 div k"

lemma scale_less:
  fixes f k :: nat
  assumes "f < 2 ^ 32" "0 < k"
  shows "scale k f < k"
proof -
  have "f * k < 2 ^ 32 * k" using assms by simp
  then show ?thesis unfolding scale_def by (subst div_less_iff_less_mult) (auto simp: ac_simps)
qed

lemma unscale_less:
  fixes u k :: nat
  assumes "u < k"
  shows "unscale k u < 2 ^ 32"
  using assms unfolding unscale_def by (subst div_less_iff_less_mult) auto

lemma scale_unscale:
  fixes u k :: nat
  assumes "u < k" "k \<le> 2 ^ 32"
  shows "scale k (unscale k u) \<le> u \<and> u \<le> scale k (unscale k u) + 1"
proof -
  define q where "q = unscale k u"
  have a: "q * k \<le> u * 2 ^ 32" unfolding q_def unscale_def by simp
  have "u * 2 ^ 32 mod k < k" using assms by (intro mod_less_divisor) simp
  moreover have "u * 2 ^ 32 = q * k + u * 2 ^ 32 mod k"
    unfolding q_def unscale_def by (rule div_mult_mod_eq [symmetric])
  ultimately have b: "u * 2 ^ 32 < q * k + 2 ^ 32" using assms(2) by linarith
  have "q * k div 2 ^ 32 \<le> u" using a by (metis div_le_mono nonzero_mult_div_cancel_right power_not_zero zero_neq_numeral)
  moreover have "u < (q * k + 2 ^ 32) div 2 ^ 32 + 1"
  proof -
    have "u = u * 2 ^ 32 div 2 ^ 32" by simp
    also have "\<dots> \<le> (q * k + 2 ^ 32) div 2 ^ 32" using b by (intro div_le_mono) simp
    finally show ?thesis by simp
  qed
  ultimately show ?thesis unfolding q_def scale_def by simp
qed

lemma unat_fraction: "unat (and ts 0xFFFFFFFF :: u64) = unat ts mod 2 ^ 32"
proof -
  have "(0xFFFFFFFF :: u64) = mask 32" by (simp add: mask_eq_exp_minus_1)
  then have "and ts 0xFFFFFFFF = take_bit 32 ts" by (simp add: take_bit_eq_mask)
  then show ?thesis by (simp add: take_bit_eq_mod unat_mod)
qed

lemma unat_scaled:
  fixes ts :: u64
  assumes "k \<le> 2 ^ 32" "unat (K :: u64) = k"
  shows "unat (drop_bit 32 (and ts 0xFFFFFFFF * K)) = scale k (unat ts mod 2 ^ 32)"
proof -
  have "(unat ts mod 2 ^ 32) * k \<le> (unat ts mod 2 ^ 32) * 2 ^ 32" using assms(1) by (rule mult_le_mono2)
  also have "\<dots> < 2 ^ 32 * 2 ^ 32" by simp
  finally have "(unat ts mod 2 ^ 32) * k < 2 ^ 32 * 2 ^ 32" .
  then have "unat (and ts 0xFFFFFFFF * K) = (unat ts mod 2 ^ 32) * k"
    using assms(2) by (simp add: unat_word_ariths unat_fraction)
  then show ?thesis by (simp add: drop_bit_eq_div unat_div scale_def)
qed

lemma unat_seconds: "unat (drop_bit 32 ts :: u64) = unat ts div 2 ^ 32"
  by (simp add: drop_bit_eq_div unat_div)

lemma sint_small_word:
  fixes w :: u64
  assumes "unat w < 2 ^ 32"
  shows "sint w = int (unat w)"
proof -
  have "int (unat w) < int (2 ^ 32)" using assms by (simp only: of_nat_less_iff)
  then have "uint w < 2 ^ 63" by simp
  then show ?thesis by (simp add: sint_uint signed_take_bit_int_eq_self order_trans [OF _ uint_ge_0])
qed

lemma unat_timestamp:
  fixes sec u K :: u64
  assumes "unat sec < 2 ^ 32" "unat K = k" "unat u < k" "k \<le> 2 ^ 32"
  shows "unat (push_bit 32 sec + push_bit 32 u div K) = unat sec * 2 ^ 32 + unscale k (unat u)"
proof -
  have u: "unat (push_bit 32 u div K) = unscale k (unat u)"
    using assms by (simp add: unat_div push_bit_eq_mult unat_word_ariths unscale_def)
  have s: "unat (push_bit 32 sec) = unat sec * 2 ^ 32"
    using assms by (simp add: push_bit_eq_mult unat_word_ariths)
  have "unscale k (unat u) < 2 ^ 32" using assms unscale_less by blast
  then have "unat sec * 2 ^ 32 + unscale k (unat u) < 2 ^ 64" using assms(1) by simp
  then show ?thesis using u s by (simp add: unat_word_ariths)
qed

lemma timeval_of_erf:
  assumes "f_get_erf_timestamp fmt = Some get_erf" "get_erf packet = Inr ts" "f_get_timeval fmt = None"
  shows "\<exists>tv. trace_get_timeval rnd fmt packet = Inr tv \<and> unat (tv_sec tv) = unat ts div 2 ^ 32 \<and>
    unat (tv_usec tv) < 1000000 \<and> unat (tv_usec tv) = scale 1000000 (unat ts mod 2 ^ 32)"
proof -
  define w where "w = drop_bit 32 (and ts 0xFFFFFFFF * 1000000)"
  have u: "unat w = scale 1000000 (unat ts mod 2 ^ 32)"
    unfolding w_def by (rule unat_scaled) simp_all
  have l: "scale 1000000 (unat ts mod 2 ^ 32) < 1000000" by (rule scale_less) simp_all
  have "\<not> 1000000 \<le> sint w" using u l by (subst sint_small_word) simp_all
  then show ?thesis
    using assms u l by (simp add: trace_get_timeval_def w_def [symmetric] Let_def unat_seconds)
qed

lemma timespec_of_erf:
  assumes "f_get_erf_timestamp fmt = Some get_erf" "get_erf packet = Inr ts" "f_get_timespec fmt = None"
  shows "\<exists>t. trace_get_timespec rnd fmt packet = Inr t \<and> unat (ts_sec t) = unat ts div 2 ^ 32 \<and>
    unat (ts_nsec t) < 1000000000 \<and> unat (ts_nsec t) = scale 1000000000 (unat ts mod 2 ^ 32)"
proof -
  define w where "w = drop_bit 32 (and ts 0xFFFFFFFF * 1000000000)"
  have u: "unat w = scale 1000000000 (unat ts mod 2 ^ 32)"
    unfolding w_def by (rule unat_scaled) simp_all
  have l: "scale 1000000000 (unat ts mod 2 ^ 32) < 1000000000" by (rule scale_less) simp_all
  have "\<not> 1000000000 \<le> sint w" using u l by (subst sint_small_word) simp_all
  then show ?thesis
    using assms u l by (simp add: trace_get_timespec_def w_def [symmetric] Let_def unat_seconds)
qed

lemma timeval_roundtrip:
  assumes "f_get_erf_timestamp fmt = None" "f_get_timespec fmt = None" "f_get_timeval fmt = Some get_tv"
    "get_tv packet = Inr tv" "unat (tv_sec tv) < 2 ^ 32" "unat (tv_usec tv) < 1000000"
    and conv: "f_get_erf_timestamp fmt' = Some (\<lambda>_. trace_get_erf_timestamp rnd fmt packet)" "f_get_timeval fmt' = None"
  shows "\<exists>tv'. trace_get_timeval rnd fmt' packet' = Inr tv' \<and> tv_sec tv' = tv_sec tv \<and>
    unat (tv_usec tv') \<le> unat (tv_usec tv) \<and> unat (tv_usec tv) \<le> unat (tv_usec tv') + 1"
proof -
  define w where "w = push_bit 32 (tv_sec tv) + push_bit 32 (tv_usec tv) div 1000000"
  have "unat w = unat (tv_sec tv) * 2 ^ 32 + unscale 1000000 (unat (tv_usec tv))"
    unfolding w_def by (rule unat_timestamp) (use assms in simp_all)
  then have w: "unat w div 2 ^ 32 = unat (tv_sec tv)" "unat w mod 2 ^ 32 = unscale 1000000 (unat (tv_usec tv))"
    using unscale_less [OF assms(6)] by simp_all
  have "trace_get_erf_timestamp rnd fmt packet = Inr w"
    using assms by (simp add: trace_get_erf_timestamp_def w_def)
  from timeval_of_erf [of fmt' _ packet' w rnd, OF conv(1) this conv(2)] w scale_unscale [OF assms(6)]
  show ?thesis by (auto simp: word_unat_eq_iff)
qed

lemma timespec_roundtrip:
  assumes "f_get_erf_timestamp fmt = None" "f_get_timespec fmt = Some get_ts"
    "get_ts packet = Inr ts" "unat (ts_sec ts) < 2 ^ 32" "unat (ts_nsec ts) < 1000000000"
    and conv: "f_get_erf_timestamp fmt' = Some (\<lambda>_. trace_get_erf_timestamp rnd fmt packet)" "f_get_timespec fmt' = None"
  shows "\<exists>ts'. trace_get_timespec rnd fmt' packet' = Inr ts' \<and> ts_sec ts' = ts_sec ts \<and>
    unat (ts_nsec ts') \<le> unat (ts_nsec ts) \<and> unat (ts_nsec ts) \<le> unat (ts_nsec ts') + 1"
proof -
  define w where "w = push_bit 32 (ts_sec ts) + push_bit 32 (ts_nsec ts) div 1000000000"
  have "unat w = unat (ts_sec ts) * 2 ^ 32 + unscale 1000000000 (unat (ts_nsec ts))"
    unfolding w_def by (rule unat_timestamp) (use assms in simp_all)
  then have w: "unat w div 2 ^ 32 = unat (ts_sec ts)" "unat w mod 2 ^ 32 = unscale 1000000000 (unat (ts_nsec ts))"
    using unscale_less [OF assms(5)] by simp_all
  have "trace_get_erf_timestamp rnd fmt packet = Inr w"
    using assms by (simp add: trace_get_erf_timestamp_def w_def)
  from timespec_of_erf [of fmt' _ packet' w rnd, OF conv(1) this conv(2)] w scale_unscale [OF assms(5)]
  show ?thesis by (auto simp: word_unat_eq_iff)
qed

section \<open>Properties\<close>

text \<open>
  For a format that stores timestamps as 32 bits of seconds and 32 bits of fraction, the
  time in microseconds and in nanoseconds is the exact time rounded down, with fewer than
  1000000 microseconds and fewer than 1000000000 nanoseconds: the products of the conversion do
  not overflow 64 bits and its final carry never happens.
\<close>

theorem erf_timestamp_conversion:
  assumes "f_get_erf_timestamp fmt = Some get_erf" "get_erf packet = Inr ts"
    "f_get_timeval fmt = None" "f_get_timespec fmt = None"
  shows "(\<exists>tv. trace_get_timeval rnd fmt packet = Inr tv \<and>
      unat (tv_sec tv) = unat ts div 2 ^ 32 \<and> unat (tv_usec tv) < 1000000 \<and>
      unat (tv_usec tv) = (unat ts mod 2 ^ 32) * 1000000 div 2 ^ 32) \<and>
    (\<exists>t. trace_get_timespec rnd fmt packet = Inr t \<and>
      unat (ts_sec t) = unat ts div 2 ^ 32 \<and> unat (ts_nsec t) < 1000000000 \<and>
      unat (ts_nsec t) = (unat ts mod 2 ^ 32) * 1000000000 div 2 ^ 32)"
  using timeval_of_erf [OF assms(1-3)] timespec_of_erf [OF assms(1,2,4)] by (simp_all add: scale_def)

theorem erf_timestamp_conversion_witness:
  "\<exists>fmt. \<exists>tv. trace_get_timeval id fmt trace_create_packet = Inr tv \<and> tv_usec tv = 500000 \<and> tv_sec tv = 7"
proof -
  let ?fmt = "null_format\<lparr>f_get_erf_timestamp := Some (\<lambda>_. Inr 0x780000000)\<rparr>"
  have "unat (0x780000000 :: u64) div 2 ^ 32 = 7" "(unat (0x780000000 :: u64) mod 2 ^ 32) * 1000000 div 2 ^ 32 = 500000"
    by simp_all
  moreover have "tv_usec tv = 500000 \<and> tv_sec tv = 7"
    if "unat (tv_usec tv) = 500000" "unat (tv_sec tv) = 7" for tv
    using that by (auto simp: word_unat_eq_iff)
  ultimately show ?thesis
    using erf_timestamp_conversion [of ?fmt "\<lambda>_. Inr 0x780000000" trace_create_packet "0x780000000" id]
    by (simp add: fixed_format_def) blast
qed

text \<open>
  (C17) Converting a time to a timestamp and back. A format that reports microseconds (or
  nanoseconds) of a second before 2106 has a timestamp; a format that reports that timestamp has
  the same second and loses at most one microsecond (or one nanosecond), never gaining.
\<close>

theorem timestamp_roundtrip:
  assumes "f_get_erf_timestamp fmt = None"
    "f_get_erf_timestamp fmt' = Some (\<lambda>_. trace_get_erf_timestamp rnd fmt packet)"
    "f_get_timeval fmt' = None" "f_get_timespec fmt' = None"
  shows "(\<forall>tv. f_get_timespec fmt = None \<longrightarrow> answers (f_get_timeval fmt) packet tv \<longrightarrow>
      unat (tv_sec tv) < 2 ^ 32 \<longrightarrow> unat (tv_usec tv) < 1000000 \<longrightarrow>
      (\<exists>tv'. trace_get_timeval rnd fmt' packet' = Inr tv' \<and> tv_sec tv' = tv_sec tv \<and>
        unat (tv_usec tv') \<le> unat (tv_usec tv) \<and> unat (tv_usec tv) \<le> unat (tv_usec tv') + 1)) \<and>
    (\<forall>ts. answers (f_get_timespec fmt) packet ts \<longrightarrow>
      unat (ts_sec ts) < 2 ^ 32 \<longrightarrow> unat (ts_nsec ts) < 1000000000 \<longrightarrow>
      (\<exists>ts'. trace_get_timespec rnd fmt' packet' = Inr ts' \<and> ts_sec ts' = ts_sec ts \<and>
        unat (ts_nsec ts') \<le> unat (ts_nsec ts) \<and> unat (ts_nsec ts) \<le> unat (ts_nsec ts') + 1))"
  using timeval_roundtrip [OF assms(1) _ _ _ _ _ assms(2,3)] timespec_roundtrip [OF assms(1) _ _ _ _ assms(2,4)]
  by (blast elim!: answersE)

theorem timestamp_roundtrip_witness:
  "\<exists>(fmt :: libtrace_format) fmt' tv'. answers (f_get_timeval fmt) trace_create_packet \<lparr>tv_sec = 5, tv_usec = 999999\<rparr> \<and>
     trace_get_timeval id fmt' trace_create_packet = Inr tv' \<and> tv_sec tv' = 5 \<and> 999998 \<le> unat (tv_usec tv')"
proof -
  let ?fmt = "null_format\<lparr>f_get_timeval := Some (\<lambda>_. Inr \<lparr>tv_sec = 5, tv_usec = 999999\<rparr>)\<rparr>"
  let ?fmt' = "null_format\<lparr>f_get_erf_timestamp := Some (\<lambda>_. trace_get_erf_timestamp id ?fmt trace_create_packet)\<rparr>"
  have a: "answers (f_get_timeval ?fmt) trace_create_packet \<lparr>tv_sec = 5, tv_usec = 999999\<rparr>"
    by (simp add: answers_def)
  have "\<exists>tv'. trace_get_timeval id ?fmt' trace_create_packet = Inr tv' \<and> tv_sec tv' = 5 \<and>
      unat (tv_usec tv') \<le> 999999 \<and> 999999 \<le> unat (tv_usec tv') + 1"
    using timestamp_roundtrip [of ?fmt ?fmt' id trace_create_packet trace_create_packet] a
    by (auto simp: fixed_format_def)
  then obtain tv' where "trace_get_timeval id ?fmt' trace_create_packet = Inr tv'" "tv_sec tv' = 5"
      "999999 \<le> unat (tv_usec tv') + 1" by blast
  moreover from this have "999998 \<le> unat (tv_usec tv')" by linarith
  ultimately show ?thesis using a by blast
qed

end
