(* ===== verification/Par_Dispatch.thy ===== *)
theory Par_Dispatch
  imports Packet_Time Ring_Buffer "HOL-Library.Multiset"
begin

text \<open>
  What the threads of the parallel framework do with packets, from \<open>lib/trace_parallel.c\<close>: the
  callbacks of the user, dispatching a burst of packets, filtering a burst, playback in
  trace time, and the record of the first packet of every thread.
\<close>

section \<open>Messages and callbacks\<close>

text \<open>Codes from \<open>MESSAGE_USER\<close> (1000) on are the user's.\<close>

datatype libtrace_messages =
    MESSAGE_PACKET | MESSAGE_RESULT | MESSAGE_STARTING | MESSAGE_STOPPING | MESSAGE_RESUMING | MESSAGE_PAUSING
  | MESSAGE_DO_PAUSE | MESSAGE_DO_STOP | MESSAGE_FIRST_PACKET | MESSAGE_POST_REPORTER | MESSAGE_TICK_INTERVAL
  | MESSAGE_TICK_COUNT | MESSAGE_USER nat

text \<open>
  Callbacks act on everything that belongs to the user, \<open>'u\<close>: the data of the thread and of the
  program. A callback that is not set is \<open>None\<close>. The data of a message are 64 bits.
\<close>

record 'u callback_set =
  message_starting :: "('u \<Rightarrow> 'u) option"
  message_stopping :: "('u \<Rightarrow> 'u) option"
  message_resuming :: "('u \<Rightarrow> 'u) option"
  message_pausing :: "('u \<Rightarrow> 'u) option"
  message_packet :: "('u \<Rightarrow> libtrace_packet \<Rightarrow> 'u \<times> libtrace_packet option) option"
  message_result :: "('u \<Rightarrow> u64 \<Rightarrow> 'u) option"
  message_first_packet :: "('u \<Rightarrow> 'u) option"
  message_tick_count :: "('u \<Rightarrow> u64 \<Rightarrow> 'u) option"
  message_tick_interval :: "('u \<Rightarrow> u64 \<Rightarrow> 'u) option"
  message_user :: "('u \<Rightarrow> nat \<Rightarrow> u64 \<Rightarrow> 'u) option"

definition trace_create_callback_set :: "'u callback_set" where
  "trace_create_callback_set =
     \<lparr>message_starting = None, message_stopping = None, message_resuming = None, message_pausing = None,
      message_packet = None, message_result = None, message_first_packet = None, message_tick_count = None,
      message_tick_interval = None, message_user = None\<rparr>"

definition call0 :: "('u \<Rightarrow> 'u) option \<Rightarrow> 'u \<Rightarrow> 'u" where
  "call0 fn u = (case fn of None \<Rightarrow> u | Some f \<Rightarrow> f u)"

definition call1 :: "('u \<Rightarrow> 'a \<Rightarrow> 'u) option \<Rightarrow> 'a \<Rightarrow> 'u \<Rightarrow> 'u" where
  "call1 fn x u = (case fn of None \<Rightarrow> u | Some f \<Rightarrow> f u x)"

text \<open>\<open>cbs\<close> is the set of the reporter or of the per-packet threads; there may be none.\<close>

fun send_message :: "'u callback_set option \<Rightarrow> libtrace_messages \<Rightarrow> u64 \<Rightarrow> 'u \<Rightarrow> 'u" where
  "send_message None type data u = u"
| "send_message (Some cbs) type data u =
     (case type of
        MESSAGE_STARTING \<Rightarrow> call0 (message_starting cbs) u
      | MESSAGE_FIRST_PACKET \<Rightarrow> call0 (message_first_packet cbs) u
      | MESSAGE_TICK_COUNT \<Rightarrow> call1 (message_tick_count cbs) data u
      | MESSAGE_TICK_INTERVAL \<Rightarrow> call1 (message_tick_interval cbs) data u
      | MESSAGE_STOPPING \<Rightarrow> call0 (message_stopping cbs) u
      | MESSAGE_RESUMING \<Rightarrow> call0 (message_resuming cbs) u
      | MESSAGE_PAUSING \<Rightarrow> call0 (message_pausing cbs) u
      | MESSAGE_USER code \<Rightarrow> (case message_user cbs of None \<Rightarrow> u | Some f \<Rightarrow> f u code data)
      | MESSAGE_RESULT \<Rightarrow> call1 (message_result cbs) data u
      | MESSAGE_DO_PAUSE \<Rightarrow> u
      | MESSAGE_DO_STOP \<Rightarrow> u
      | MESSAGE_POST_REPORTER \<Rightarrow> u
      | MESSAGE_PACKET \<Rightarrow> u)"

definition trace_set_starting_cb :: "'u callback_set \<Rightarrow> ('u \<Rightarrow> 'u) option \<Rightarrow> 'u callback_set" where
  "trace_set_starting_cb cbset handler = cbset\<lparr>message_starting := handler\<rparr>"

definition trace_set_pausing_cb :: "'u callback_set \<Rightarrow> ('u \<Rightarrow> 'u) option \<Rightarrow> 'u callback_set" where
  "trace_set_pausing_cb cbset handler = cbset\<lparr>message_pausing := handler\<rparr>"

definition trace_set_resuming_cb :: "'u callback_set \<Rightarrow> ('u \<Rightarrow> 'u) option \<Rightarrow> 'u callback_set" where
  "trace_set_resuming_cb cbset handler = cbset\<lparr>message_resuming := handler\<rparr>"

definition trace_set_stopping_cb :: "'u callback_set \<Rightarrow> ('u \<Rightarrow> 'u) option \<Rightarrow> 'u callback_set" where
  "trace_set_stopping_cb cbset handler = cbset\<lparr>message_stopping := handler\<rparr>"

definition trace_set_packet_cb ::
  "'u callback_set \<Rightarrow> ('u \<Rightarrow> libtrace_packet \<Rightarrow> 'u \<times> libtrace_packet option) option \<Rightarrow> 'u callback_set" where
  "trace_set_packet_cb cbset handler = cbset\<lparr>message_packet := handler\<rparr>"

definition trace_set_first_packet_cb :: "'u callback_set \<Rightarrow> ('u \<Rightarrow> 'u) option \<Rightarrow> 'u callback_set" where
  "trace_set_first_packet_cb cbset handler = cbset\<lparr>message_first_packet := handler\<rparr>"

definition trace_set_tick_count_cb :: "'u callback_set \<Rightarrow> ('u \<Rightarrow> u64 \<Rightarrow> 'u) option \<Rightarrow> 'u callback_set" where
  "trace_set_tick_count_cb cbset handler = cbset\<lparr>message_tick_count := handler\<rparr>"

definition trace_set_tick_interval_cb :: "'u callback_set \<Rightarrow> ('u \<Rightarrow> u64 \<Rightarrow> 'u) option \<Rightarrow> 'u callback_set" where
  "trace_set_tick_interval_cb cbset handler = cbset\<lparr>message_tick_interval := handler\<rparr>"

definition trace_set_result_cb :: "'u callback_set \<Rightarrow> ('u \<Rightarrow> u64 \<Rightarrow> 'u) option \<Rightarrow> 'u callback_set" where
  "trace_set_result_cb cbset handler = cbset\<lparr>message_result := handler\<rparr>"

definition trace_set_user_message_cb :: "'u callback_set \<Rightarrow> ('u \<Rightarrow> nat \<Rightarrow> u64 \<Rightarrow> 'u) option \<Rightarrow> 'u callback_set" where
  "trace_set_user_message_cb cbset handler = cbset\<lparr>message_user := handler\<rparr>"

section \<open>Threads\<close>

text \<open>The part of a thread that its handling of packets concerns.\<close>

record 'u libtrace_thread =
  th_accepted_packets :: u64
  th_filtered_packets :: u64
  th_recorded_first :: bool
  th_tracetime_offset_usec :: u64
  th_user_data :: 'u
  th_format_data :: "libtrace_packet option"
  th_rbuffer :: "libtrace_packet libtrace_ringbuffer"
  th_perpkt_num :: nat

definition READ_EOF :: c_int where
  "READ_EOF = 0"

definition READ_ERROR :: c_int where
  "READ_ERROR = - 1"

definition READ_MESSAGE :: c_int where
  "READ_MESSAGE = - 2"

definition READ_TICK :: c_int where
  "READ_TICK = - 3"

text \<open>Releasing a packet for reuse; the release of format and bucket resources is not modelled.\<close>

definition trace_fin_packet :: "libtrace_packet \<Rightarrow> libtrace_packet" where
  "trace_fin_packet packet =
     (trace_clear_cache (packet\<lparr>p_header := None, p_payload := None,
        p_mem := (if p_buf_control packet \<noteq> TRACE_CTRL_PACKET then [] else p_mem packet)\<rparr>))
     \<lparr>p_hash := 0, p_order := 0\<rparr>"

definition trace_packet_get_order :: "libtrace_packet \<Rightarrow> u64" where
  "trace_packet_get_order packet = p_order packet"

definition trace_packet_get_hash :: "libtrace_packet \<Rightarrow> u64" where
  "trace_packet_get_hash packet = p_hash packet"

definition trace_packet_set_order :: "libtrace_packet \<Rightarrow> u64 \<Rightarrow> libtrace_packet" where
  "trace_packet_set_order packet order = packet\<lparr>p_order := order\<rparr>"

definition trace_packet_set_hash :: "libtrace_packet \<Rightarrow> u64 \<Rightarrow> libtrace_packet" where
  "trace_packet_set_hash packet hash = packet\<lparr>p_hash := hash\<rparr>"

section \<open>Playback in trace time\<close>

definition tv_to_usec :: "timeval \<Rightarrow> u64" where
  "tv_to_usec tv = tv_sec tv * 1000000 + tv_usec tv"

definition usec_to_tv :: "u64 \<Rightarrow> timeval" where
  "usec_to_tv usec = \<lparr>tv_sec = usec div 1000000, tv_usec = usec mod 1000000\<rparr>"

text \<open>
  \<open>first\<close> is the answer of \<open>trace_get_first_packet\<close> for the trace: whether it is final, the packet and
  the time of the system when it was received. \<open>now\<close> is the time of the call and \<open>ready\<close> whether
  a message arrives before the time to wait has passed.
\<close>

definition delay_tracetime ::
  "(double \<Rightarrow> double) \<Rightarrow> libtrace_format \<Rightarrow> bool \<times> libtrace_packet option \<times> timeval \<Rightarrow> timeval \<Rightarrow> bool \<Rightarrow>
   libtrace_packet \<Rightarrow> 'u libtrace_thread \<Rightarrow> (c_int \<times> 'u libtrace_thread) res" where
  "delay_tracetime rnd fmt first now ready packet t =
     bindr
       (if th_tracetime_offset_usec t = 0 then
          (case first of (final, first_pkt, sys_tv) \<Rightarrow>
             case first_pkt of None \<Rightarrow> Inl AssertFail
             | Some first_pkt \<Rightarrow>
                 bindr (trace_get_timeval rnd fmt first_pkt) (\<lambda>pkt_tv.
                   let initial_offset = tv_to_usec sys_tv - tv_to_usec pkt_tv in
                   Inr (initial_offset,
                     if final then t\<lparr>th_tracetime_offset_usec := (if initial_offset \<noteq> 0 then initial_offset else 1)\<rparr>
                     else t)))
        else Inr (th_tracetime_offset_usec t, t))
       (\<lambda>(next_release, t).
          bindr (trace_get_timeval rnd fmt packet) (\<lambda>pkt_tv.
            let next_release = next_release + tv_to_usec pkt_tv in
            if next_release > tv_to_usec now \<and> ready then Inr (READ_MESSAGE, t) else Inr (0, t)))"

section \<open>Dispatching packets\<close>

text \<open>
  \<open>delay\<close> is \<^const>\<open>delay_tracetime\<close> at the time of the call. The result is the code returned, the
  packet that is left in the slot (the one the callback gave back, released) and the thread.
\<close>

definition dispatch_packet ::
  "'u callback_set \<Rightarrow> (libtrace_packet \<Rightarrow> 'u libtrace_thread \<Rightarrow> (c_int \<times> 'u libtrace_thread) res) \<Rightarrow>
   'u libtrace_thread \<Rightarrow> libtrace_packet \<Rightarrow> bool \<Rightarrow> (c_int \<times> libtrace_packet option \<times> 'u libtrace_thread) res" where
  "dispatch_packet cbs delay t packet tracetime =
     (if 0 < sint (p_error packet) then
        bindr (if tracetime then delay packet t else Inr (0, t)) (\<lambda>(ret, t).
          if ret = READ_MESSAGE then Inr (READ_MESSAGE, Some packet, t)
          else
            let t = t\<lparr>th_accepted_packets := th_accepted_packets t + 1\<rparr>;
                (u, slot) = (case message_packet cbs of
                    None \<Rightarrow> (th_user_data t, Some packet)
                  | Some cb \<Rightarrow> cb (th_user_data t) packet) in
            Inr (0, map_option trace_fin_packet slot, t\<lparr>th_user_data := u\<rparr>))
      else
        assertr (p_error packet = READ_TICK)
          (Inr (0, Some packet,
            t\<lparr>th_user_data := send_message (Some cbs) MESSAGE_TICK_COUNT (trace_packet_get_order packet) (th_user_data t)\<rparr>)))"

text \<open>\<open>delays\<close> gives the delay for each position of the burst.\<close>

function dispatch_packets ::
  "'u callback_set \<Rightarrow> (nat \<Rightarrow> libtrace_packet \<Rightarrow> 'u libtrace_thread \<Rightarrow> (c_int \<times> 'u libtrace_thread) res) \<Rightarrow>
   'u libtrace_thread \<Rightarrow> libtrace_packet option list \<Rightarrow> nat \<Rightarrow> nat \<Rightarrow> nat \<Rightarrow> bool \<Rightarrow>
   (c_int \<times> libtrace_packet option list \<times> nat \<times> nat \<times> 'u libtrace_thread) res" where
  "dispatch_packets cbs delays t packets nb_packets emp offset tracetime =
     (if offset < nb_packets then
        if length packets \<le> offset then Inl (OutOfBounds offset)
        else case packets ! offset of
          None \<Rightarrow> Inl NullDeref
        | Some packet \<Rightarrow>
            bindr (dispatch_packet cbs (delays offset) t packet tracetime) (\<lambda>(ret, slot, t).
              let packets = packets[offset := slot] in
              if ret = 0 then
                if slot \<noteq> None then
                  let packets = (if emp \<noteq> offset then packets[emp := slot, offset := None] else packets) in
                  dispatch_packets cbs delays t packets nb_packets (emp + 1) (offset + 1) tracetime
                else dispatch_packets cbs delays t packets nb_packets emp (offset + 1) tracetime
              else assertr (ret = READ_MESSAGE) (Inr (READ_MESSAGE, packets, emp, offset, t)))
      else Inr (0, packets, emp, offset, t))"
  by pat_completeness auto
termination
  by (relation "measure (\<lambda>(cbs, delays, t, packets, nb_packets, emp, offset, tracetime). nb_packets - offset)") simp_all

declare dispatch_packets.simps [simp del]

section \<open>Filtering a burst\<close>

text \<open>
  \<open>apply_filter\<close> is \<open>trace_apply_filter\<close> for the filter of the trace. It returns -1 when the filter
  cannot be compiled for a packet, which counts as a match here.
\<close>

function filter_loop ::
  "(libtrace_packet \<Rightarrow> c_int) \<Rightarrow> libtrace_packet list \<Rightarrow> nat \<Rightarrow> nat \<Rightarrow> nat \<Rightarrow> nat \<times> libtrace_packet list" where
  "filter_loop apply_filter packets nb_packets offset i =
     (if i < nb_packets then
        if apply_filter (packets ! i) \<noteq> 0 then
          let tmp = packets ! offset in
          filter_loop apply_filter (packets[offset := packets ! i, i := tmp]) nb_packets (offset + 1) (i + 1)
        else filter_loop apply_filter (packets[i := trace_fin_packet (packets ! i)]) nb_packets offset (i + 1)
      else (offset, packets))"
  by pat_completeness auto
termination
  by (relation "measure (\<lambda>(apply_filter, packets, nb_packets, offset, i). nb_packets - i)") simp_all

declare filter_loop.simps [simp del]

definition filter_packets ::
  "(libtrace_packet \<Rightarrow> c_int) \<Rightarrow> libtrace_packet list \<Rightarrow> nat \<Rightarrow> nat \<times> libtrace_packet list" where
  "filter_packets apply_filter packets nb_packets = filter_loop apply_filter packets nb_packets 0 0"

section \<open>First packets\<close>

text \<open>The times are those of the system when a packet was stored.\<close>

record first_packets =
  fp_count :: nat
  fp_first :: nat
  fp_packets :: "(libtrace_packet option \<times> timeval) list"

text \<open>
  \<open>fresh\<close> is the memory for the copy, \<open>tv\<close> the time. The last component of the result says
  whether the message \<open>MESSAGE_FIRST_PACKET\<close> is sent to the reporter and all per-packet threads.
\<close>

definition store_first_packet ::
  "(double \<Rightarrow> double) \<Rightarrow> libtrace_format \<Rightarrow> pktmem \<Rightarrow> timeval \<Rightarrow> first_packets \<Rightarrow> libtrace_packet \<Rightarrow>
   'u libtrace_thread \<Rightarrow> (first_packets \<times> libtrace_packet \<times> 'u libtrace_thread \<times> bool) res" where
  "store_first_packet rnd fmt fresh tv fp packet t =
     (if th_recorded_first t then Inr (fp, packet, t, False)
      else
        bindr (trace_copy_packet fmt fresh packet) (\<lambda>(dup, packet).
          if length (fp_packets fp) \<le> th_perpkt_num t then Inl (OutOfBounds (th_perpkt_num t))
          else
            let fp = fp\<lparr>fp_packets := (fp_packets fp)[th_perpkt_num t := (Some dup, tv)], fp_count := fp_count fp + 1\<rparr>;
                t = t\<lparr>th_recorded_first := True\<rparr> in
            if fp_count fp = 1 then Inr (fp\<lparr>fp_first := th_perpkt_num t\<rparr>, packet, t, True)
            else
              bindr (trace_get_seconds rnd fmt dup) (\<lambda>s.
                case fst (fp_packets fp ! fp_first fp) of None \<Rightarrow> Inl NullDeref
                | Some first \<Rightarrow>
                    bindr (trace_get_seconds rnd fmt first) (\<lambda>s'.
                      Inr (if s < s' then fp\<lparr>fp_first := th_perpkt_num t\<rparr> else fp, packet, t, True)))))"

text \<open>
  The answer: the code, the packet and its time. \<open>t\<close> is the number of a thread, when the packet of
  one is asked for; other threads are refused with -1 before.
\<close>

definition trace_get_first_packet ::
  "timeval \<Rightarrow> nat \<Rightarrow> first_packets \<Rightarrow> nat option \<Rightarrow> c_int \<times> libtrace_packet option \<times> timeval option" where
  "trace_get_first_packet now perpkt_thread_count fp t =
     (case t of
        Some i \<Rightarrow> (0, fst (fp_packets fp ! i), Some (snd (fp_packets fp ! i)))
      | None \<Rightarrow>
          if fp_count fp \<noteq> 0 then
            let (packet, tv) = fp_packets fp ! fp_first fp in
            (if fp_count fp = perpkt_thread_count then 1
             else if sint (tv_sec tv) < sint (tv_sec now) \<and>
                 (sint (tv_usec tv) < sint (tv_usec now) \<or> 1 < sint (tv_sec now - tv_sec tv)) then 1
             else 0, packet, Some tv)
          else (0, None, None))"

section \<open>Conversions of time\<close>

lemma tv_to_usec_inverse: "tv_to_usec (usec_to_tv usec) = usec"
  by (simp add: tv_to_usec_def usec_to_tv_def div_mult_mod_eq)

section \<open>Filtering\<close>

definition burst :: "'a list \<Rightarrow> nat \<Rightarrow> nat \<Rightarrow> 'a list" where
  "burst packets i nb = take (nb - i) (drop i packets)"

lemma burst_step: "i < nb \<Longrightarrow> nb \<le> length packets \<Longrightarrow> burst packets i nb = packets ! i # burst packets (Suc i) nb"
  by (simp add: burst_def Cons_nth_drop_Suc [symmetric] take_Cons' Suc_diff_Suc)

lemma burst_end: "burst packets nb nb = []"
  by (simp add: burst_def)

lemma burst_update: "j \<le> i \<Longrightarrow> burst (packets[j := x]) (Suc i) nb = burst packets (Suc i) nb"
  by (simp add: burst_def)

lemma burst_0: "burst packets 0 nb = take nb packets"
  by (simp add: burst_def)

lemma filter_loop_spec:
  assumes "offset \<le> i" "i \<le> nb" "nb \<le> length packets"
    and "filter_loop f packets nb offset i = (k, packets')"
  shows "k = offset + length (filter (\<lambda>p. f p \<noteq> 0) (burst packets i nb)) \<and>
    take k packets' = take offset packets @ filter (\<lambda>p. f p \<noteq> 0) (burst packets i nb) \<and>
    mset (take nb packets') = mset (take i packets) + mset (filter (\<lambda>p. f p \<noteq> 0) (burst packets i nb)) +
      mset (map trace_fin_packet (filter (\<lambda>p. f p = 0) (burst packets i nb))) \<and>
    length packets' = length packets \<and> drop nb packets' = drop nb packets"
  using assms
proof (induction "nb - i" arbitrary: offset i packets)
  case 0
  then show ?case by (simp add: filter_loop.simps [of f packets i offset i] burst_end)
next
  case (Suc n)
  then have i: "i < nb" "n = nb - Suc i" by simp_all
  show ?case
  proof (cases "f (packets ! i) = 0")
    case True
    let ?p = "packets[i := trace_fin_packet (packets ! i)]"
    have "filter_loop f ?p nb offset (Suc i) = (k, packets')"
      using Suc.prems(4) i True by (simp add: filter_loop.simps [of f packets nb offset i])
    note IH = Suc.hyps(1) [OF i(2) _ _ _ this]
    show ?thesis using IH Suc.prems i True
      by (auto simp: burst_step [OF i(1) Suc.prems(3)] burst_update take_Suc_conv_app_nth ac_simps)
  next
    case False
    let ?p = "packets[offset := packets ! i, i := packets ! offset]"
    have "filter_loop f ?p nb (Suc offset) (Suc i) = (k, packets')"
      using Suc.prems(4) i False by (simp add: filter_loop.simps [of f packets nb offset i] Let_def)
    note IH = Suc.hyps(1) [OF i(2) _ _ _ this]
    have t: "take (Suc offset) ?p = take offset packets @ [packets ! i]"
      using Suc.prems i by (cases "offset = i") (simp_all add: take_Suc_conv_app_nth)
    have "take (Suc i) ?p = (take (Suc i) packets)[offset := take (Suc i) packets ! i, i := take (Suc i) packets ! offset]"
      using Suc.prems(1) by (simp add: take_update_swap)
    also have "mset \<dots> = mset (take (Suc i) packets)"
      by (rule mset_swap) (use Suc.prems i in simp_all)
    also have "\<dots> = mset (take i packets) + {#packets ! i#}"
      using Suc.prems i by (simp add: take_Suc_conv_app_nth)
    finally show ?thesis using IH Suc.prems i False t
      by (auto simp: burst_step [OF i(1) Suc.prems(3)] burst_update)
  qed
qed

section \<open>Dispatching\<close>

text \<open>What the user sees of a list of packets, and what is given back for reuse.\<close>

definition deliver :: "'u callback_set \<Rightarrow> libtrace_packet \<Rightarrow> 'u \<Rightarrow> libtrace_packet option \<times> 'u" where
  "deliver cbs p u =
     (if p_error p = READ_TICK then (Some p, call1 (message_tick_count cbs) (p_order p) u)
      else case message_packet cbs of
        None \<Rightarrow> (Some (trace_fin_packet p), u)
      | Some cb \<Rightarrow> let (u, q) = cb u p in (map_option trace_fin_packet q, u))"

fun deliver_all :: "'u callback_set \<Rightarrow> libtrace_packet list \<Rightarrow> 'u \<Rightarrow> libtrace_packet list \<times> 'u" where
  "deliver_all cbs [] u = ([], u)"
| "deliver_all cbs (p # ps) u =
     (let (slot, u) = deliver cbs p u; (qs, u) = deliver_all cbs ps u in
      (case slot of None \<Rightarrow> qs | Some q \<Rightarrow> q # qs, u))"

definition is_data :: "libtrace_packet \<Rightarrow> bool" where
  "is_data p \<longleftrightarrow> 0 < sint (p_error p)"

lemma tick_not_data: "p_error p = READ_TICK \<Longrightarrow> \<not> is_data p"
  by (simp add: is_data_def READ_TICK_def)

lemma dispatch_deliver:
  assumes "is_data p \<or> p_error p = READ_TICK"
  shows "dispatch_packet cbs delay t p False = (let (slot, u) = deliver cbs p (th_user_data t) in
    Inr (0, slot, t\<lparr>th_accepted_packets := th_accepted_packets t + (if is_data p then 1 else 0), th_user_data := u\<rparr>))"
proof (cases "is_data p")
  case True
  then have "0 < sint (p_error p)" "p_error p \<noteq> READ_TICK" using tick_not_data [of p] by (auto simp: is_data_def)
  then show ?thesis
    by (simp add: dispatch_packet_def deliver_def READ_MESSAGE_def True split: option.splits prod.splits)
next
  case False
  then have "\<not> 0 < sint (p_error p)" "p_error p = READ_TICK" using assms by (simp_all add: is_data_def)
  then show ?thesis using False
    by (simp add: dispatch_packet_def deliver_def trace_packet_get_order_def)
qed

lemma compacted:
  assumes "emp \<le> nb" "nb \<le> length packets" "\<And>j. emp \<le> j \<Longrightarrow> j < nb \<Longrightarrow> packets ! j = None"
  shows "packets = take emp packets @ replicate (nb - emp) None @ drop nb packets"
  using assms by (intro nth_equalityI) (auto simp: nth_append)

lemma dispatch_packets_spec:
  assumes "emp \<le> offset" "nb \<le> length packets" "offset + length ps = nb"
    and "\<And>j. emp \<le> j \<Longrightarrow> j < offset \<Longrightarrow> packets ! j = None"
    and "burst packets offset nb = map Some ps" "\<And>p. p \<in> set ps \<Longrightarrow> is_data p \<or> p_error p = READ_TICK"
    and "deliver_all cbs ps (th_user_data t) = (qs, u)"
  shows "dispatch_packets cbs delays t packets nb emp offset False =
    Inr (0, take emp packets @ map Some qs @ replicate (nb - emp - length qs) None @ drop nb packets,
      emp + length qs, nb,
      t\<lparr>th_accepted_packets := th_accepted_packets t + of_nat (length (filter is_data ps)), th_user_data := u\<rparr>)"
  using assms
proof (induction ps arbitrary: offset emp packets t qs)
  case Nil
  then show ?case
    using compacted [of emp nb packets] by (simp add: dispatch_packets.simps [of cbs delays t packets nb emp nb])
next
  case (Cons p ps)
  then have off: "offset < nb" "offset < length packets" by simp_all
  have p: "packets ! offset = Some p" "burst packets (Suc offset) nb = map Some ps"
    using Cons.prems(5) burst_step [OF off(1) Cons.prems(2)] by simp_all
  obtain slot u1 where d: "deliver cbs p (th_user_data t) = (slot, u1)" by fastforce
  obtain qs1 where q: "deliver_all cbs ps u1 = (qs1, u)" and qs: "qs = (case slot of None \<Rightarrow> qs1 | Some q \<Rightarrow> q # qs1)"
    using Cons.prems(7) d by (auto split: prod.splits)
  define t1 where "t1 = t\<lparr>th_accepted_packets := th_accepted_packets t + (if is_data p then 1 else 0), th_user_data := u1\<rparr>"
  have dp: "dispatch_packet cbs (delays offset) t p False = Inr (0, slot, t1)"
    using dispatch_deliver [of p cbs "delays offset" t] Cons.prems(6) d by (simp add: t1_def)
  define emp1 where "emp1 = (if slot = None then emp else Suc emp)"
  define packets1 where "packets1 = (if slot = None then packets[offset := None]
    else if emp = offset then packets[offset := slot] else packets[emp := slot, offset := None])"
  have step: "dispatch_packets cbs delays t packets nb emp offset False =
      dispatch_packets cbs delays t1 packets1 nb emp1 (Suc offset) False"
    using off p dp by (auto simp: dispatch_packets.simps [of cbs delays t packets nb emp offset] Let_def
        packets1_def emp1_def list_update_swap)
  have q1: "deliver_all cbs ps (th_user_data t1) = (qs1, u)" using q by (simp add: t1_def)
  have IH: "dispatch_packets cbs delays t1 packets1 nb emp1 (Suc offset) False =
    Inr (0, take emp1 packets1 @ map Some qs1 @ replicate (nb - emp1 - length qs1) None @ drop nb packets1,
      emp1 + length qs1, nb,
      t1\<lparr>th_accepted_packets := th_accepted_packets t1 + of_nat (length (filter is_data ps)), th_user_data := u\<rparr>)"
    using q1 by (rule Cons.IH [rotated 6])
      (use Cons.prems p off in \<open>auto simp: emp1_def packets1_def burst_update nth_list_update\<close>)
  have "take emp1 packets1 @ map Some qs1 = take emp packets @ map Some qs" "emp1 + length qs1 = emp + length qs"
    "drop nb packets1 = drop nb packets"
    using Cons.prems(1) off unfolding packets1_def emp1_def qs
    by (auto simp: take_Suc_conv_app_nth split: option.splits)
  moreover have "nb - emp1 - length qs1 = nb - emp - length qs" using calculation(2) by linarith
  ultimately show ?case unfolding step IH by (simp add: t1_def flip: append_assoc)
qed

section \<open>First packets\<close>

definition fp_slot :: "first_packets \<Rightarrow> nat \<Rightarrow> libtrace_packet option" where
  "fp_slot fp i = (if i < length (fp_packets fp) then fst (fp_packets fp ! i) else None)"

text \<open>
  The count is the number of threads that have a packet, and \<open>first\<close> is one with the smallest time;
  \<open>sec\<close> gives the times of the packets.
\<close>

definition fp_inv :: "(libtrace_packet \<Rightarrow> double) \<Rightarrow> first_packets \<Rightarrow> bool" where
  "fp_inv sec fp \<longleftrightarrow> fp_count fp = card {i. fp_slot fp i \<noteq> None} \<and>
     (fp_count fp \<noteq> 0 \<longrightarrow> (\<exists>p. fp_slot fp (fp_first fp) = Some p \<and>
        (\<forall>i q. fp_slot fp i = Some q \<longrightarrow> sec p \<le> sec q)))"

lemma finite_slots: "finite {i. fp_slot fp i \<noteq> None}"
  by (rule finite_subset [of _ "{..<length (fp_packets fp)}"]) (auto simp: fp_slot_def split: if_splits)

lemma fp_slot_store:
  assumes "k < length (fp_packets fp)"
  shows "fp_slot (fp\<lparr>fp_packets := (fp_packets fp)[k := (Some dup, tv)], fp_count := c, fp_first := f\<rparr>) i =
    (if i = k then Some dup else fp_slot fp i)"
  using assms by (simp add: fp_slot_def nth_list_update)

text \<open>Storing a packet for a thread that has none keeps the record.\<close>

lemma fp_inv_store:
  assumes "fp_inv sec fp" "fp_slot fp k = None" "k < length (fp_packets fp)"
    and "fp' = fp\<lparr>fp_packets := (fp_packets fp)[k := (Some dup, tv)], fp_count := Suc (fp_count fp),
      fp_first := (if fp_count fp = 0 then k
                   else if sec dup < sec (the (fp_slot fp (fp_first fp))) then k else fp_first fp)\<rparr>"
  shows "fp_inv sec fp'"
proof -
  have slot: "fp_slot fp' i = (if i = k then Some dup else fp_slot fp i)" for i
    unfolding assms(4) by (rule fp_slot_store [OF assms(3)])
  have "{i. fp_slot fp' i \<noteq> None} = insert k {i. fp_slot fp i \<noteq> None}" by (auto simp: slot)
  moreover have "card (insert k {i. fp_slot fp i \<noteq> None}) = Suc (card {i. fp_slot fp i \<noteq> None})"
    by (rule card_insert_disjoint) (use finite_slots assms(2) in auto)
  moreover have "fp_count fp' = Suc (fp_count fp)" by (simp add: assms(4))
  ultimately have count: "fp_count fp' = card {i. fp_slot fp' i \<noteq> None}"
    using assms(1) unfolding fp_inv_def by simp
  have "\<exists>p. fp_slot fp' (fp_first fp') = Some p \<and> (\<forall>i q. fp_slot fp' i = Some q \<longrightarrow> sec p \<le> sec q)"
  proof (cases "fp_count fp = 0")
    case True
    then have "fp_slot fp i = None" for i using assms(1) finite_slots [of fp] by (simp add: fp_inv_def)
    moreover have "fp_first fp' = k" using True by (simp add: assms(4))
    ultimately show ?thesis by (simp add: slot)
  next
    case False
    then obtain p where p: "fp_slot fp (fp_first fp) = Some p" "\<And>i q. fp_slot fp i = Some q \<Longrightarrow> sec p \<le> sec q"
      using assms(1) by (auto simp: fp_inv_def)
    show ?thesis
    proof (cases "sec dup < sec p")
      case True
      then have "sec dup \<le> sec q" if "fp_slot fp i = Some q" for i q using p(2) [OF that] by simp
      moreover have "fp_first fp' = k" using True False p(1) by (simp add: assms(4))
      ultimately show ?thesis by (simp add: slot)
    next
      case not_less: False
      then have "fp_first fp \<noteq> k" "fp_first fp' = fp_first fp" using p(1) assms(2) False by (auto simp: assms(4))
      then show ?thesis using p not_less by (auto simp: slot)
    qed
  qed
  then show ?thesis using count by (simp add: fp_inv_def)
qed

section \<open>Properties\<close>

text \<open>
  (C28) Dispatching a burst. Every packet and every tick of the burst is given to the user exactly
  once, in order; the slots that hold a packet afterwards (what the callbacks gave back,
  released for reuse) come first, in order, and all other slots of the burst are empty, which is
  what the caller refills; the packets, not the ticks, are counted as accepted.
\<close>

theorem dispatch_packets_correct:
  assumes "packets = map Some ps @ rest" "nb = length ps"
    and "\<And>p. p \<in> set ps \<Longrightarrow> 0 < sint (p_error p) \<or> p_error p = READ_TICK"
    and "deliver_all cbs ps (th_user_data t) = (qs, u)"
  shows "dispatch_packets cbs delays t packets nb 0 0 False =
    Inr (0, map Some qs @ replicate (nb - length qs) None @ rest, length qs, nb,
      t\<lparr>th_accepted_packets := th_accepted_packets t + of_nat (length (filter (\<lambda>p. 0 < sint (p_error p)) ps)),
        th_user_data := u\<rparr>)"
proof -
  have "burst packets 0 nb = map Some ps" using assms(1,2) by (simp add: burst_def)
  from dispatch_packets_spec [OF _ _ _ _ this, of 0 cbs t qs u delays] assms
  show ?thesis by (simp add: is_data_def [abs_def])
qed

text \<open>
  (C29) Filtering a burst in place. The packets that match are moved to the front and keep their
  order; their number is returned; the packets that do not match are released and stay in the
  array behind them, so that no packet is lost; nothing outside the burst changes.
\<close>

theorem filter_packets_correct:
  assumes "nb \<le> length packets" "filter_packets f packets nb = (k, packets')"
  shows "k = length (filter (\<lambda>p. f p \<noteq> 0) (take nb packets)) \<and>
    take k packets' = filter (\<lambda>p. f p \<noteq> 0) (take nb packets) \<and>
    mset (take nb packets') = mset (filter (\<lambda>p. f p \<noteq> 0) (take nb packets)) +
      mset (map trace_fin_packet (filter (\<lambda>p. f p = 0) (take nb packets))) \<and>
    length packets' = length packets \<and> drop nb packets' = drop nb packets"
  using filter_loop_spec [of 0 0 nb packets f k packets'] assms by (auto simp: filter_packets_def burst_0)

text \<open>
  (C31) The first packet of a trace. Whatever the order in which the threads record their first
  packets, the packet that \<open>trace_get_first_packet\<close> returns for the trace is an earliest of those
  recorded so far, and the answer is final (1) as soon as all threads have recorded one; a thread
  records and announces only one packet.
\<close>

theorem first_packet_earliest:
  fixes t :: "'u libtrace_thread"
  assumes "fp_inv sec fp" "fp_slot fp (th_perpkt_num t) = None" "th_perpkt_num t < length (fp_packets fp)"
    and "\<not> th_recorded_first t" "trace_copy_packet fmt fresh packet = Inr (dup, packet')"
    and "\<And>p. p = dup \<or> (\<exists>i. fp_slot fp i = Some p) \<Longrightarrow> trace_get_seconds rnd fmt p = Inr (sec p)"
  shows "\<exists>fp' (t' :: 'u libtrace_thread). store_first_packet rnd fmt fresh tv fp packet t = Inr (fp', packet', t', True) \<and>
    fp_inv sec fp' \<and> fp_slot fp' (th_perpkt_num t) = Some dup \<and> th_recorded_first t' \<and>
    (\<exists>ret p ptv. trace_get_first_packet now n fp' None = (ret, Some p, ptv) \<and>
       (\<forall>i q. fp_slot fp' i = Some q \<longrightarrow> sec p \<le> sec q) \<and> (fp_count fp' = n \<longrightarrow> ret = 1)) \<and>
    store_first_packet rnd fmt fresh' tv' fp' packet'' t' = Inr (fp', packet'', t', False)"
proof -
  let ?k = "th_perpkt_num t"
  define fp' where "fp' = fp\<lparr>fp_packets := (fp_packets fp)[?k := (Some dup, tv)], fp_count := Suc (fp_count fp),
      fp_first := (if fp_count fp = 0 then ?k
                   else if sec dup < sec (the (fp_slot fp (fp_first fp))) then ?k else fp_first fp)\<rparr>"
  have inv: "fp_inv sec fp'" by (rule fp_inv_store [OF assms(1-3) fp'_def])
  have slot: "fp_slot fp' i = (if i = ?k then Some dup else fp_slot fp i)" for i
    unfolding fp'_def by (rule fp_slot_store [OF assms(3)])
  have "store_first_packet rnd fmt fresh tv fp packet t = Inr (fp', packet', t\<lparr>th_recorded_first := True\<rparr>, True)"
  proof (cases "fp_count fp = 0")
    case True
    then show ?thesis using assms(3-5) by (simp add: store_first_packet_def fp'_def Let_def)
  next
    case False
    then obtain p where p: "fp_slot fp (fp_first fp) = Some p" using assms(1) by (auto simp: fp_inv_def)
    then have "fp_first fp \<noteq> ?k" "fst (fp_packets fp ! fp_first fp) = Some p"
      using assms(2) by (auto simp: fp_slot_def split: if_splits)
    moreover have "trace_get_seconds rnd fmt p = Inr (sec p)" "trace_get_seconds rnd fmt dup = Inr (sec dup)"
      using assms(6) p by blast+
    ultimately show ?thesis using False p assms(3-5) by (simp add: store_first_packet_def fp'_def Let_def)
  qed
  moreover have "store_first_packet rnd fmt fresh' tv' fp' packet'' (t\<lparr>th_recorded_first := True\<rparr>) =
      Inr (fp', packet'', t\<lparr>th_recorded_first := True\<rparr>, False)"
    by (simp add: store_first_packet_def)
  moreover obtain p where p: "fp_slot fp' (fp_first fp') = Some p" "\<forall>i q. fp_slot fp' i = Some q \<longrightarrow> sec p \<le> sec q"
    using inv unfolding fp_inv_def by (auto simp: fp'_def)
  moreover have "\<exists>ret ptv. trace_get_first_packet now n fp' None = (ret, Some p, ptv) \<and> (fp_count fp' = n \<longrightarrow> ret = 1)"
  proof -
    have "fp_count fp' \<noteq> 0" by (simp add: fp'_def)
    moreover have "fst (fp_packets fp' ! fp_first fp') = Some p" using p(1) by (auto simp: fp_slot_def split: if_splits)
    ultimately show ?thesis by (auto simp: trace_get_first_packet_def Let_def split: prod.splits)
  qed
  moreover have "fp_slot fp' ?k = Some dup" "th_recorded_first (t\<lparr>th_recorded_first := True\<rparr>)" by (simp_all add: slot)
  ultimately show ?thesis using inv by blast
qed

definition data_packet :: "c_int \<Rightarrow> u64 \<Rightarrow> libtrace_packet" where
  "data_packet err order = trace_create_packet\<lparr>p_error := err, p_order := order\<rparr>"

definition order_thread :: "u64 list libtrace_thread" where
  "order_thread = \<lparr>th_accepted_packets = 0, th_filtered_packets = 0, th_recorded_first = False,
     th_tracetime_offset_usec = 0, th_user_data = [], th_format_data = None,
     th_rbuffer = \<lparr>rb_start = 0, rb_size = 8, rb_mode = 0, rb_elements = replicate 8 None, rb_end = 0\<rparr>, th_perpkt_num = 0\<rparr>"

text \<open>Callbacks that note the order of every packet and keep the second packet.\<close>

definition order_cbs :: "u64 list callback_set" where
  "order_cbs = trace_set_tick_count_cb
     (trace_set_packet_cb trace_create_callback_set
        (Some (\<lambda>u p. (p_order p # u, if p_order p = 2 then None else Some p))))
     (Some (\<lambda>u n. n # u))"

theorem dispatch_packets_correct_witness:
  "case dispatch_packets order_cbs (\<lambda>_ _ _. Inl AssertFail) order_thread
      (map Some [data_packet 1 1, data_packet 1 2, data_packet READ_TICK 2, data_packet 1 3] @ [None]) 4 0 0 False of
     Inr (ret, slots, emp, offset, t) \<Rightarrow> ret = 0 \<and> emp = 3 \<and> offset = 4 \<and> th_accepted_packets t = 3 \<and>
       th_user_data t = [3, 2, 2, 1]
   | Inl _ \<Rightarrow> False"
proof -
  let ?ps = "[data_packet 1 1, data_packet 1 2, data_packet READ_TICK 2, data_packet 1 3]"
  obtain qs u where q: "deliver_all order_cbs ?ps (th_user_data order_thread) = (qs, u)" by fastforce
  have "case deliver_all order_cbs ?ps (th_user_data order_thread) of (qs, u) \<Rightarrow> length qs = 3 \<and> u = [3, 2, 2, 1]"
    by code_simp
  then have v: "length qs = 3" "u = [3, 2, 2, 1]" using q by simp_all
  have "list_all (\<lambda>p. 0 < sint (p_error p) \<or> p_error p = READ_TICK) ?ps" by code_simp
  then have ok: "0 < sint (p_error p) \<or> p_error p = READ_TICK" if "p \<in> set ?ps" for p
    using that unfolding list_all_iff by blast
  have n: "length (filter (\<lambda>p. 0 < sint (p_error p)) ?ps) = 3" "4 = length ?ps" "th_accepted_packets order_thread = 0"
    by code_simp+
  have "dispatch_packets order_cbs (\<lambda>_ _ _. Inl AssertFail) order_thread (map Some ?ps @ [None]) 4 0 0 False =
      Inr (0, map Some qs @ replicate (4 - length qs) None @ [None], length qs, 4,
        order_thread\<lparr>th_accepted_packets := th_accepted_packets order_thread +
          of_nat (length (filter (\<lambda>p. 0 < sint (p_error p)) ?ps)), th_user_data := u\<rparr>)"
    by (rule dispatch_packets_correct [OF refl n(2) _ q]) (rule ok)
  then show ?thesis unfolding n(1,3) v by simp
qed

theorem filter_packets_correct_witness:
  "case filter_packets (\<lambda>p. if p_order p = 2 then 0 else 1) [data_packet 1 1, data_packet 1 2, data_packet 1 3] 3 of
     (k, packets') \<Rightarrow> k = 2 \<and> map p_order (take k packets') = [1, 3]"
proof -
  let ?ps = "[data_packet 1 1, data_packet 1 2, data_packet 1 3]" and ?f = "\<lambda>p. if p_order p = 2 then 0 else 1 :: c_int"
  obtain k packets' where f: "filter_packets ?f ?ps 3 = (k, packets')" by fastforce
  have v: "length (filter (\<lambda>p. ?f p \<noteq> 0) (take 3 ?ps)) = 2" "map p_order (filter (\<lambda>p. ?f p \<noteq> 0) (take 3 ?ps)) = [1, 3]"
    by code_simp+
  have "3 \<le> length ?ps" by simp
  from filter_packets_correct [OF this f] show ?thesis unfolding f prod.case using v by metis
qed

theorem first_packet_earliest_witness:
  "\<exists>fp' t'. store_first_packet id (fixed_format TRACE_TYPE_ETH 0 0 0\<lparr>f_get_seconds := Some (\<lambda>_. Inr 5)\<rparr>) (replicate 65536 0)
     \<lparr>tv_sec = 1, tv_usec = 0\<rparr> \<lparr>fp_count = 0, fp_first = 0, fp_packets = [(None, \<lparr>tv_sec = 0, tv_usec = 0\<rparr>)]\<rparr>
     (data_packet 1 1) order_thread = Inr (fp', (data_packet 1 1)\<lparr>p_capture_length := 0\<rparr>, t', True)"
proof -
  let ?fmt = "fixed_format TRACE_TYPE_ETH 0 0 0\<lparr>f_get_seconds := Some (\<lambda>_. Inr 5)\<rparr>"
  let ?fp = "\<lparr>fp_count = 0, fp_first = 0, fp_packets = [(None, \<lparr>tv_sec = 0, tv_usec = 0\<rparr>)]\<rparr>"
  have n: "fp_slot ?fp i = None" for i by (simp add: fp_slot_def)
  then have inv: "fp_inv (\<lambda>_. 5) ?fp" by (simp add: fp_inv_def)
  obtain dup where "trace_copy_packet ?fmt (replicate 65536 0) (data_packet 1 1) =
      Inr (dup, (data_packet 1 1)\<lparr>p_capture_length := 0\<rparr>)"
    by (simp add: trace_copy_packet_def trace_get_framing_length_def trace_get_capture_length_def fixed_format_def
        data_packet_def trace_create_packet_def trace_clear_cache_def rdn_ptr_def wrn_def Let_def LIBTRACE_PACKET_BUFSIZE_def)
  note copy = this
  have "th_perpkt_num order_thread < length (fp_packets ?fp)" "\<not> th_recorded_first order_thread"
    by (simp_all add: order_thread_def)
  moreover have "trace_get_seconds id ?fmt p = Inr 5" for p by (simp add: trace_get_seconds_def)
  ultimately obtain fp' and t' :: "u64 list libtrace_thread" where
    "store_first_packet id ?fmt (replicate 65536 0) \<lparr>tv_sec = 1, tv_usec = 0\<rparr> ?fp (data_packet 1 1) order_thread =
      Inr (fp', (data_packet 1 1)\<lparr>p_capture_length := 0\<rparr>, t', True)"
    using first_packet_earliest [OF inv n _ _ copy, of order_thread id] by blast
  then show ?thesis by blast
qed

end
