(* ===== verification/Proto_Meta.thy ===== *)
theory Proto_Meta
  imports Packet Byteswap
begin

text \<open>
  Meta-data headers in front of captured frames, \<open>lib/protocols_pktmeta.c\<close>: the Linux cooked
  header (SLL), pflog, Prism and Radiotap. Header sizes are those of the packed structures on
  Linux.
\<close>

section \<open>Decoders\<close>

text \<open>SLL: the ARPHRD type is at offset 2, the protocol at offset 14 of a header of 16 bytes.\<close>

definition trace_get_payload_from_linux_sll ::
  "pktmem \<Rightarrow> ptr \<Rightarrow> u16 outp \<times> u16 outp \<Rightarrow> u32 option \<Rightarrow> (u16 outp \<times> u16 outp) decoded" where
  "trace_get_payload_from_linux_sll m link out remaining =
     (case take_header 16 remaining of
        None \<Rightarrow> Inr (None, out, Some 0)
      | Some remaining \<Rightarrow>
          bindr (put_opt (snd out) (rd16 m (link + 14))) (\<lambda>next.
          bindr (put_opt (fst out) (rd16 m (link + 2))) (\<lambda>arphrd_type.
            Inr (Some (link + 16), (arphrd_type, next), remaining))))"

definition trace_get_payload_from_pflog ::
  "pktmem \<Rightarrow> ptr \<Rightarrow> libtrace_linktype outp \<Rightarrow> u32 option \<Rightarrow> libtrace_linktype outp decoded" where
  "trace_get_payload_from_pflog m link type remaining =
     (case take_header 49 remaining of
        None \<Rightarrow> Inr (None, type, Some 0)
      | Some remaining \<Rightarrow>
          bindr (put_opt type (Inr TRACE_TYPE_NONE)) (\<lambda>type. Inr (Some (link + 49), type, remaining)))"

definition trace_get_payload_from_prism ::
  "pktmem \<Rightarrow> ptr \<Rightarrow> libtrace_linktype outp \<Rightarrow> u32 option \<Rightarrow> libtrace_linktype outp decoded" where
  "trace_get_payload_from_prism m link type remaining =
     (case take_header 144 remaining of
        None \<Rightarrow> Inr (None, type, Some 0)
      | Some remaining \<Rightarrow>
          bindr (put_opt type (Inr TRACE_TYPE_80211)) (\<lambda>type. Inr (Some (link + 144), type, remaining)))"

text \<open>Radiotap: the length of the header is the little-endian number at offset 2.\<close>

definition trace_get_payload_from_radiotap ::
  "pktmem \<Rightarrow> ptr \<Rightarrow> libtrace_linktype outp \<Rightarrow> u32 option \<Rightarrow> libtrace_linktype outp decoded" where
  "trace_get_payload_from_radiotap m link type remaining =
     bindr (rd8 m (link + 2)) (\<lambda>lo. bindr (rd8 m (link + 3)) (\<lambda>hi.
     let rtaplen = be16 hi lo in
     (case take_header (ucast rtaplen) remaining of
        None \<Rightarrow> Inr (None, type, Some 0)
      | Some remaining \<Rightarrow>
          bindr (put_opt type (Inr TRACE_TYPE_80211)) (\<lambda>type.
            Inr (Some (link + unat rtaplen), type, remaining)))))"

definition trace_get_packet_meta ::
  "libtrace_format \<Rightarrow> libtrace_packet \<Rightarrow> (ptr option \<times> libtrace_linktype \<times> u32 \<times> libtrace_packet) res" where
  "trace_get_packet_meta fmt packet =
     bindr (trace_get_packet_buffer fmt packet) (\<lambda>(pktbuf, linktype, remaining, packet).
       Inr (if linktype \<in> {TRACE_TYPE_LINUX_SLL, TRACE_TYPE_80211_RADIO, TRACE_TYPE_80211_PRISM}
            then pktbuf else None, linktype, remaining, packet))"

definition trace_get_payload_from_meta ::
  "pktmem \<Rightarrow> ptr \<Rightarrow> libtrace_linktype \<Rightarrow> u32 option \<Rightarrow> libtrace_linktype decoded" where
  "trace_get_payload_from_meta m meta linktype remaining =
     assertr (remaining \<noteq> None)
       (case linktype of
          TRACE_TYPE_LINUX_SLL \<Rightarrow>
            bindr (trace_get_payload_from_linux_sll m meta (Val 0, Val 0) remaining)
              (\<lambda>(nexthdr, (arphrd, next), remaining).
              bindr (get arphrd) (\<lambda>arphrd. bindr (get next) (\<lambda>next.
              let type = arphrd_type_to_libtrace (ucast arphrd) in
              Inr (nexthdr, (if type = TRACE_TYPE_ETH \<and> next \<noteq> 0x0060 then TRACE_TYPE_NONE else type),
                   remaining))))
        | TRACE_TYPE_80211_RADIO \<Rightarrow>
            bindr (trace_get_payload_from_radiotap m meta (Val linktype) remaining)
              (\<lambda>(nexthdr, type, remaining). bindr (get type) (\<lambda>linktype. Inr (nexthdr, linktype, remaining)))
        | TRACE_TYPE_80211_PRISM \<Rightarrow>
            bindr (trace_get_payload_from_prism m meta (Val linktype) remaining)
              (\<lambda>(nexthdr, type, remaining). bindr (get type) (\<lambda>linktype. Inr (nexthdr, linktype, remaining)))
        | TRACE_TYPE_PFLOG \<Rightarrow>
            bindr (trace_get_payload_from_pflog m meta (Val linktype) remaining)
              (\<lambda>(nexthdr, type, remaining). bindr (get type) (\<lambda>linktype. Inr (nexthdr, linktype, remaining)))
        | _ \<Rightarrow> Inr (None, linktype, remaining))"

section \<open>The decoders keep their contracts\<close>

interpretation sll: fixed_header "\<lambda>m p. trace_get_payload_from_linux_sll m p out" 16 for out
  by unfold_locales
    (auto simp: trace_get_payload_from_linux_sll_def take_header_def word_less_nat_alt)

interpretation pflog: fixed_header "\<lambda>m p. trace_get_payload_from_pflog m p type" 49 for type
  by unfold_locales (auto simp: trace_get_payload_from_pflog_def take_header_def word_less_nat_alt)

interpretation prism: fixed_header "\<lambda>m p. trace_get_payload_from_prism m p type" 144 for type
  by unfold_locales (auto simp: trace_get_payload_from_prism_def take_header_def word_less_nat_alt)

interpretation radiotap: header_decoder "\<lambda>m p. trace_get_payload_from_radiotap m p type" 4 for type
proof
  fix p :: ptr and r :: u32 and m :: pktmem
  assume fits: "p + unat r + 4 \<le> length m"
  define len where "len = be16 (m ! (p + 3)) (m ! (p + 2))"
  show "decodes p r (trace_get_payload_from_radiotap m p type (Some r))"
    using fits unfolding trace_get_payload_from_radiotap_def
    by (auto simp: Let_def len_def [symmetric] take_header_def word_less_nat_alt unat_sub
        word_le_nat_alt)
qed

section \<open>Skipping all meta-data headers\<close>

text \<open>
  At most two meta-data headers follow each other: only an SLL header can announce another one,
  a Radiotap header, and that is followed by a frame.
\<close>

fun meta_rank :: "libtrace_linktype \<Rightarrow> nat" where
  "meta_rank TRACE_TYPE_LINUX_SLL = 2"
| "meta_rank TRACE_TYPE_80211_RADIO = 1"
| "meta_rank TRACE_TYPE_80211_PRISM = 1"
| "meta_rank TRACE_TYPE_PFLOG = 1"
| "meta_rank _ = 0"

lemma arphrd_rank [simp]: "meta_rank (arphrd_type_to_libtrace a) < 2"
  by (simp add: arphrd_type_to_libtrace_def)

lemma meta_rank_decreases:
  assumes "trace_get_payload_from_meta m meta lt rem = Inr (Some p, lt', rem')"
  shows "meta_rank lt' < meta_rank lt"
  using assms
  by (cases lt)
    (auto simp: trace_get_payload_from_meta_def trace_get_payload_from_linux_sll_def
      trace_get_payload_from_radiotap_def trace_get_payload_from_prism_def
      trace_get_payload_from_pflog_def Let_def bindr_eq_Inr
      split: option.splits if_splits)

text \<open>
  The loop of \<open>trace_get_payload_from_link\<close> and of \<open>trace_get_layer2\<close>: the address of the first
  header that is not followed by another, its type and the bytes left.
\<close>

function skip_meta :: "pktmem \<Rightarrow> ptr \<Rightarrow> libtrace_linktype \<Rightarrow> u32 option \<Rightarrow>
    (ptr \<times> libtrace_linktype \<times> u32 option) res" where
  "skip_meta m meta linktype remaining =
     bindr (trace_get_payload_from_meta m meta linktype remaining)
       (\<lambda>(nexthdr, linktype, remaining).
          case nexthdr of None \<Rightarrow> Inr (meta, linktype, remaining)
          | Some nexthdr \<Rightarrow> skip_meta m nexthdr linktype remaining)"
  by auto
termination
  by (relation "measure (\<lambda>(m, meta, linktype, remaining). meta_rank linktype)")
    (auto dest: meta_rank_decreases)

declare skip_meta.simps [simp del]

lemma sll_out:
  "trace_get_payload_from_linux_sll m p (Val a, Val b) rem = Inr (q, x, rem') \<Longrightarrow>
   \<exists>c d. x = (Val c, Val d)"
  by (auto simp: trace_get_payload_from_linux_sll_def put_opt_def split: option.splits)

lemma linktype_out:
  "trace_get_payload_from_radiotap m p (Val t) rem = Inr (q, x, rem') \<Longrightarrow> \<exists>t'. x = Val t'"
  "trace_get_payload_from_prism m p (Val t) rem = Inr (q, x, rem') \<Longrightarrow> \<exists>t'. x = Val t'"
  "trace_get_payload_from_pflog m p (Val t) rem = Inr (q, x, rem') \<Longrightarrow> \<exists>t'. x = Val t'"
  by (auto simp: trace_get_payload_from_radiotap_def trace_get_payload_from_prism_def
      trace_get_payload_from_pflog_def put_opt_def Let_def split: option.splits)

interpretation meta: header_decoder "\<lambda>m p. trace_get_payload_from_meta m p lt" 4 for lt
proof
  fix p :: ptr and r :: u32 and m :: pktmem
  assume fits: "p + unat r + 4 \<le> length m"
  then have fits0: "p + unat r + 0 \<le> length m" by simp
  show "decodes p r (trace_get_payload_from_meta m p lt (Some r))"
  proof (cases lt)
    case TRACE_TYPE_LINUX_SLL
    show ?thesis unfolding trace_get_payload_from_meta_def TRACE_TYPE_LINUX_SLL
      by (auto intro!: decodes_bind sll.decodes [OF fits0] dest!: sll_out simp: Let_def)
  next
    case TRACE_TYPE_80211_RADIO
    show ?thesis unfolding trace_get_payload_from_meta_def TRACE_TYPE_80211_RADIO
      by (auto intro!: decodes_bind radiotap.decodes [OF fits] dest!: linktype_out)
  next
    case TRACE_TYPE_80211_PRISM
    show ?thesis unfolding trace_get_payload_from_meta_def TRACE_TYPE_80211_PRISM
      by (auto intro!: decodes_bind prism.decodes [OF fits0] dest!: linktype_out)
  next
    case TRACE_TYPE_PFLOG
    show ?thesis unfolding trace_get_payload_from_meta_def TRACE_TYPE_PFLOG
      by (auto intro!: decodes_bind pflog.decodes [OF fits0] dest!: linktype_out)
  qed (simp_all add: trace_get_payload_from_meta_def)
qed

text \<open>A meta-data header that cannot be skipped ends in a type that has no layer 2 header.\<close>

definition is_frame :: "libtrace_linktype \<Rightarrow> bool" where
  "is_frame lt \<longleftrightarrow> meta_rank lt = 0 \<and> lt \<noteq> TRACE_TYPE_UNKNOWN"

lemma meta_null:
  assumes "trace_get_payload_from_meta m p lt rem = Inr (None, lt', rem')" "is_frame lt'"
  shows "lt' = lt \<and> rem' = rem"
  using assms
  by (cases lt)
    (auto simp: trace_get_payload_from_meta_def trace_get_payload_from_linux_sll_def
      trace_get_payload_from_radiotap_def trace_get_payload_from_prism_def is_frame_def
      trace_get_payload_from_pflog_def Let_def bindr_eq_Inr get_def arphrd_type_to_libtrace_def arphrd_defs
      split: option.splits if_splits)

lemma skip_meta_ok:
  assumes "p + unat r + 4 \<le> length m"
  shows "\<exists>p' lt' r'. skip_meta m p lt (Some r) = Inr (p', lt', Some r') \<and>
    p \<le> p' \<and> p' + unat r' \<le> p + unat r \<and> (is_frame lt' \<longrightarrow> p' + unat r' = p + unat r)"
  using assms
proof (induction "meta_rank lt" arbitrary: p lt r rule: less_induct)
  case less
  from meta.decodes [OF less.prems, of lt] show ?case
  proof (cases rule: decodesE)
    case (null lt' r')
    then have "skip_meta m p lt (Some r) = Inr (p, lt', Some r')"
      by (subst skip_meta.simps) simp
    with null meta_null [OF null(1)] show ?thesis by auto
  next
    case (next_header p' lt' r')
    then have "skip_meta m p lt (Some r) = skip_meta m p' lt' (Some r')"
      by (subst skip_meta.simps) simp
    moreover have "p' + unat r' + 4 \<le> length m" using next_header less.prems by simp
    note less.hyps [OF meta_rank_decreases [OF next_header(1)] this]
    ultimately show ?thesis using next_header by fastforce
  qed
qed

lemma skip_meta_rank0:
  assumes "meta_rank lt = 0"
  shows "skip_meta m b lt (Some r) = Inr (b, lt, Some r)"
proof -
  have "trace_get_payload_from_meta m b lt (Some r) = Inr (None, lt, Some r)"
    using assms by (cases lt) (simp_all add: trace_get_payload_from_meta_def)
  then show ?thesis by (subst skip_meta.simps) simp
qed

end
