(* ===== verification/Proto_L2.thy ===== *)
theory Proto_L2
  imports Proto_Meta
begin

text \<open>
  Layer 2 (and 2.5), \<open>lib/protocols_l2.c\<close>: Ethernet, 802.1q, MPLS, LLC/SNAP, 802.11, PPP,
  PPPoE, Cisco HDLC, PPP in HDLC-like framing and ATM, the dispatch on the link type, the cached
  access to the layer 2 header of a packet and the MAC addresses.
\<close>

section \<open>Ethertypes\<close>

abbreviation (input) TRACE_ETHERTYPE_LOOPBACK :: u16 where "TRACE_ETHERTYPE_LOOPBACK \<equiv> 0x0060"
abbreviation (input) TRACE_ETHERTYPE_IP :: u16 where "TRACE_ETHERTYPE_IP \<equiv> 0x0800"
abbreviation (input) TRACE_ETHERTYPE_8021Q :: u16 where "TRACE_ETHERTYPE_8021Q \<equiv> 0x8100"
abbreviation (input) TRACE_ETHERTYPE_IPV6 :: u16 where "TRACE_ETHERTYPE_IPV6 \<equiv> 0x86DD"
abbreviation (input) TRACE_ETHERTYPE_MPLS :: u16 where "TRACE_ETHERTYPE_MPLS \<equiv> 0x8847"
abbreviation (input) TRACE_ETHERTYPE_PPP_SES :: u16 where "TRACE_ETHERTYPE_PPP_SES \<equiv> 0x8864"

section \<open>Decoders\<close>

type_synonym l2_decoder = "pktmem \<Rightarrow> ptr \<Rightarrow> u16 outp \<Rightarrow> u32 option \<Rightarrow> u16 outp decoded"

definition trace_get_payload_from_ethernet :: l2_decoder where
  "trace_get_payload_from_ethernet m ethernet type remaining =
     (case take_header 14 remaining of
        None \<Rightarrow> Inr (None, type, Some 0)
      | Some remaining \<Rightarrow>
          bindr (put_opt type (rd16 m (ethernet + 12))) (\<lambda>type. Inr (Some (ethernet + 14), type, remaining)))"

definition trace_get_payload_from_vlan :: l2_decoder where
  "trace_get_payload_from_vlan m ethernet type remaining =
     (case take_header 4 remaining of
        None \<Rightarrow> Inr (None, type, Some 0)
      | Some remaining \<Rightarrow>
          bindr (put_opt type (rd16 m (ethernet + 2))) (\<lambda>type. Inr (Some (ethernet + 4), type, remaining)))"

text \<open>
  MPLS: the bottom-of-stack bit is the lowest bit of byte 2, the payload is guessed from byte 4.
  A count below 4 is left as it is when \<open>NULL\<close> is returned.
\<close>

definition trace_get_payload_from_mpls :: l2_decoder where
  "trace_get_payload_from_mpls m ethernet type remaining =
     assertr (type \<noteq> NoPtr)
       (bindr (rd8 m (ethernet + 2)) (\<lambda>b2.
        bindr (if b2 AND 1 = 0 then put type TRACE_ETHERTYPE_MPLS
               else if (case remaining of None \<Rightarrow> True | Some r \<Rightarrow> 5 \<le> r) then
                 bindr (rd8 m (ethernet + 4)) (\<lambda>b4.
                   put type (if b4 AND 0xF0 = 0x40 then TRACE_ETHERTYPE_IP
                             else if b4 AND 0xF0 = 0x60 then TRACE_ETHERTYPE_IPV6
                             else 0))
               else Inr type) (\<lambda>type.
          (case remaining of
             None \<Rightarrow> Inr (Some (ethernet + 4), type, None)
           | Some r \<Rightarrow> if r < 4 then Inr (None, type, Some r)
                       else Inr (Some (ethernet + 4), type, Some (r - 4))))))"

definition trace_get_payload_from_llcsnap :: l2_decoder where
  "trace_get_payload_from_llcsnap m link type remaining =
     (case take_header 8 remaining of
        None \<Rightarrow> Inr (None, type, Some 0)
      | Some remaining \<Rightarrow>
          bindr (put_opt type (rd16 m (link + 6))) (\<lambda>type. Inr (Some (link + 8), type, remaining)))"

text \<open>
  802.11: the frame type and subtype are bits 2 to 3 and 4 to 7 of byte 0, ToDS and FromDS bits 0
  and 1 of byte 1. Six bytes are missing from the structure of 30 bytes in a three-address
  frame, two more are present in a QoS frame. The count is 32 bits wide.
\<close>

definition wifi_type :: "u8 \<Rightarrow> u8" where
  "wifi_type b0 = drop_bit 2 b0 AND 3"

definition wifi_subtype :: "u8 \<Rightarrow> u8" where
  "wifi_subtype b0 = drop_bit 4 b0"

definition wifi_extra :: "u8 \<Rightarrow> u8 \<Rightarrow> int" where
  "wifi_extra b0 b1 = (if b1 AND 1 \<noteq> 0 \<and> b1 AND 2 \<noteq> 0 then 0 else - 6) +
     (if wifi_subtype b0 AND 8 \<noteq> 0 then 2 else 0)"

definition trace_get_payload_from_80211 :: l2_decoder where
  "trace_get_payload_from_80211 m link type remaining =
     (if (case remaining of None \<Rightarrow> False | Some r \<Rightarrow> r < 30) then Inr (None, type, Some 0)
      else bindr (rd8 m link) (\<lambda>b0.
        if wifi_type b0 \<noteq> 2 then Inr (None, type, remaining)
        else bindr (rd8 m (link + 1)) (\<lambda>b1.
          let extra = wifi_extra b0 b1 in
          if (case remaining of None \<Rightarrow> False | Some r \<Rightarrow> r < 2) then Inr (None, type, Some 0)
          else let eth = nat (int link + 30 + extra) in
            bindr (rd16 m eth) (\<lambda>w.
              if w = 0xAAAA then trace_get_payload_from_llcsnap m eth type remaining
              else Inr (Some (eth + 2), (if type = NoPtr then NoPtr else Val w),
                        map_option (\<lambda>r. r - 30 - of_int extra - 2) remaining)))))"

definition trace_get_payload_from_ppp :: l2_decoder where
  "trace_get_payload_from_ppp m link type remaining =
     (case take_header 2 remaining of
        None \<Rightarrow> Inr (None, type, Some 0)
      | Some remaining \<Rightarrow>
          bindr (put_opt type (bindr (rd16 m link) (\<lambda>protocol.
            Inr (if protocol = 0x0021 then TRACE_ETHERTYPE_IP else 0))))
          (\<lambda>type. Inr (Some (link + 2), type, remaining)))"

definition trace_get_payload_from_pppoe :: l2_decoder where
  "trace_get_payload_from_pppoe m link type remaining =
     assertr (type \<noteq> NoPtr)
       (case take_header 6 remaining of
          None \<Rightarrow> Inr (None, type, Some 0)
        | Some remaining \<Rightarrow> trace_get_payload_from_ppp m (link + 6) type remaining)"

definition trace_get_payload_from_chdlc :: l2_decoder where
  "trace_get_payload_from_chdlc m link type remaining =
     (case take_header 4 remaining of
        None \<Rightarrow> Inr (None, type, Some 0)
      | Some remaining \<Rightarrow>
          bindr (put_opt type (rd16 m (link + 2))) (\<lambda>type. Inr (Some (link + 4), type, remaining)))"

definition trace_get_payload_from_ppp_hdlc :: l2_decoder where
  "trace_get_payload_from_ppp_hdlc m link type remaining =
     (case take_header 4 remaining of
        None \<Rightarrow> Inr (None, type, Some 0)
      | Some remaining \<Rightarrow>
          bindr (put_opt type (bindr (rd16 m (link + 2)) (\<lambda>protocol.
            Inr (if protocol = 0x0021 then TRACE_ETHERTYPE_IP else 0))))
          (\<lambda>type. Inr (Some (link + 4), type, remaining)))"

text \<open>ATM: on a little-endian host the payload type is bits 4 to 6 of byte 3.\<close>

definition trace_get_payload_from_atm ::
  "pktmem \<Rightarrow> ptr \<Rightarrow> u8 outp \<Rightarrow> u32 option \<Rightarrow> u8 outp decoded" where
  "trace_get_payload_from_atm m link type remaining =
     (case take_header 4 remaining of
        None \<Rightarrow> Inr (None, type, Some 0)
      | Some remaining \<Rightarrow>
          bindr (put_opt type (bindr (rd8 m (link + 3)) (\<lambda>b. Inr (drop_bit 4 b AND 7))))
            (\<lambda>type. Inr (Some (link + 4), type, remaining)))"

text \<open>The first byte of an IP packet tells its version; any other leaves the type alone.\<close>

definition ip_ethertype :: "pktmem \<Rightarrow> ptr \<Rightarrow> u16 outp \<Rightarrow> u16 outp res" where
  "ip_ethertype m link ethertype =
     bindr (rd8 m link) (\<lambda>b.
       if b AND 0xF0 = 0x40 then put ethertype TRACE_ETHERTYPE_IP
       else if b AND 0xF0 = 0x60 then put ethertype TRACE_ETHERTYPE_IPV6
       else Inr ethertype)"

definition trace_get_payload_from_layer2 ::
  "pktmem \<Rightarrow> ptr \<Rightarrow> libtrace_linktype \<Rightarrow> u16 outp \<Rightarrow> u32 option \<Rightarrow> u16 outp decoded" where
  "trace_get_payload_from_layer2 m link linktype ethertype remaining =
     (case linktype of
        TRACE_TYPE_80211 \<Rightarrow> trace_get_payload_from_80211 m link ethertype remaining
      | TRACE_TYPE_ETH \<Rightarrow> trace_get_payload_from_ethernet m link ethertype remaining
      | TRACE_TYPE_NONE \<Rightarrow>
          bindr (ip_ethertype m link ethertype) (\<lambda>ethertype. Inr (Some link, ethertype, remaining))
      | TRACE_TYPE_PPP \<Rightarrow> trace_get_payload_from_ppp m link ethertype remaining
      | TRACE_TYPE_ATM \<Rightarrow>
          bindr (trace_get_payload_from_atm m link NoPtr remaining) (\<lambda>(l, _, remaining).
            case l of None \<Rightarrow> Inr (None, ethertype, remaining)
            | Some l \<Rightarrow> trace_get_payload_from_llcsnap m l ethertype remaining)
      | TRACE_TYPE_LLCSNAP \<Rightarrow> trace_get_payload_from_llcsnap m link ethertype remaining
      | TRACE_TYPE_HDLC_POS \<Rightarrow> trace_get_payload_from_chdlc m link ethertype remaining
      | TRACE_TYPE_POS \<Rightarrow> trace_get_payload_from_ppp_hdlc m link ethertype remaining
      | TRACE_TYPE_OPENBSD_LOOP \<Rightarrow>
          bindr (ip_ethertype m (link + 4) ethertype) (\<lambda>ethertype. Inr (Some (link + 4), ethertype, remaining))
      | _ \<Rightarrow> Inr (None, ethertype, remaining))"

definition trace_get_payload_from_link ::
  "pktmem \<Rightarrow> ptr \<Rightarrow> libtrace_linktype \<Rightarrow> u16 outp \<Rightarrow> u32 option \<Rightarrow> u16 outp decoded" where
  "trace_get_payload_from_link m link linktype ethertype remaining =
     bindr (skip_meta m link linktype remaining) (\<lambda>(link, linktype, remaining).
       trace_get_payload_from_layer2 m link linktype ethertype remaining)"

section \<open>The decoders keep their contracts\<close>

lemmas l2_fixed = take_header_def word_less_nat_alt word_le_nat_alt unat_sub

interpretation ethernet: fixed_header "\<lambda>m p. trace_get_payload_from_ethernet m p type" 14 for type
  by unfold_locales (auto simp: trace_get_payload_from_ethernet_def l2_fixed)

interpretation vlan: fixed_header "\<lambda>m p. trace_get_payload_from_vlan m p type" 4 for type
  by unfold_locales (auto simp: trace_get_payload_from_vlan_def l2_fixed)

interpretation llcsnap: fixed_header "\<lambda>m p. trace_get_payload_from_llcsnap m p type" 8 for type
  by unfold_locales (auto simp: trace_get_payload_from_llcsnap_def l2_fixed)

interpretation ppp: fixed_header "\<lambda>m p. trace_get_payload_from_ppp m p type" 2 for type
  by unfold_locales (auto simp: trace_get_payload_from_ppp_def l2_fixed)

interpretation chdlc: fixed_header "\<lambda>m p. trace_get_payload_from_chdlc m p type" 4 for type
  by unfold_locales (auto simp: trace_get_payload_from_chdlc_def l2_fixed)

interpretation ppp_hdlc: fixed_header "\<lambda>m p. trace_get_payload_from_ppp_hdlc m p type" 4 for type
  by unfold_locales (auto simp: trace_get_payload_from_ppp_hdlc_def l2_fixed)

interpretation atm: fixed_header "\<lambda>m p. trace_get_payload_from_atm m p type" 4 for type
  by unfold_locales (auto simp: trace_get_payload_from_atm_def l2_fixed)

interpretation pppoe: fixed_header "\<lambda>m p. trace_get_payload_from_pppoe m p (Val type)" 8 for type
  by unfold_locales
    (auto simp: trace_get_payload_from_pppoe_def trace_get_payload_from_ppp_def l2_fixed)

interpretation mpls: header_decoder "\<lambda>m p. trace_get_payload_from_mpls m p (Val type)" 3 for type
  by unfold_locales
    (auto simp: trace_get_payload_from_mpls_def l2_fixed Let_def)

text \<open>
  All link types but 802.11 and the OpenBSD loopback account correctly for the bytes they skip.
\<close>

definition accounts :: "libtrace_linktype \<Rightarrow> bool" where
  "accounts lt \<longleftrightarrow> lt \<noteq> TRACE_TYPE_80211 \<and> lt \<noteq> TRACE_TYPE_OPENBSD_LOOP"

lemma decodes_then:
  assumes "decodes p r res"
    "\<And>x r'. res = Inr (None, x, Some r') \<Longrightarrow> \<exists>y. f (None, x, Some r') = Inr (None, y, Some r')"
    "\<And>p' x r'. res = Inr (Some p', x, Some r') \<Longrightarrow> p \<le> p' \<Longrightarrow> p' + unat r' = p + unat r \<Longrightarrow>
       decodes p' r' (f (Some p', x, Some r'))"
  shows "decodes p r (bindr res f)"
  using assms(1)
proof (cases rule: decodesE)
  case (null x r')
  then show ?thesis using assms(2) [OF null(1)] by auto
next
  case (next_header p' x r')
  from assms(3) [OF next_header(1-3)] show ?thesis
    using next_header(1-3) by (auto intro: decodes_trans)
qed

lemma ip_ethertype_ok:
  "p < length m \<Longrightarrow> type \<noteq> NoPtr \<Longrightarrow> \<exists>type'. ip_ethertype m p type = Inr type'"
  by (simp add: ip_ethertype_def)

lemma layer2_decodes:
  assumes fits: "p + unat r + 1 \<le> length m" and "accounts lt" "type \<noteq> NoPtr"
  shows "decodes p r (trace_get_payload_from_layer2 m p lt type (Some r))"
proof -
  have fits0: "p + unat r + 0 \<le> length m" using fits by simp
  show ?thesis
  proof (cases lt)
    case TRACE_TYPE_NONE
    then show ?thesis using fits assms(3) ip_ethertype_ok [of p m type]
      by (auto simp: trace_get_payload_from_layer2_def)
  next
    case TRACE_TYPE_ATM
    show ?thesis unfolding trace_get_payload_from_layer2_def TRACE_TYPE_ATM
      by (auto intro!: decodes_then [OF atm.decodes [OF fits0]] llcsnap.decodes simp: fits0 [simplified])
  qed (use assms(2) in \<open>simp_all add: accounts_def trace_get_payload_from_layer2_def ethernet.decodes [OF fits0]
      ppp.decodes [OF fits0] llcsnap.decodes [OF fits0] chdlc.decodes [OF fits0] ppp_hdlc.decodes [OF fits0]\<close>)
qed

section \<open>Layer 2 of a packet\<close>

text \<open>
  A decoder at a null pointer: address 0 of a memory without bytes, where every access is one
  through the null pointer.
\<close>

definition at_ptr :: "(pktmem \<Rightarrow> ptr \<Rightarrow> 'a res) \<Rightarrow> pktmem \<Rightarrow> ptr option \<Rightarrow> 'a res" where
  "at_ptr f m link =
     (case link of
        Some p \<Rightarrow> f m p
      | None \<Rightarrow> (case f [] 0 of Inl (OutOfBounds _) \<Rightarrow> Inl NullDeref | res \<Rightarrow> res))"

lemma at_ptr_Some [simp]: "at_ptr f m (Some p) = f m p"
  by (simp add: at_ptr_def)

definition is_l2_type :: "libtrace_linktype \<Rightarrow> bool" where
  "is_l2_type lt \<longleftrightarrow>
     (case lt of
        TRACE_TYPE_HDLC_POS \<Rightarrow> True | TRACE_TYPE_ETH \<Rightarrow> True | TRACE_TYPE_ATM \<Rightarrow> True
      | TRACE_TYPE_80211 \<Rightarrow> True | TRACE_TYPE_NONE \<Rightarrow> True | TRACE_TYPE_POS \<Rightarrow> True
      | TRACE_TYPE_AAL5 \<Rightarrow> True | TRACE_TYPE_DUCK \<Rightarrow> True | TRACE_TYPE_LLCSNAP \<Rightarrow> True
      | TRACE_TYPE_PPP \<Rightarrow> True | TRACE_TYPE_METADATA \<Rightarrow> True | TRACE_TYPE_NONDATA \<Rightarrow> True
      | TRACE_TYPE_OPENBSD_LOOP \<Rightarrow> True
      | TRACE_TYPE_LINUX_SLL \<Rightarrow> False | TRACE_TYPE_80211_RADIO \<Rightarrow> False
      | TRACE_TYPE_80211_PRISM \<Rightarrow> False | TRACE_TYPE_PFLOG \<Rightarrow> False
      | TRACE_TYPE_UNKNOWN \<Rightarrow> False)"

text \<open>
  The cached link type is that of the packet buffer. A cached header without a cached link type
  cannot arise: it would be the use of a link type that was never set. The loop asserts that the
  header it starts from is not null.
\<close>

definition trace_get_layer2 ::
  "libtrace_format \<Rightarrow> libtrace_packet \<Rightarrow> (ptr option \<times> libtrace_linktype \<times> u32 \<times> libtrace_packet) res" where
  "trace_get_layer2 fmt packet =
     (case p_l2_header packet of
        Some h \<Rightarrow>
          (case p_link_type packet of
             None \<Rightarrow> Inl Uninitialised
           | Some t \<Rightarrow> Inr (Some h, t, p_l2_remaining packet, packet))
      | None \<Rightarrow>
          bindr (trace_get_packet_buffer fmt packet) (\<lambda>(meta, linktype, remaining, packet).
          if is_l2_type linktype then
            Inr (meta, linktype, remaining, packet\<lparr>p_l2_header := meta, p_l2_remaining := remaining\<rparr>)
          else if linktype = TRACE_TYPE_UNKNOWN then Inr (None, linktype, remaining, packet)
          else (case meta of
            None \<Rightarrow> Inl AssertFail
          | Some meta \<Rightarrow>
              bindr (skip_meta (p_mem packet) meta linktype (Some remaining)) (\<lambda>(meta, linktype, rem).
                (case rem of None \<Rightarrow> Inl NullDeref
                 | Some remaining \<Rightarrow>
                     if is_l2_type linktype then
                       Inr (Some meta, linktype, remaining,
                            packet\<lparr>p_l2_header := Some meta, p_l2_remaining := remaining\<rparr>)
                     else Inr (None, linktype, remaining, packet))))))"

definition get_source_mac_from_wifi :: "pktmem \<Rightarrow> ptr \<Rightarrow> ptr option res" where
  "get_source_mac_from_wifi m wifi =
     bindr (rd8 m wifi) (\<lambda>b0.
       Inr (if wifi_type b0 = 1 \<and> wifi_subtype b0 AND 2 = 0 then None else Some (wifi + 10)))"

definition trace_get_source_mac ::
  "libtrace_format \<Rightarrow> libtrace_packet \<Rightarrow> (ptr option \<times> libtrace_packet) res" where
  "trace_get_source_mac fmt packet =
     bindr (trace_get_layer2 fmt packet) (\<lambda>(link, linktype, _, packet).
       case link of None \<Rightarrow> Inr (None, packet)
       | Some link \<Rightarrow>
           (case linktype of
              TRACE_TYPE_ETH \<Rightarrow> Inr (Some (link + 6), packet)
            | TRACE_TYPE_80211 \<Rightarrow>
                bindr (get_source_mac_from_wifi (p_mem packet) link) (\<lambda>mac. Inr (mac, packet))
            | TRACE_TYPE_LINUX_SLL \<Rightarrow> Inl AssertFail
            | TRACE_TYPE_80211_PRISM \<Rightarrow> Inl AssertFail
            | TRACE_TYPE_80211_RADIO \<Rightarrow> Inl AssertFail
            | _ \<Rightarrow> Inr (None, packet)))"

definition trace_get_destination_mac ::
  "libtrace_format \<Rightarrow> libtrace_packet \<Rightarrow> (ptr option \<times> libtrace_packet) res" where
  "trace_get_destination_mac fmt packet =
     bindr (trace_get_layer2 fmt packet) (\<lambda>(link, linktype, _, packet).
       case link of None \<Rightarrow> Inr (None, packet)
       | Some link \<Rightarrow>
           (case linktype of
              TRACE_TYPE_80211 \<Rightarrow> Inr (Some (link + 4), packet)
            | TRACE_TYPE_ETH \<Rightarrow> Inr (Some link, packet)
            | TRACE_TYPE_LINUX_SLL \<Rightarrow> Inl AssertFail
            | TRACE_TYPE_80211_PRISM \<Rightarrow> Inl AssertFail
            | TRACE_TYPE_80211_RADIO \<Rightarrow> Inl AssertFail
            | _ \<Rightarrow> Inr (None, packet)))"

lemma is_l2_type_frame: "is_l2_type lt \<longleftrightarrow> is_frame lt"
  by (cases lt) (simp_all add: is_l2_type_def is_frame_def)

lemma lengths_cached_simps [simp]:
  "trace_clear_cache (lengths_cached lt cap wire packet) = trace_clear_cache packet"
  "p_mem (lengths_cached lt cap wire packet) = p_mem packet"
  "p_payload (lengths_cached lt cap wire packet) = p_payload packet"
  "p_link_type (lengths_cached lt cap wire packet) = Some lt"
  "p_l2_header (lengths_cached lt cap wire packet) = p_l2_header packet"
  "p_l3_header (lengths_cached lt cap wire packet) = p_l3_header packet"
  "p_l4_header (lengths_cached lt cap wire packet) = p_l4_header packet"
  "p_l2_remaining (lengths_cached lt cap wire packet) = p_l2_remaining packet"
  "p_l3_remaining (lengths_cached lt cap wire packet) = p_l3_remaining packet"
  "p_l4_remaining (lengths_cached lt cap wire packet) = p_l4_remaining packet"
  "p_transport_proto (lengths_cached lt cap wire packet) = p_transport_proto packet"
  "p_payload_length (lengths_cached lt cap wire packet) = p_payload_length packet"
  "cached_ok lt cap wire (lengths_cached lt cap wire packet)"
  by (simp_all add: lengths_cached_def cached_ok_def)

lemma unat_packet_bytes:
  "cap < 65536 \<Longrightarrow> unat (of_nat (packet_bytes cap wire) :: u32) = packet_bytes cap wire"
  by (simp add: packet_bytes_def unsigned_of_nat take_bit_nat_eq_self)

text \<open>
  A packet whose layer 2 header is not cached: the call succeeds, and a header that it returns is
  in the captured bytes, with the count of what follows.
\<close>

definition with_layer2 :: "ptr option \<Rightarrow> u32 \<Rightarrow> libtrace_packet \<Rightarrow> libtrace_packet" where
  "with_layer2 h r packet =
     (if h = None then packet else packet\<lparr>p_l2_header := h, p_l2_remaining := r\<rparr>)"

lemma with_layer2_simps [simp]:
  "trace_clear_cache (with_layer2 h r packet) = trace_clear_cache packet"
  "p_mem (with_layer2 h r packet) = p_mem packet"
  "p_payload (with_layer2 h r packet) = p_payload packet"
  "p_link_type (with_layer2 h r packet) = p_link_type packet"
  "p_l2_header (with_layer2 h r packet) = (if h = None then p_l2_header packet else h)"
  "p_l2_remaining (with_layer2 (Some p) r packet) = r"
  "p_l3_header (with_layer2 h r packet) = p_l3_header packet"
  "p_l3_remaining (with_layer2 h r packet) = p_l3_remaining packet"
  "p_l4_header (with_layer2 h r packet) = p_l4_header packet"
  "p_l4_remaining (with_layer2 h r packet) = p_l4_remaining packet"
  "p_transport_proto (with_layer2 h r packet) = p_transport_proto packet"
  "p_payload_length (with_layer2 h r packet) = p_payload_length packet"
  "cached_ok lt cap wire (with_layer2 h r packet) = cached_ok lt cap wire packet"
  by (simp_all add: with_layer2_def cached_ok_def)

lemma layer2_fresh:
  assumes d: "described fmt packet lt cap wire" and b: "p_payload packet = Some b"
    and c: "p_l2_header packet = None" and fits: "b + packet_bytes cap wire + 4 \<le> length (p_mem packet)"
  obtains p lt' r where
    "skip_meta (p_mem packet) b lt (Some (of_nat (packet_bytes cap wire))) = Inr (p, lt', Some r)"
    "trace_get_layer2 fmt packet = Inr (if is_frame lt' then Some p else None, lt', r,
       with_layer2 (if is_frame lt' then Some p else None) r (lengths_cached lt cap wire packet))"
    "b \<le> p" "is_frame lt' \<Longrightarrow> p + unat r = b + packet_bytes cap wire" "is_frame lt \<Longrightarrow> lt' = lt \<and> p = b"
proof -
  let ?n = "packet_bytes cap wire"
  have cap: "cap < 65536" using d by (simp add: described_def)
  have "b + unat (of_nat ?n :: u32) + 4 \<le> length (p_mem packet)"
    using fits by (simp add: unat_packet_bytes [OF cap])
  from skip_meta_ok [OF this, of lt] obtain p lt' r where
    sk: "skip_meta (p_mem packet) b lt (Some (of_nat ?n)) = Inr (p, lt', Some r)"
    "b \<le> p" "is_frame lt' \<longrightarrow> p + unat r = b + ?n" by (auto simp: unat_packet_bytes [OF cap])
  have r0: "p = b \<and> lt' = lt \<and> r = of_nat ?n" if "meta_rank lt = 0"
    using sk(1) skip_meta_rank0 [OF that] by simp
  have buf: "trace_get_packet_buffer fmt packet = Inr (Some b, lt, of_nat ?n, lengths_cached lt cap wire packet)"
    using get_packet_buffer_described [OF d] b by simp
  have "trace_get_layer2 fmt packet = Inr (if is_frame lt' then Some p else None, lt', r,
       with_layer2 (if is_frame lt' then Some p else None) r (lengths_cached lt cap wire packet))"
    using buf c sk(1) r0
    by (auto simp: trace_get_layer2_def is_l2_type_frame with_layer2_def is_frame_def)
  with sk r0 show thesis by (intro that [of p lt' r]) (auto simp: is_frame_def)
qed

section \<open>Properties\<close>

text \<open>
  (C18) Each of these headers has a fixed size. Whatever the bytes are, the decoder returns
  \<open>NULL\<close> and no remaining bytes exactly when the header is not completely captured, and otherwise
  the address behind the header and the count less its size; it never reads outside the header,
  with or without a count.
\<close>

theorem l2_fixed_headers:
  "fixed_header (\<lambda>m p. trace_get_payload_from_ethernet m p type) 14 \<and>
   fixed_header (\<lambda>m p. trace_get_payload_from_vlan m p type) 4 \<and>
   fixed_header (\<lambda>m p. trace_get_payload_from_llcsnap m p type) 8 \<and>
   fixed_header (\<lambda>m p. trace_get_payload_from_ppp m p type) 2 \<and>
   fixed_header (\<lambda>m p. trace_get_payload_from_pppoe m p (Val t)) 8 \<and>
   fixed_header (\<lambda>m p. trace_get_payload_from_chdlc m p type) 4 \<and>
   fixed_header (\<lambda>m p. trace_get_payload_from_ppp_hdlc m p type) 4 \<and>
   fixed_header (\<lambda>m p. trace_get_payload_from_atm m p type8) 4 \<and>
   fixed_header (\<lambda>m p. trace_get_payload_from_linux_sll m p out) 16 \<and>
   fixed_header (\<lambda>m p. trace_get_payload_from_prism m p lt) 144 \<and>
   fixed_header (\<lambda>m p. trace_get_payload_from_pflog m p lt) 49"
  by (intro conjI ethernet.fixed_header_axioms vlan.fixed_header_axioms llcsnap.fixed_header_axioms
      ppp.fixed_header_axioms pppoe.fixed_header_axioms chdlc.fixed_header_axioms
      ppp_hdlc.fixed_header_axioms atm.fixed_header_axioms sll.fixed_header_axioms
      prism.fixed_header_axioms pflog.fixed_header_axioms)

text \<open>
  (C19) The layer 2 header of a packet is found behind any sequence of meta-data headers,
  without a fault, as long as the buffer goes on for 4 bytes behind the captured ones (a
  Radiotap header is looked at before the count is tested). A header that is returned lies in
  the captured bytes and the count is exactly the number of captured bytes from it on; nothing
  of the packet changes but its caches. A frame without meta-data is itself the result.
\<close>

theorem layer2_in_capture:
  assumes "described fmt packet lt cap wire" "p_payload packet = Some b" "p_l2_header packet = None"
    "b + packet_bytes cap wire + 4 \<le> length (p_mem packet)"
  shows "\<exists>h lt' r packet'. trace_get_layer2 fmt packet = Inr (h, lt', r, packet') \<and>
    trace_clear_cache packet' = trace_clear_cache packet \<and>
    (is_l2_type lt \<longrightarrow> lt' = lt \<and> h = Some b) \<and> (h \<noteq> None \<longleftrightarrow> is_l2_type lt') \<and>
    (\<forall>p. h = Some p \<longrightarrow> b \<le> p \<and> p + unat r = b + packet_bytes cap wire)"
proof -
  from layer2_fresh [OF assms] show ?thesis
    by cases (auto simp: is_l2_type_frame)
qed

text \<open>An SLL header (ARPHRD Ethernet, protocol IP) and the first bytes of an IP packet.\<close>

definition sll_packet :: libtrace_packet where
  "sll_packet = trace_create_packet\<lparr>p_payload := Some 0,
     p_mem := [0, 0, 0, 1, 0, 6, 1, 2, 3, 4, 5, 6, 0, 0, 8, 0, 0x45, 0, 0, 20, 0, 0, 0, 0, 64, 6, 0, 0,
               10, 0, 0, 1, 10, 0, 0, 2, 0, 0, 0, 0, 0, 0, 0, 0]\<rparr>"

theorem layer2_in_capture_witness:
  "\<exists>h lt' r packet'. trace_get_layer2 (fixed_format TRACE_TYPE_LINUX_SLL 36 36 0) sll_packet =
     Inr (h, lt', r, packet') \<and> (h \<noteq> None \<longleftrightarrow> is_l2_type lt')"
proof -
  have "described (fixed_format TRACE_TYPE_LINUX_SLL 36 36 0) sll_packet TRACE_TYPE_LINUX_SLL 36 36"
    by (rule described_fixed) (simp_all add: sll_packet_def trace_create_packet_def trace_clear_cache_def)
  from layer2_in_capture [OF this, of 0] show ?thesis
    by (auto simp: sll_packet_def trace_create_packet_def trace_clear_cache_def packet_bytes_def)
qed

definition wifi_header_size :: "u8 \<Rightarrow> u8 \<Rightarrow> nat" where
  "wifi_header_size b0 b1 =
     24 + (if b1 AND 1 \<noteq> 0 \<and> b1 AND 2 \<noteq> 0 then 6 else 0) + (if wifi_subtype b0 AND 8 \<noteq> 0 then 2 else 0)"

text \<open>
  What the 802.11 decoder returns for a data frame with a header of \<open>hdr\<close> bytes. An
  Ethernet II payload is found behind the header and its type, but a four-address QoS frame (or
  any other) of which fewer than \<open>hdr + 2\<close> bytes are captured wraps the 32-bit count around
  instead of failing; an LLC/SNAP payload is found, but the count is not reduced by the 802.11
  header in front of it, so it claims \<open>hdr\<close> bytes too many.
\<close>

theorem wifi_remaining:
  assumes "wifi_type (m ! p) = 2" "30 \<le> unat r" "hdr = wifi_header_size (m ! p) (m ! (p + 1))"
    "p + hdr + 8 \<le> length m" "w = be16 (m ! (p + hdr)) (m ! (p + hdr + 1))"
  shows "trace_get_payload_from_80211 m p (Val t) (Some r) =
    (if w = 0xAAAA
     then Inr (Some (p + hdr + 8), Val (be16 (m ! (p + hdr + 6)) (m ! (p + hdr + 7))), Some (r - 8))
     else Inr (Some (p + hdr + 2), Val w, Some (r - of_nat (hdr + 2))))"
proof -
  have extra: "wifi_extra (m ! p) (m ! (p + 1)) = int hdr - 30"
    unfolding assms(3) wifi_header_size_def wifi_extra_def by simp
  have hdr: "24 \<le> hdr" unfolding assms(3) wifi_header_size_def by simp
  have "\<not> r < 30" "\<not> r < 2" "\<not> r < 8" using assms(2) by (simp_all add: word_less_nat_alt)
  then show ?thesis
    using assms(1,4) hdr extra
    by (simp add: trace_get_payload_from_80211_def Let_def nat_int_add assms(5)
        trace_get_payload_from_llcsnap_def take_header_def ac_simps)
qed

theorem wifi_remaining_witness:
  "trace_get_payload_from_80211 (0x88 # 3 # replicate 40 0) 0 (Val 0) (Some 30) =
     Inr (Some 34, Val 0, Some 0xFFFFFFFC)"
proof -
  let ?m = "0x88 # 3 # replicate 40 0 :: u8 list"
  have "wifi_type (?m ! 0) = 2" "30 \<le> unat (30 :: u32)" "32 = wifi_header_size (?m ! 0) (?m ! (0 + 1))"
    "0 + 32 + 8 \<le> length ?m" "0 = be16 (?m ! (0 + 32)) (?m ! (0 + 32 + 1))" by code_simp+
  then have "trace_get_payload_from_80211 ?m 0 (Val 0) (Some 30) =
      (if (0 :: u16) = 0xAAAA
       then Inr (Some (0 + 32 + 8), Val (be16 (?m ! (0 + 32 + 6)) (?m ! (0 + 32 + 7))), Some (30 - 8))
       else Inr (Some (0 + 32 + 2), Val 0, Some (30 - of_nat (32 + 2))))"
    by (rule wifi_remaining)
  also have "\<dots> = Inr (Some 34, Val 0, Some 0xFFFFFFFC)" by code_simp
  finally show ?thesis .
qed

end
