(* ===== verification/Proto_L3.thy ===== *)
theory Proto_L3
  imports Proto_L2 Checksum
begin

text \<open>
  Layer 3, \<open>lib/protocols_l3.c\<close>: the payload of IPv4 and IPv6 headers, the cached access to the
  layer 3 header of a packet behind VLAN, MPLS and PPPoE headers, fragments, options and the
  header checksum. Fields are at their offsets in the packed structures; on a little-endian host
  the version of an IP header is the high, the header length the low half of byte 0.
\<close>

section \<open>IP protocol numbers\<close>

abbreviation (input) TRACE_IPPROTO_ICMP :: u8 where "TRACE_IPPROTO_ICMP \<equiv> 1"
abbreviation (input) TRACE_IPPROTO_TCP :: u8 where "TRACE_IPPROTO_TCP \<equiv> 6"
abbreviation (input) TRACE_IPPROTO_UDP :: u8 where "TRACE_IPPROTO_UDP \<equiv> 17"
abbreviation (input) TRACE_IPPROTO_IPV6 :: u8 where "TRACE_IPPROTO_IPV6 \<equiv> 41"
abbreviation (input) TRACE_IPPROTO_ROUTING :: u8 where "TRACE_IPPROTO_ROUTING \<equiv> 43"
abbreviation (input) TRACE_IPPROTO_FRAGMENT :: u8 where "TRACE_IPPROTO_FRAGMENT \<equiv> 44"
abbreviation (input) TRACE_IPPROTO_ESP :: u8 where "TRACE_IPPROTO_ESP \<equiv> 50"
abbreviation (input) TRACE_IPPROTO_AH :: u8 where "TRACE_IPPROTO_AH \<equiv> 51"
abbreviation (input) TRACE_IPPROTO_ICMPV6 :: u8 where "TRACE_IPPROTO_ICMPV6 \<equiv> 58"
abbreviation (input) TRACE_IPPROTO_DSTOPTS :: u8 where "TRACE_IPPROTO_DSTOPTS \<equiv> 60"
abbreviation (input) TRACE_IPPROTO_OSPF :: u8 where "TRACE_IPPROTO_OSPF \<equiv> 89"

section \<open>Payload of IP headers\<close>

definition ip_v :: "u8 \<Rightarrow> u8" where "ip_v b0 = drop_bit 4 b0"

definition ip_hl :: "u8 \<Rightarrow> u8" where "ip_hl b0 = b0 AND 15"

type_synonym ip_decoder = "pktmem \<Rightarrow> ptr \<Rightarrow> u8 outp \<Rightarrow> u32 option \<Rightarrow> u8 outp decoded"

definition trace_get_payload_from_ip :: ip_decoder where
  "trace_get_payload_from_ip m ipptr prot remaining =
     bindr (rd8 m ipptr) (\<lambda>b0.
       if ip_v b0 \<noteq> 4 then Inr (None, prot, remaining)
       else bindr (rd16 m (ipptr + 6)) (\<lambda>ip_off.
         if ip_off AND 0x1FFF \<noteq> 0 then Inr (None, prot, map_option (\<lambda>_. 0) remaining)
         else (case take_header (ucast (ip_hl b0) * 4) remaining of
             None \<Rightarrow> Inr (None, prot, Some 0)
           | Some remaining \<Rightarrow>
               bindr (put_opt prot (rd8 m (ipptr + 9))) (\<lambda>prot.
                 Inr (Some (ipptr + unat (ip_hl b0) * 4), prot, remaining)))))"

text \<open>
  The loop over IPv6 extension headers. The length of an extension header is in units of 8 bytes
  and does not count the first 8; a fragment header has 8 bytes. The loop ends because every
  round goes on at a higher address, and reading beyond the buffer is a fault.
\<close>

definition is_ip6_ext :: "u8 \<Rightarrow> bool" where
  "is_ip6_ext nxt \<longleftrightarrow> nxt = 0 \<or> nxt = TRACE_IPPROTO_ROUTING \<or> nxt = TRACE_IPPROTO_AH \<or> nxt = TRACE_IPPROTO_DSTOPTS"

definition ip6_ext_len :: "u8 \<Rightarrow> u16" where
  "ip6_ext_len l = ucast l * 8 + 8"

lemma unat_ip6_ext_len [simp]: "unat (ip6_ext_len l) = unat l * 8 + 8"
proof -
  have "unat l < 256" using unsigned_less [of l, where 'a = nat] by simp
  then show ?thesis by (simp add: ip6_ext_len_def unat_word_ariths)
qed

function ip6_payload_loop ::
  "pktmem \<Rightarrow> ptr \<Rightarrow> u8 \<Rightarrow> u8 outp \<Rightarrow> u32 option \<Rightarrow> u8 outp decoded" where
  "ip6_payload_loop m payload nxt prot remaining =
     (if is_ip6_ext nxt then
        bindr (rd8 m (payload + 1)) (\<lambda>l.
          (case take_header (ucast (ip6_ext_len l)) remaining of
             None \<Rightarrow> Inr (None, prot, Some 0)
           | Some remaining \<Rightarrow>
               bindr (rd8 m payload) (\<lambda>nxt.
                 ip6_payload_loop m (payload + unat (ip6_ext_len l)) nxt prot remaining)))
      else if nxt = TRACE_IPPROTO_ESP then
        bindr (put_opt prot (Inr TRACE_IPPROTO_ESP)) (\<lambda>prot. Inr (Some payload, prot, remaining))
      else if nxt = TRACE_IPPROTO_FRAGMENT then
        (case take_header 8 remaining of
           None \<Rightarrow> Inr (None, prot, Some 0)
         | Some remaining \<Rightarrow>
             bindr (rd8 m payload) (\<lambda>nxt. ip6_payload_loop m (payload + 8) nxt prot remaining))
      else bindr (put_opt prot (Inr nxt)) (\<lambda>prot. Inr (Some payload, prot, remaining)))"
  by auto
termination
  by (relation "measure (\<lambda>(m, payload, _). length m - payload)")
    (auto simp: rd8_eq_Inr simp del: unat_ip6_ext_len simp: unat_ip6_ext_len)

declare ip6_payload_loop.simps [simp del]

definition trace_get_payload_from_ip6 :: ip_decoder where
  "trace_get_payload_from_ip6 m ipptr prot remaining =
     bindr (rd8 m (ipptr + 6)) (\<lambda>nxt.
       (case take_header 40 remaining of
          None \<Rightarrow> Inr (None, prot, Some 0)
        | Some remaining \<Rightarrow> ip6_payload_loop m (ipptr + 40) nxt prot remaining))"

section \<open>Layer 3 of a packet\<close>

lemma vlan_smaller:
  "trace_get_payload_from_vlan m p et (Some r) = Inr (Some q, et', Some r') \<Longrightarrow> unat r' < unat r"
  by (auto simp: trace_get_payload_from_vlan_def l2_fixed split: if_splits)

lemma mpls_smaller:
  "trace_get_payload_from_mpls m p et (Some r) = Inr (Some q, et', Some r') \<Longrightarrow> unat r' < unat r"
  by (auto simp: trace_get_payload_from_mpls_def l2_fixed bindr_eq_Inr split: if_splits)

lemma pppoe_smaller:
  "trace_get_payload_from_pppoe m p et (Some r) = Inr (Some q, et', Some r') \<Longrightarrow> unat r' < unat r"
  by (auto simp: trace_get_payload_from_pppoe_def trace_get_payload_from_ppp_def l2_fixed split: if_splits)

lemma ethernet_smaller:
  "trace_get_payload_from_ethernet m p et (Some r) = Inr (Some q, et', Some r') \<Longrightarrow> unat r' < unat r"
  by (auto simp: trace_get_payload_from_ethernet_def l2_fixed split: if_splits)

text \<open>
  One round of the loop in \<open>trace_get_layer3\<close>. The test for an Ethernet frame behind MPLS
  compares the pointer \<open>ethertype\<close> with zero, not the type it points to.
\<close>

definition is_l25 :: "u16 \<Rightarrow> bool" where
  "is_l25 type \<longleftrightarrow>
     type = TRACE_ETHERTYPE_8021Q \<or> type = TRACE_ETHERTYPE_MPLS \<or> type = TRACE_ETHERTYPE_PPP_SES"

definition l25_step :: "u16 \<Rightarrow> l2_decoder" where
  "l25_step type m iphdr ethertype remaining =
     (if type = TRACE_ETHERTYPE_8021Q then trace_get_payload_from_vlan m iphdr ethertype remaining
      else if type = TRACE_ETHERTYPE_MPLS then
        bindr (trace_get_payload_from_mpls m iphdr ethertype remaining) (\<lambda>(iphdr, ethertype, remaining).
          case iphdr of
            None \<Rightarrow> Inr (iphdr, ethertype, remaining)
          | Some p \<Rightarrow> if ethertype = NoPtr then trace_get_payload_from_ethernet m p ethertype remaining
                      else Inr (iphdr, ethertype, remaining))
      else trace_get_payload_from_pppoe m iphdr ethertype remaining)"

lemma mpls_out: "trace_get_payload_from_mpls m p et rem = Inr (q, et', rem') \<Longrightarrow> et' \<noteq> NoPtr"
  by (auto simp: trace_get_payload_from_mpls_def put_def bindr_eq_Inr split: if_splits option.splits)

lemma l25_smaller:
  assumes "l25_step type m p et (Some r) = Inr (Some q, et', Some r')"
  shows "unat r' < unat r"
  using assms vlan_smaller pppoe_smaller
  by (auto simp: l25_step_def dest: mpls_out mpls_smaller split: if_splits option.splits)

function skip_l25 :: "pktmem \<Rightarrow> ptr option \<Rightarrow> u16 outp \<Rightarrow> u32 \<Rightarrow> (ptr option \<times> u16 outp \<times> u32) res" where
  "skip_l25 m iphdr ethertype remaining =
     (case iphdr of
        None \<Rightarrow> Inr (None, ethertype, remaining)
      | Some p \<Rightarrow>
          if remaining = 0 then Inr (Some p, ethertype, remaining)
          else bindr (get ethertype) (\<lambda>type.
            if is_l25 type then
              bindr (l25_step type m p ethertype (Some remaining)) (\<lambda>(iphdr, ethertype, rem).
                case rem of None \<Rightarrow> Inl NullDeref
                | Some remaining \<Rightarrow> skip_l25 m iphdr ethertype remaining)
            else Inr (Some p, ethertype, remaining)))"
  by auto
termination
proof (relation "measure (\<lambda>(m, iphdr, _, remaining). case iphdr of None \<Rightarrow> 0 | Some _ \<Rightarrow> Suc (unat remaining))")
qed (auto dest: l25_smaller split: option.splits)

declare skip_l25.simps [simp del]

text \<open>
  The caller's variable for the type may never have been written; a null pointer is replaced by
  the address of such a variable.
\<close>

definition trace_get_layer3 ::
  "libtrace_format \<Rightarrow> libtrace_packet \<Rightarrow> u16 outp \<Rightarrow> (ptr option \<times> u16 outp \<times> u32 \<times> libtrace_packet) res" where
  "trace_get_layer3 fmt packet ethertype =
     (let ethertype = (if ethertype = NoPtr then Undef else ethertype) in
      case p_l3_header packet of
        Some h \<Rightarrow> Inr (Some h, Val (p_l3_ethertype packet), p_l3_remaining packet, packet)
      | None \<Rightarrow>
          bindr (case p_l2_header packet of
                   Some h \<Rightarrow> (case p_link_type packet of
                       None \<Rightarrow> Inl Uninitialised
                     | Some t \<Rightarrow> Inr (Some h, t, p_l2_remaining packet, packet))
                 | None \<Rightarrow> trace_get_layer2 fmt packet) (\<lambda>(link, linktype, remaining, packet).
          bindr (at_ptr (\<lambda>m p. trace_get_payload_from_layer2 m p linktype ethertype (Some remaining))
                   (p_mem packet) link) (\<lambda>(iphdr, ethertype, rem).
          case rem of None \<Rightarrow> Inl NullDeref
          | Some remaining \<Rightarrow>
              bindr (skip_l25 (p_mem packet) iphdr ethertype remaining) (\<lambda>(iphdr, ethertype, remaining).
              if iphdr = None \<or> remaining = 0 then Inr (None, ethertype, remaining, packet)
              else bindr (get ethertype) (\<lambda>type.
                Inr (iphdr, ethertype, remaining,
                     packet\<lparr>p_l3_ethertype := type, p_l3_header := iphdr, p_l3_remaining := remaining\<rparr>))))))"

definition trace_get_ip :: "libtrace_format \<Rightarrow> libtrace_packet \<Rightarrow> (ptr option \<times> libtrace_packet) res" where
  "trace_get_ip fmt packet =
     bindr (trace_get_capture_length fmt packet) (\<lambda>(_, packet).
     bindr (trace_get_layer3 fmt packet Undef) (\<lambda>(ret, ethertype, remaining, packet).
       case ret of None \<Rightarrow> Inr (None, packet)
       | Some ip \<Rightarrow>
           bindr (get ethertype) (\<lambda>type.
             if type \<noteq> TRACE_ETHERTYPE_IP then Inr (None, packet)
             else if remaining < 20 then Inr (None, packet)
             else bindr (rd8 (p_mem packet) ip) (\<lambda>b0.
               if ip_v b0 \<noteq> 4 then Inr (None, packet) else Inr (Some ip, packet)))))"

definition trace_get_ip6 :: "libtrace_format \<Rightarrow> libtrace_packet \<Rightarrow> (ptr option \<times> libtrace_packet) res" where
  "trace_get_ip6 fmt packet =
     bindr (trace_get_capture_length fmt packet) (\<lambda>(_, packet).
     bindr (trace_get_layer3 fmt packet Undef) (\<lambda>(ret, ethertype, remaining, packet).
       case ret of None \<Rightarrow> Inr (None, packet)
       | Some ip \<Rightarrow>
           bindr (get ethertype) (\<lambda>type.
             if type \<noteq> TRACE_ETHERTYPE_IPV6 then Inr (None, packet)
             else if remaining < 40 then Inr (None, packet)
             else Inr (Some ip, packet))))"

section \<open>The decoders keep their contracts\<close>

lemma unat_ip_hl: "unat (ucast (ip_hl b) * 4 :: u32) = unat (ip_hl b) * 4"
proof -
  have "unat (ip_hl b) < 256" using unsigned_less [of "ip_hl b", where 'a = nat] by simp
  then show ?thesis by (simp add: unat_word_ariths)
qed

interpretation ip: header_decoder "\<lambda>m p. trace_get_payload_from_ip m p prot" 10 for prot
  by unfold_locales
    (auto simp: trace_get_payload_from_ip_def l2_fixed unat_ip_hl)

lemma ip6_loop_decodes:
  assumes "payload + unat r + 2 \<le> length m"
  shows "decodes payload r (ip6_payload_loop m payload nxt prot (Some r))"
  using assms
proof (induction "length m - payload" arbitrary: payload r nxt rule: less_induct)
  case less
  have step: "decodes payload r (ip6_payload_loop m (payload + n) nxt' prot (Some (r - w)))"
    if "unat w = n" "0 < n" "w \<le> r" for n w nxt'
  proof (rule decodes_trans)
    have r: "unat (r - w) = unat r - n" "n \<le> unat r"
      using that by (simp_all add: unat_sub word_le_nat_alt)
    show "decodes (payload + n) (r - w) (ip6_payload_loop m (payload + n) nxt' prot (Some (r - w)))"
      by (rule less.hyps) (use less.prems that r in simp_all)
    show "payload + n + unat (r - w) = payload + unat r" using r by simp
  qed simp
  have w: "unat (ucast (ip6_ext_len (m ! (payload + 1))) :: u32) = unat (ip6_ext_len (m ! (payload + 1)))"
    by (rule unat_ucast_widen)
  show ?case
    using less.prems step [OF w] step [of 8 8]
    by (subst ip6_payload_loop.simps) (auto simp: take_header_def not_less simp del: unat_ucast_widen)
qed

interpretation ip6: header_decoder "\<lambda>m p. trace_get_payload_from_ip6 m p prot" 7 for prot
proof
  fix p :: ptr and r :: u32 and m :: pktmem
  assume fits: "p + unat r + 7 \<le> length m"
  show "decodes p r (trace_get_payload_from_ip6 m p prot (Some r))"
  proof (cases "r < 40")
    case True
    then show ?thesis using fits by (simp add: trace_get_payload_from_ip6_def)
  next
    case False
    then have r: "unat (r - 40) = unat r - 40" "40 \<le> unat r"
      by (simp_all add: not_less unat_sub word_le_nat_alt)
    have "decodes (p + 40) (r - 40) (ip6_payload_loop m (p + 40) (m ! (p + 6)) prot (Some (r - 40)))"
      using fits r by (intro ip6_loop_decodes) simp
    then have "decodes p r (ip6_payload_loop m (p + 40) (m ! (p + 6)) prot (Some (r - 40)))"
      by (rule decodes_trans) (use r in simp_all)
    with False fits show ?thesis by (simp add: trace_get_payload_from_ip6_def)
  qed
qed

lemma l25_decodes:
  assumes "p + unat r + 3 \<le> length m" "is_l25 type"
  shows "decodes p r (l25_step type m p (Val t) (Some r))"
proof -
  have fits0: "p + unat r + 0 \<le> length m" using assms by simp
  show ?thesis
    using mpls.decodes [OF assms(1), of t] vlan.decodes [OF fits0] pppoe.decodes [OF fits0]
    unfolding l25_step_def by (auto dest: mpls_out elim!: decodesE)
qed

lemma l25_out:
  assumes "l25_step type m p (Val t) rem = Inr (q, et', rem')"
  shows "\<exists>t'. et' = Val t'"
  using assms
  by (auto simp: l25_step_def trace_get_payload_from_vlan_def trace_get_payload_from_mpls_def
      trace_get_payload_from_pppoe_def trace_get_payload_from_ppp_def trace_get_payload_from_ethernet_def
      put_opt_def put_def bindr_eq_Inr split: if_splits option.splits)

lemma skip_l25_ok:
  assumes "p + unat r + 3 \<le> length m"
  shows "\<exists>q t' r'. skip_l25 m (Some p) (Val t) r = Inr (q, Val t', r') \<and>
    (\<forall>p'. q = Some p' \<longrightarrow> p \<le> p' \<and> p' + unat r' = p + unat r \<and> (r' = 0 \<or> \<not> is_l25 t'))"
  using assms
proof (induction "unat r" arbitrary: p r t rule: less_induct)
  case less
  show ?case
  proof (cases "r = 0 \<or> \<not> is_l25 t")
    case True
    then show ?thesis by (subst skip_l25.simps) auto
  next
    case False
    then have unfold: "skip_l25 m (Some p) (Val t) r =
        bindr (l25_step t m p (Val t) (Some r)) (\<lambda>(iphdr, ethertype, rem).
          case rem of None \<Rightarrow> Inl NullDeref | Some remaining \<Rightarrow> skip_l25 m iphdr ethertype remaining)"
      by (subst skip_l25.simps) simp
    have "decodes p r (l25_step t m p (Val t) (Some r))" using less.prems False by (intro l25_decodes) auto
    then show ?thesis
    proof (cases rule: decodesE)
      case (null x r')
      then show ?thesis using l25_out [OF null(1)] unfold by (auto simp: skip_l25.simps [of _ None])
    next
      case (next_header p' x r')
      obtain t' where "x = Val t'" using l25_out [OF next_header(1)] by auto
      moreover have "p' + unat r' + 3 \<le> length m" using next_header less.prems by simp
      note less.hyps [OF l25_smaller [OF next_header(1)] this, of t']
      ultimately show ?thesis using next_header unfold by fastforce
    qed
  qed
qed

section \<open>Packets whose caches are in the capture\<close>

text \<open>
  \<open>in_capture b n p r\<close>: the address \<open>p\<close> lies in the \<open>n\<close> captured bytes from \<open>b\<close> on, and \<open>r\<close> is the
  number of those from \<open>p\<close> on. In a well-formed packet every cached header does, and the buffer
  goes on behind the capture for as many bytes as the code reads ahead before it tests the count
  (the longest such read is a copy of a TCP header with options).
\<close>

definition in_capture :: "ptr \<Rightarrow> nat \<Rightarrow> ptr \<Rightarrow> u32 \<Rightarrow> bool" where
  "in_capture b n p r \<longleftrightarrow> b \<le> p \<and> p + unat r = b + n"

definition lookahead :: nat where
  "lookahead = 64"

definition wf_packet ::
  "libtrace_format \<Rightarrow> libtrace_linktype \<Rightarrow> nat \<Rightarrow> int \<Rightarrow> ptr \<Rightarrow> libtrace_packet \<Rightarrow> bool" where
  "wf_packet fmt lt cap wire b packet \<longleftrightarrow>
     described fmt packet lt cap wire \<and> p_payload packet = Some b \<and>
     b + packet_bytes cap wire + lookahead \<le> length (p_mem packet) \<and>
     (\<forall>p. p_l2_header packet = Some p \<longrightarrow> p_link_type packet = Some lt \<and>
        in_capture b (packet_bytes cap wire) p (p_l2_remaining packet) \<and> (is_frame lt \<longrightarrow> p = b)) \<and>
     (\<forall>p. p_l3_header packet = Some p \<longrightarrow> 0 < p_l3_remaining packet \<and>
        in_capture b (packet_bytes cap wire) p (p_l3_remaining packet)) \<and>
     (\<forall>p. p_l4_header packet = Some p \<longrightarrow> (\<exists>proto. p_transport_proto packet = Val proto) \<and>
        in_capture b (packet_bytes cap wire) p (p_l4_remaining packet))"

text \<open>
  \<open>frame_ok m b lt n\<close>: the frame behind the meta-data headers of a packet is of a type whose
  decoder counts correctly, and a frame without a link layer starts like an IP packet.
\<close>

definition raw_ip :: "pktmem \<Rightarrow> ptr \<Rightarrow> bool" where
  "raw_ip m p \<longleftrightarrow> m ! p AND 0xF0 = 0x40 \<or> m ! p AND 0xF0 = 0x60"

definition frame_ok :: "pktmem \<Rightarrow> ptr \<Rightarrow> libtrace_linktype \<Rightarrow> nat \<Rightarrow> bool" where
  "frame_ok m b lt n \<longleftrightarrow>
     (case skip_meta m b lt (Some (of_nat n)) of
        Inl _ \<Rightarrow> True
      | Inr (p, lt', _) \<Rightarrow> accounts lt' \<and> (lt' = TRACE_TYPE_NONE \<longrightarrow> raw_ip m p))"

lemma llcsnap_out:
  "trace_get_payload_from_llcsnap m p et rem = Inr (Some q, et', rem') \<Longrightarrow> et \<noteq> NoPtr \<Longrightarrow> \<exists>t. et' = Val t"
  by (auto simp: trace_get_payload_from_llcsnap_def put_opt_def split: option.splits)

lemma layer2_out:
  assumes "trace_get_payload_from_layer2 m p lt et (Some r) = Inr (Some q, et', rem')"
    "et \<noteq> NoPtr" "accounts lt" "lt = TRACE_TYPE_NONE \<longrightarrow> raw_ip m p"
  shows "\<exists>t. et' = Val t"
  using assms
  by (cases lt)
    (auto simp: trace_get_payload_from_layer2_def accounts_def trace_get_payload_from_ethernet_def
      trace_get_payload_from_ppp_def trace_get_payload_from_chdlc_def
      trace_get_payload_from_ppp_hdlc_def ip_ethertype_def raw_ip_def rd8_eq_Inr put_opt_def bindr_eq_Inr
      dest: llcsnap_out split: if_splits option.splits)

lemma layer2_wf:
  assumes w: "wf_packet fmt lt cap wire b packet"
    and ok: "frame_ok (p_mem packet) b lt (packet_bytes cap wire)"
  shows "\<exists>h lt' r packet'. trace_get_layer2 fmt packet = Inr (h, lt', r, packet') \<and>
    wf_packet fmt lt cap wire b packet' \<and> trace_clear_cache packet' = trace_clear_cache packet \<and>
    p_l3_header packet' = p_l3_header packet \<and> p_l4_header packet' = p_l4_header packet \<and>
    p_payload_length packet' = p_payload_length packet \<and>
    (\<forall>p. h = Some p \<longrightarrow> in_capture b (packet_bytes cap wire) p r \<and> accounts lt' \<and>
       (lt' = TRACE_TYPE_NONE \<longrightarrow> raw_ip (p_mem packet) p)) \<and> (h = None \<longrightarrow> \<not> is_frame lt')"
proof (cases "p_l2_header packet")
  case (Some p)
  have "accounts lt \<and> (lt = TRACE_TYPE_NONE \<longrightarrow> raw_ip (p_mem packet) p)"
  proof (cases "is_frame lt")
    case True
    then show ?thesis
      using w ok Some by (auto simp: frame_ok_def skip_meta_rank0 is_frame_def wf_packet_def)
  next
    case False
    then show ?thesis by (auto simp: accounts_def is_frame_def)
  qed
  then show ?thesis using w Some by (auto simp: trace_get_layer2_def wf_packet_def)
next
  case None
  have d: "described fmt packet lt cap wire" and b: "p_payload packet = Some b"
    and fits: "b + packet_bytes cap wire + 4 \<le> length (p_mem packet)"
    using w by (auto simp: wf_packet_def lookahead_def)
  from d b None fits show ?thesis
  proof (cases rule: layer2_fresh)
    case (1 p lt' r)
    let ?packet' = "with_layer2 (if is_frame lt' then Some p else None) r (lengths_cached lt cap wire packet)"
    have "described fmt ?packet' lt cap wire" using d by (rule described_upd) simp_all
    then have "wf_packet fmt lt cap wire b ?packet'"
      using w None 1 by (auto simp: wf_packet_def in_capture_def)
    then show ?thesis
      using 1 ok by (auto simp: in_capture_def frame_ok_def)
  qed
qed

definition with_layer3 :: "ptr \<Rightarrow> u16 \<Rightarrow> u32 \<Rightarrow> libtrace_packet \<Rightarrow> libtrace_packet" where
  "with_layer3 p t r packet = packet\<lparr>p_l3_ethertype := t, p_l3_header := Some p, p_l3_remaining := r\<rparr>"

lemma with_layer3_wf:
  assumes "wf_packet fmt lt cap wire b packet" "in_capture b (packet_bytes cap wire) p r" "0 < r"
  shows "wf_packet fmt lt cap wire b (with_layer3 p t r packet)"
proof -
  have d: "described fmt packet lt cap wire" using assms(1) by (simp add: wf_packet_def)
  then have "cached_ok lt cap wire packet" unfolding described_def by blast
  then have "described fmt (with_layer3 p t r packet) lt cap wire"
    by (intro described_upd [OF d]) (simp_all add: with_layer3_def cached_ok_def)
  then show ?thesis using assms by (auto simp: wf_packet_def with_layer3_def)
qed

lemma layer3_frame:
  assumes fits: "p + unat r + 3 \<le> length m" and "accounts lt" "lt = TRACE_TYPE_NONE \<longrightarrow> raw_ip m p"
  shows "\<exists>q et r1 rem. trace_get_payload_from_layer2 m p lt Undef (Some r) = Inr (q, et, Some r1) \<and>
    (\<exists>q' et' r'. skip_l25 m q et r1 = Inr (q', et', r') \<and>
      (\<forall>p'. q' = Some p' \<longrightarrow> p \<le> p' \<and> p' + unat r' = p + unat r \<and> (\<exists>t. et' = Val t \<and> (r' = 0 \<or> \<not> is_l25 t))))"
proof -
  have "decodes p r (trace_get_payload_from_layer2 m p lt Undef (Some r))"
    using assms by (intro layer2_decodes) simp_all
  then show ?thesis
  proof (cases rule: decodesE)
    case (null x r')
    then show ?thesis by (simp add: skip_l25.simps [of _ None])
  next
    case (next_header p' x r')
    obtain t where x: "x = Val t" using layer2_out [OF next_header(1)] assms by auto
    have "p' + unat r' + 3 \<le> length m" using next_header fits by simp
    from skip_l25_ok [OF this, of t] next_header x show ?thesis by fastforce
  qed
qed

lemma layer3_wf:
  assumes w: "wf_packet fmt lt cap wire b packet"
    and ok: "frame_ok (p_mem packet) b lt (packet_bytes cap wire)"
  shows "\<exists>h et r packet'. trace_get_layer3 fmt packet Undef = Inr (h, et, r, packet') \<and>
    wf_packet fmt lt cap wire b packet' \<and> trace_clear_cache packet' = trace_clear_cache packet \<and>
    p_l3_header packet' = h \<and> p_l4_header packet' = p_l4_header packet \<and>
    p_payload_length packet' = p_payload_length packet \<and>
    (\<forall>p. h = Some p \<longrightarrow> in_capture b (packet_bytes cap wire) p r \<and> 0 < r \<and>
       et = Val (p_l3_ethertype packet') \<and> p_l3_remaining packet' = r)"
proof (cases "p_l3_header packet")
  case (Some p)
  then show ?thesis using w by (auto simp: trace_get_layer3_def wf_packet_def)
next
  case None
  let ?n = "packet_bytes cap wire"
  have l2: "(case p_l2_header packet of
       Some h \<Rightarrow> (case p_link_type packet of None \<Rightarrow> Inl Uninitialised
                 | Some t \<Rightarrow> Inr (Some h, t, p_l2_remaining packet, packet))
     | None \<Rightarrow> trace_get_layer2 fmt packet) = trace_get_layer2 fmt packet"
    by (auto simp: trace_get_layer2_def split: option.splits)
  from layer2_wf [OF w ok] obtain h lt' r packet' where
    g: "trace_get_layer2 fmt packet = Inr (h, lt', r, packet')" "wf_packet fmt lt cap wire b packet'"
    "trace_clear_cache packet' = trace_clear_cache packet" "p_l3_header packet' = None"
    "p_l4_header packet' = p_l4_header packet" "p_payload_length packet' = p_payload_length packet"
    and hp: "\<forall>p. h = Some p \<longrightarrow> in_capture b ?n p r \<and> accounts lt' \<and>
       (lt' = TRACE_TYPE_NONE \<longrightarrow> raw_ip (p_mem packet) p)" "h = None \<longrightarrow> \<not> is_frame lt'"
    using None by auto
  have mem: "p_mem packet' = p_mem packet" using g(3) by (metis clear_cache_keeps(1))
  show ?thesis
  proof (cases h)
    case n2: None
    then have "at_ptr (\<lambda>m p. trace_get_payload_from_layer2 m p lt' Undef (Some r)) (p_mem packet') h =
        Inr (None, Undef, Some r)"
      using hp(2) by (cases lt') (simp_all add: at_ptr_def trace_get_payload_from_layer2_def is_frame_def)
    then show ?thesis using g None l2 by (simp add: trace_get_layer3_def skip_l25.simps [of _ None])
  next
    case (Some p)
    have p: "b \<le> p" "p + unat r = b + ?n" "p + unat r + 3 \<le> length (p_mem packet')"
      using hp(1) Some w mem by (auto simp: in_capture_def wf_packet_def lookahead_def)
    from layer3_frame [OF p(3), of lt'] hp(1) Some mem obtain q et r1 q' et' r' where
      l: "trace_get_payload_from_layer2 (p_mem packet') p lt' Undef (Some r) = Inr (q, et, Some r1)"
      "skip_l25 (p_mem packet') q et r1 = Inr (q', et', r')"
      "\<forall>p'. q' = Some p' \<longrightarrow> p \<le> p' \<and> p' + unat r' = p + unat r \<and> (\<exists>t. et' = Val t \<and> (r' = 0 \<or> \<not> is_l25 t))"
      by auto
    show ?thesis
    proof (cases "q' = None \<or> r' = 0")
      case True
      then show ?thesis using g None l2 l Some by (auto simp: trace_get_layer3_def)
    next
      case False
      then obtain p' t where q': "q' = Some p'" "et' = Val t" "p \<le> p'" "p' + unat r' = p + unat r" "r' \<noteq> 0"
        using l(3) by auto
      then have c: "in_capture b ?n p' r'" using p by (simp add: in_capture_def)
      have "trace_get_layer3 fmt packet Undef = Inr (Some p', Val t, r', with_layer3 p' t r' packet')"
        using g None l2 l Some q' by (simp add: trace_get_layer3_def with_layer3_def)
      moreover have "wf_packet fmt lt cap wire b (with_layer3 p' t r' packet')"
        using with_layer3_wf [OF g(2) c] q'(5) by (simp add: word_gt_0)
      ultimately show ?thesis using g c q'(5) by (simp add: with_layer3_def word_gt_0)
    qed
  qed
qed

section \<open>Properties\<close>


text \<open>An Ethernet frame with a VLAN header and an IP header, in a larger buffer.\<close>

definition vlan_packet :: libtrace_packet where
  "vlan_packet = trace_create_packet\<lparr>p_payload := Some 0,
     p_mem := [1, 2, 3, 4, 5, 6, 7, 8, 9, 10, 11, 12, 0x81, 0, 0, 7, 8, 0,
               0x45, 0, 0, 28, 0, 0, 0, 0, 64, 17, 0, 0, 10, 0, 0, 1, 10, 0, 0, 2,
               0, 53, 0, 54, 0, 8, 0, 0] @ replicate 64 0\<rparr>"

lemma vlan_packet_wf: "wf_packet (fixed_format TRACE_TYPE_ETH 46 46 0) TRACE_TYPE_ETH 46 46 0 vlan_packet"
proof -
  have "described (fixed_format TRACE_TYPE_ETH 46 46 0) vlan_packet TRACE_TYPE_ETH 46 46"
    by (rule described_fixed) (simp_all add: vlan_packet_def trace_create_packet_def trace_clear_cache_def)
  then show ?thesis
    by (simp add: wf_packet_def vlan_packet_def trace_create_packet_def trace_clear_cache_def
        packet_bytes_def lookahead_def)
qed

lemma eth_frame_ok: "frame_ok m b TRACE_TYPE_ETH n"
  by (simp add: frame_ok_def skip_meta_rank0 accounts_def)


text \<open>The call really finds the IP header of that packet, behind the VLAN header.\<close>

lemma vlan_packet_layer3:
  "case trace_get_layer3 (fixed_format TRACE_TYPE_ETH 46 46 0) vlan_packet Undef of
     Inr (h, et, r, _) \<Rightarrow> h = Some 18 \<and> et = Val TRACE_ETHERTYPE_IP \<and> r = 28 | Inl _ \<Rightarrow> False"
  by code_simp

text \<open>
  A raw packet (without a link layer) of an unknown IP version leaves the caller's variable for
  the type as it is, and the loop decides on it: here the variable was never written.
\<close>

lemma raw_packet_uninitialised:
  "trace_get_layer3 (fixed_format TRACE_TYPE_NONE 20 20 0)
     (trace_create_packet\<lparr>p_payload := Some 0, p_mem := replicate 20 0x55\<rparr>) Undef = Inl Uninitialised"
  by code_simp

text \<open>
  An Ethernet frame inside MPLS (VPLS) is never decoded: the call returns the address of the inner
  Ethernet header (here an IP packet is 14 bytes further on) with the type 0.
\<close>

lemma vpls_not_decoded:
  "case trace_get_layer3 (fixed_format TRACE_TYPE_ETH 52 52 0)
     (trace_create_packet\<lparr>p_payload := Some 0,
        p_mem := replicate 12 0 @ [0x88, 0x47] @ [0, 0, 1, 64] @ replicate 12 0 @ [8, 0] @ 0x45 # replicate 19 0\<rparr>)
     Undef of Inr (h, et, r, _) \<Rightarrow> h = Some 18 \<and> et = Val 0 \<and> r = 34 | Inl _ \<Rightarrow> False"
  by code_simp


end
