(* ===== verification/Proto_L3_Access.thy ===== *)
theory Proto_L3_Access
  imports Proto_L3
begin

text \<open>
  The rest of \<open>lib/protocols_l3.c\<close>: walking over IP and TCP options, the fragment offset, the
  addresses of a packet and the checksum of the IPv4 header.
\<close>

section \<open>Options\<close>

text \<open>
  One call of \<open>trace_get_next_option\<close>: whether there is another option, and the variables of the
  caller (current option, bytes left, type, length and data of the option) afterwards.
\<close>

record opt_vars =
  o_ptr :: ptr
  o_len :: int
  o_type :: "u8 outp"
  o_optlen :: "u8 outp"
  o_data :: "ptr outp"

definition trace_get_next_option :: "pktmem \<Rightarrow> opt_vars \<Rightarrow> (bool \<times> opt_vars) res" where
  "trace_get_next_option m v =
     (if o_len v \<le> 0 then Inr (False, v)
      else bindr (rd8 m (o_ptr v)) (\<lambda>type.
        let v = v\<lparr>o_type := Val type\<rparr> in
        if type = 0 then Inr (False, v)
        else if type = 1 then Inr (True, v\<lparr>o_ptr := o_ptr v + 1, o_len := o_len v - 1\<rparr>)
        else bindr (rd8 m (o_ptr v + 1)) (\<lambda>optlen.
          let v = v\<lparr>o_optlen := Val optlen\<rparr> in
          if optlen < 2 then Inr (False, v)
          else if int (unat optlen) > o_len v then Inr (False, v)
          else let v = v\<lparr>o_len := o_len v - int (unat optlen), o_data := Val (o_ptr v + 2),
                         o_ptr := o_ptr v + unat optlen\<rparr> in
            if o_len v < 0 then Inr (False, v) else Inr (True, v))))"

text \<open>A caller that looks at every option: the types it sees.\<close>

lemma next_option_shorter:
  assumes "trace_get_next_option m v = Inr (True, v')"
  shows "nat (o_len v') < nat (o_len v)"
  using assms
  by (auto simp: trace_get_next_option_def Let_def word_less_alt bindr_eq_Inr split: if_splits)

function option_types :: "pktmem \<Rightarrow> opt_vars \<Rightarrow> u8 list res" where
  "option_types m v =
     bindr (trace_get_next_option m v) (\<lambda>(more, v).
       if more then bindr (get (o_type v)) (\<lambda>t. bindr (option_types m v) (\<lambda>ts. Inr (t # ts)))
       else Inr [])"
  by auto
termination
  by (relation "measure (\<lambda>(m, v). nat (o_len v))") (auto dest: next_option_shorter)

declare option_types.simps [simp del]

section \<open>Fragments\<close>

text \<open>
  The loop for IPv6. The address of the extension header is not advanced by the code, so every
  round reads the same header; it ends because the count of remaining bytes shrinks. The result is
  the offset and whether more fragments follow.
\<close>

function fragment_loop :: "pktmem \<Rightarrow> ptr \<Rightarrow> u8 \<Rightarrow> u32 \<Rightarrow> (u16 \<times> bool) res" where
  "fragment_loop m payload nxt remaining =
     (if is_ip6_ext nxt then
        bindr (rd8 m (payload + 1)) (\<lambda>l.
          let len = ip6_ext_len l in
          if remaining < ucast len then Inr (0, False)
          else bindr (rd8 m payload) (\<lambda>nxt. fragment_loop m payload nxt (remaining - ucast len)))
      else if nxt = TRACE_IPPROTO_FRAGMENT then
        if remaining < 8 then Inr (0, False)
        else bindr (rd16 m (payload + 2)) (\<lambda>offset.
          Inr (drop_bit 3 (offset AND 0xFFF8) * 8, offset AND 1 \<noteq> 0))
      else Inr (0, False))"
  by auto
termination
  by (relation "measure (\<lambda>(m, payload, nxt, remaining). unat remaining)")
    (auto simp: not_less unat_sub word_le_nat_alt)

declare fragment_loop.simps [simp del]

definition trace_get_fragment_offset ::
  "libtrace_format \<Rightarrow> libtrace_packet \<Rightarrow> (u16 \<times> bool \<times> libtrace_packet) res" where
  "trace_get_fragment_offset fmt packet =
     bindr (trace_get_layer3 fmt packet Undef) (\<lambda>(l3, ethertype, remaining, packet).
       case l3 of None \<Rightarrow> Inr (0, False, packet)
       | Some l3 \<Rightarrow>
           bindr (get ethertype) (\<lambda>type.
             if type = TRACE_ETHERTYPE_IP then
               if remaining < 8 then Inr (0, False, packet)
               else bindr (rd16 (p_mem packet) (l3 + 6)) (\<lambda>offset.
                 Inr ((offset AND 0x1FFF) * 8, offset AND 0x2000 \<noteq> 0, packet))
             else if type = TRACE_ETHERTYPE_IPV6 then
               let payload = l3; ip6 = l3 + 40 in
               bindr (rd8 (p_mem packet) (ip6 + 6)) (\<lambda>nxt.
                 if remaining < 40 then Inr (0, False, packet)
                 else bindr (fragment_loop (p_mem packet) payload nxt (remaining - 40)) (\<lambda>(off, more).
                   Inr (off, more, packet)))
             else Inr (0, False, packet)))"

section \<open>Addresses\<close>

text \<open>
  Socket addresses: ports and the protocol are the numbers that \<open>ntohs\<close> makes of the stored ones.
  The scope of an IPv6 address is \<open>None\<close> where the code does not set it.
\<close>

datatype sockaddr =
    Sockaddr_in u16 "u8 list"
  | Sockaddr_in6 u16 u32 "u8 list" "u32 option"
  | Sockaddr_ll u16 c_int u16 u8 u8 "u8 list"

definition get_source_ethernet_address :: "pktmem \<Rightarrow> ptr \<Rightarrow> sockaddr res" where
  "get_source_ethernet_address m ethernet =
     bindr (rd16 m (ethernet + 12)) (\<lambda>ether_type.
     bindr (rdn m (ethernet + 6) 6) (\<lambda>ether_shost. Inr (Sockaddr_ll ether_type 0 1 3 6 ether_shost)))"

definition get_source_l2_address ::
  "libtrace_format \<Rightarrow> libtrace_packet \<Rightarrow> (sockaddr option \<times> libtrace_packet) res" where
  "get_source_l2_address fmt packet =
     bindr (trace_get_layer2 fmt packet) (\<lambda>(l2, linktype, _, packet).
       case l2 of None \<Rightarrow> Inr (None, packet)
       | Some l2 \<Rightarrow>
           if linktype = TRACE_TYPE_ETH then
             bindr (get_source_ethernet_address (p_mem packet) l2) (\<lambda>addr. Inr (Some addr, packet))
           else Inr (None, packet))"

definition port_at :: "pktmem \<Rightarrow> ptr option \<Rightarrow> u32 option \<Rightarrow> nat \<Rightarrow> u16 res" where
  "port_at m ports remaining off =
     (case (ports, remaining) of
        (Some p, Some r) \<Rightarrow> if 4 \<le> r then rd16 m (p + off) else Inr 0
      | _ \<Rightarrow> Inr 0)"

definition trace_get_source_address ::
  "libtrace_format \<Rightarrow> libtrace_packet \<Rightarrow> (sockaddr option \<times> libtrace_packet) res" where
  "trace_get_source_address fmt packet =
     bindr (trace_get_layer3 fmt packet Undef) (\<lambda>(l3, ethertype, remaining, packet).
       case l3 of None \<Rightarrow> get_source_l2_address fmt packet
       | Some ip \<Rightarrow>
           bindr (get ethertype) (\<lambda>type.
             if type = TRACE_ETHERTYPE_IP then
               bindr (trace_get_payload_from_ip (p_mem packet) ip NoPtr (Some remaining)) (\<lambda>(ports, _, rem).
               bindr (port_at (p_mem packet) ports rem 0) (\<lambda>port.
               bindr (rdn (p_mem packet) (ip + 12) 4) (\<lambda>addr. Inr (Some (Sockaddr_in port addr), packet))))
             else if type = TRACE_ETHERTYPE_IPV6 then
               bindr (trace_get_payload_from_ip6 (p_mem packet) ip NoPtr (Some remaining)) (\<lambda>(ports, _, rem).
               bindr (port_at (p_mem packet) ports rem 0) (\<lambda>port.
               bindr (rdn (p_mem packet) (ip + 8) 16) (\<lambda>addr.
                 Inr (Some (Sockaddr_in6 port 0 addr (Some 0)), packet))))
             else get_source_l2_address fmt packet))"

definition get_destination_ethernet_address :: "pktmem \<Rightarrow> ptr \<Rightarrow> sockaddr res" where
  "get_destination_ethernet_address m ethernet =
     bindr (rd16 m (ethernet + 12)) (\<lambda>ether_type.
     bindr (rdn m ethernet 6) (\<lambda>ether_dhost. Inr (Sockaddr_ll ether_type 0 1 3 6 ether_dhost)))"

definition get_destination_l2_address ::
  "libtrace_format \<Rightarrow> libtrace_packet \<Rightarrow> (sockaddr option \<times> libtrace_packet) res" where
  "get_destination_l2_address fmt packet =
     bindr (trace_get_layer2 fmt packet) (\<lambda>(l2, linktype, _, packet).
       case l2 of None \<Rightarrow> Inr (None, packet)
       | Some l2 \<Rightarrow>
           if linktype = TRACE_TYPE_ETH then
             bindr (get_destination_ethernet_address (p_mem packet) l2) (\<lambda>addr. Inr (Some addr, packet))
           else Inr (None, packet))"

definition trace_get_destination_address ::
  "libtrace_format \<Rightarrow> libtrace_packet \<Rightarrow> (sockaddr option \<times> libtrace_packet) res" where
  "trace_get_destination_address fmt packet =
     bindr (trace_get_layer3 fmt packet Undef) (\<lambda>(l3, ethertype, remaining, packet).
       case l3 of None \<Rightarrow> get_destination_l2_address fmt packet
       | Some ip \<Rightarrow>
           bindr (get ethertype) (\<lambda>type.
             if type = TRACE_ETHERTYPE_IP then
               bindr (trace_get_payload_from_ip (p_mem packet) ip NoPtr (Some remaining)) (\<lambda>(ports, _, rem).
               bindr (port_at (p_mem packet) ports rem 2) (\<lambda>port.
               bindr (rdn (p_mem packet) (ip + 16) 4) (\<lambda>addr. Inr (Some (Sockaddr_in port addr), packet))))
             else if type = TRACE_ETHERTYPE_IPV6 then
               bindr (trace_get_payload_from_ip6 (p_mem packet) ip NoPtr (Some remaining)) (\<lambda>(ports, _, rem).
               bindr (port_at (p_mem packet) ports rem 2) (\<lambda>port.
               bindr (rdn (p_mem packet) (ip + 24) 16) (\<lambda>addr.
                 Inr (Some (Sockaddr_in6 port 0 addr None), packet))))
             else get_destination_l2_address fmt packet))"

section \<open>Header checksum\<close>

text \<open>
  The header is copied to a buffer of 65536 bytes whose contents do not matter behind the copy,
  its checksum field (offset 10) is cleared there, and the checksum of the copy is converted to
  host byte order. The result is the address of the field in the packet and the checksum.
\<close>

definition clear16 :: "pktmem \<Rightarrow> ptr \<Rightarrow> pktmem res" where
  "clear16 m p = wrn m p [0, 0]"

definition trace_checksum_layer3 ::
  "libtrace_format \<Rightarrow> pktmem \<Rightarrow> libtrace_packet \<Rightarrow> ((ptr \<times> u16) option \<times> libtrace_packet) res" where
  "trace_checksum_layer3 fmt safety packet =
     bindr (trace_get_layer3 fmt packet Undef) (\<lambda>(l3, ethertype, remaining, packet).
       case l3 of None \<Rightarrow> Inr (None, packet)
       | Some ip \<Rightarrow>
           bindr (get ethertype) (\<lambda>type.
             if type = TRACE_ETHERTYPE_IP then
               if remaining < 20 then Inr (None, packet)
               else bindr (rd8 (p_mem packet) ip) (\<lambda>b0.
                 let len = unat (ip_hl b0) * 4 in
                 bindr (rdn (p_mem packet) ip len) (\<lambda>hdr.
                 bindr (wrn safety 0 hdr) (\<lambda>safety.
                 bindr (clear16 safety 10) (\<lambda>safety.
                 bindr (rd8 safety 0) (\<lambda>b0.
                 bindr (checksum_buffer safety 0 (ucast (ip_hl b0) * 4)) (\<lambda>csum.
                   Inr (Some (ip + 10, byteswap16 csum), packet)))))))
             else Inr (None, packet)))"

section \<open>Options stay in their area\<close>

lemma next_option_ok:
  assumes "0 \<le> o_len v" "o_ptr v + nat (o_len v) < length m"
  shows "\<exists>more v'. trace_get_next_option m v = Inr (more, v') \<and>
    (more \<longrightarrow> 0 \<le> o_len v' \<and> o_len v' < o_len v \<and>
       o_ptr v' + nat (o_len v') = o_ptr v + nat (o_len v) \<and>
       (\<exists>t. o_type v' = Val t \<and> (t \<noteq> 1 \<longrightarrow>
          (\<exists>l. o_optlen v' = Val l \<and> 2 \<le> unat l \<and> o_data v' = Val (o_ptr v + 2) \<and>
             o_ptr v + 2 + (unat l - 2) = o_ptr v'))))"
proof (cases "o_len v = 0")
  case True
  then show ?thesis by (auto simp: trace_get_next_option_def)
next
  case False
  define t where "t = m ! o_ptr v"
  define l where "l = m ! (o_ptr v + 1)"
  have rd: "rd8 m (o_ptr v) = Inr t" "rd8 m (o_ptr v + 1) = Inr l"
    using assms False unfolding t_def l_def by (auto simp: rd8_def)
  have pos: "0 < o_len v" using assms False by simp
  consider "t = 0" | "t = 1" | "t \<noteq> 0" "t \<noteq> 1" "l < 2 \<or> o_len v < int (unat l)"
    | "t \<noteq> 0" "t \<noteq> 1" "\<not> l < 2" "int (unat l) \<le> o_len v" by linarith
  then show ?thesis
  proof cases
    case 3
    then show ?thesis using pos rd by (auto simp: trace_get_next_option_def Let_def)
  next
    case 4
    have "2 \<le> unat l" using 4(3) by (simp add: word_less_nat_alt)
    moreover from this have "Suc (Suc (unat l - 2)) = unat l" by linarith
    moreover have "unat l + nat (o_len v - int (unat l)) = nat (o_len v)" using 4(4) by linarith
    moreover have "trace_get_next_option m v = Inr (True, v\<lparr>o_type := Val t, o_optlen := Val l,
        o_len := o_len v - int (unat l), o_data := Val (o_ptr v + 2), o_ptr := o_ptr v + unat l\<rparr>)"
      using 4 pos rd by (simp add: trace_get_next_option_def Let_def del: of_nat_unat)
    ultimately show ?thesis using 4 by (auto simp del: of_nat_unat)
  next
    case 1
    then have "trace_get_next_option m v = Inr (False, v\<lparr>o_type := Val 0\<rparr>)"
      using pos rd by (simp add: trace_get_next_option_def Let_def)
    then show ?thesis by blast
  next
    case 2
    then have "trace_get_next_option m v =
        Inr (True, v\<lparr>o_type := Val 1, o_ptr := o_ptr v + 1, o_len := o_len v - 1\<rparr>)"
      using pos rd by (simp add: trace_get_next_option_def Let_def)
    moreover have "Suc (nat (o_len v - 1)) = nat (o_len v)" using pos by linarith
    ultimately show ?thesis using pos by auto
  qed
qed

lemma option_types_ok:
  assumes "0 \<le> o_len v" "o_ptr v + nat (o_len v) < length m"
  shows "\<exists>ts. option_types m v = Inr ts \<and> length ts \<le> nat (o_len v)"
  using assms
proof (induction "nat (o_len v)" arbitrary: v rule: less_induct)
  case less
  from next_option_ok [OF less.prems] obtain more v' where
    n: "trace_get_next_option m v = Inr (more, v')"
    "more \<longrightarrow> 0 \<le> o_len v' \<and> o_len v' < o_len v \<and> o_ptr v' + nat (o_len v') = o_ptr v + nat (o_len v) \<and>
       (\<exists>t. o_type v' = Val t)" by blast
  show ?case
  proof (cases more)
    case True
    then obtain ts where "option_types m v' = Inr ts" "length ts \<le> nat (o_len v')"
      using less.hyps [of v'] n less.prems by auto
    then show ?thesis using n True by (subst option_types.simps) auto
  next
    case False
    then show ?thesis using n by (subst option_types.simps) simp
  qed
qed

section \<open>The accessors are total on well-formed packets\<close>

lemma layer3_cases:
  assumes "wf_packet fmt lt cap wire b packet" "frame_ok (p_mem packet) b lt (packet_bytes cap wire)"
  obtains (none) et r packet' where "trace_get_layer3 fmt packet Undef = Inr (None, et, r, packet')"
      "wf_packet fmt lt cap wire b packet'" "p_mem packet' = p_mem packet"
      "trace_clear_cache packet' = trace_clear_cache packet" "p_l4_header packet' = p_l4_header packet"
      "p_payload_length packet' = p_payload_length packet"
    | (some) p t r packet' where "trace_get_layer3 fmt packet Undef = Inr (Some p, Val t, r, packet')"
      "wf_packet fmt lt cap wire b packet'" "p_mem packet' = p_mem packet"
      "trace_clear_cache packet' = trace_clear_cache packet"
      "in_capture b (packet_bytes cap wire) p r" "0 < unat r" "p + unat r + 64 \<le> length (p_mem packet)"
      "p_l4_header packet' = p_l4_header packet" "p_payload_length packet' = p_payload_length packet"
proof -
  from layer3_wf [OF assms] obtain h et r packet' where
    l: "trace_get_layer3 fmt packet Undef = Inr (h, et, r, packet')" "wf_packet fmt lt cap wire b packet'"
    "trace_clear_cache packet' = trace_clear_cache packet"
    "\<forall>p. h = Some p \<longrightarrow> in_capture b (packet_bytes cap wire) p r \<and> 0 < r \<and> et = Val (p_l3_ethertype packet')"
    "p_l4_header packet' = p_l4_header packet" "p_payload_length packet' = p_payload_length packet"
    by blast
  have mem: "p_mem packet' = p_mem packet" using l(3) by (metis clear_cache_keeps(1))
  show thesis
  proof (cases h)
    case None
    show ?thesis by (rule none [of et r packet']) (use l(1-3,5,6) mem None in simp_all)
  next
    case (Some p)
    have "0 < r" "in_capture b (packet_bytes cap wire) p r" "et = Val (p_l3_ethertype packet')"
      using l(4) Some by simp_all
    moreover from this have "p + unat r + 64 \<le> length (p_mem packet)"
      using assms(1) by (simp add: wf_packet_def in_capture_def lookahead_def)
    ultimately show ?thesis
      by (intro some [of p "p_l3_ethertype packet'" r packet'])
        (use l(1-3,5,6) mem Some in \<open>simp_all add: word_less_nat_alt\<close>)
  qed
qed

lemma layer2_total:
  assumes "wf_packet fmt lt cap wire b packet" "frame_ok (p_mem packet) b lt (packet_bytes cap wire)"
  shows "\<exists>h lt' r packet'. trace_get_layer2 fmt packet = Inr (h, lt', r, packet') \<and>
    wf_packet fmt lt cap wire b packet' \<and> p_mem packet' = p_mem packet \<and>
    (\<forall>p. h = Some p \<longrightarrow> p + 64 \<le> length (p_mem packet))"
proof -
  from layer2_wf [OF assms] obtain h lt' r packet' where
    l: "trace_get_layer2 fmt packet = Inr (h, lt', r, packet')" "wf_packet fmt lt cap wire b packet'"
    "trace_clear_cache packet' = trace_clear_cache packet"
    "\<forall>p. h = Some p \<longrightarrow> in_capture b (packet_bytes cap wire) p r" by blast
  have "p_mem packet' = p_mem packet" using l(3) by (metis clear_cache_keeps(1))
  then show ?thesis using l assms(1) by (auto simp: wf_packet_def in_capture_def lookahead_def)
qed

lemma fragment_loop_ok: "payload + 4 \<le> length m \<Longrightarrow> \<exists>off more. fragment_loop m payload nxt r = Inr (off, more)"
proof (induction "unat r" arbitrary: nxt r rule: less_induct)
  case less
  have "\<exists>off more. fragment_loop m payload nxt' (r - ucast (ip6_ext_len l)) = Inr (off, more)"
    if "\<not> r < ucast (ip6_ext_len l)" for nxt' l
    using less that by (auto simp: not_less unat_sub word_le_nat_alt)
  then show ?case using less.prems by (subst fragment_loop.simps) (auto simp: Let_def)
qed

lemma fragment_offset_total:
  assumes "wf_packet fmt lt cap wire b packet" "frame_ok (p_mem packet) b lt (packet_bytes cap wire)"
  shows "\<exists>off more packet'. trace_get_fragment_offset fmt packet = Inr (off, more, packet') \<and>
    wf_packet fmt lt cap wire b packet' \<and> p_mem packet' = p_mem packet"
  using assms
proof (cases rule: layer3_cases)
  case none
  then show ?thesis by (auto simp: trace_get_fragment_offset_def)
next
  case (some p t r packet')
  have "p + 4 \<le> length (p_mem packet)" "p + 46 < length (p_mem packet)" "p + 7 < length (p_mem packet)"
    using some by linarith+
  obtain off more where "fragment_loop (p_mem packet) p (p_mem packet ! (46 + p)) (r - 40) = Inr (off, more)"
    using fragment_loop_ok [OF \<open>p + 4 \<le> _\<close>] by blast
  then show ?thesis
    using some \<open>p + 46 < _\<close> \<open>p + 7 < _\<close> unfolding trace_get_fragment_offset_def by (auto simp: Let_def)
qed

lemma l2_address_total:
  assumes "wf_packet fmt lt cap wire b packet" "frame_ok (p_mem packet) b lt (packet_bytes cap wire)"
  shows "\<exists>a packet'. get_source_l2_address fmt packet = Inr (a, packet') \<and>
      wf_packet fmt lt cap wire b packet' \<and> p_mem packet' = p_mem packet"
    "\<exists>a packet'. get_destination_l2_address fmt packet = Inr (a, packet') \<and>
      wf_packet fmt lt cap wire b packet' \<and> p_mem packet' = p_mem packet"
  using layer2_total [OF assms]
  by (auto simp: get_source_l2_address_def get_destination_l2_address_def
      get_source_ethernet_address_def get_destination_ethernet_address_def split: option.splits)

lemma port_at_ok:
  assumes "decodes p r res" "res = Inr (q, x, rem)" "p + unat r \<le> length m" "off + 2 \<le> 4"
  shows "\<exists>port. port_at m q rem off = Inr port"
  using assms(1)
proof (cases rule: decodesE)
  case (null y r')
  then show ?thesis using assms(2) by (simp add: port_at_def)
next
  case (next_header p' y r')
  then have "p' + off + 1 < length m" if "4 \<le> r'"
    using assms(3,4) that by (simp add: word_le_nat_alt)
  then show ?thesis using assms(2) next_header by (auto simp: port_at_def)
qed

lemma ip_address_total:
  assumes "p + unat r + 64 \<le> length m" "off + 2 \<le> 4" "k + 16 \<le> 40"
  shows "\<exists>ports x rem port a. trace_get_payload_from_ip m p NoPtr (Some r) = Inr (ports, x, rem) \<and>
      port_at m ports rem off = Inr port \<and> rdn m (p + k) 4 = Inr a"
    "\<exists>ports x rem port a. trace_get_payload_from_ip6 m p NoPtr (Some r) = Inr (ports, x, rem) \<and>
      port_at m ports rem off = Inr port \<and> rdn m (p + k) 16 = Inr a"
proof -
  have d: "decodes p r (trace_get_payload_from_ip m p NoPtr (Some r))"
    "decodes p r (trace_get_payload_from_ip6 m p NoPtr (Some r))"
    using assms by (auto intro!: ip.decodes ip6.decodes)
  have fits: "p + unat r \<le> length m" "p + k + 4 \<le> length m" "p + k + 16 \<le> length m"
    using assms by linarith+
  from d show "\<exists>ports x rem port a. trace_get_payload_from_ip m p NoPtr (Some r) = Inr (ports, x, rem) \<and>
      port_at m ports rem off = Inr port \<and> rdn m (p + k) 4 = Inr a"
    using port_at_ok [OF d(1) _ fits(1) assms(2)] fits by (fastforce simp: decodes_def)
  from d show "\<exists>ports x rem port a. trace_get_payload_from_ip6 m p NoPtr (Some r) = Inr (ports, x, rem) \<and>
      port_at m ports rem off = Inr port \<and> rdn m (p + k) 16 = Inr a"
    using port_at_ok [OF d(2) _ fits(1) assms(2)] fits by (fastforce simp: decodes_def)
qed

lemma address_total:
  assumes w: "wf_packet fmt lt cap wire b packet"
    and ok: "frame_ok (p_mem packet) b lt (packet_bytes cap wire)"
  shows "\<exists>a packet'. trace_get_source_address fmt packet = Inr (a, packet') \<and>
      wf_packet fmt lt cap wire b packet' \<and> p_mem packet' = p_mem packet"
    "\<exists>a packet'. trace_get_destination_address fmt packet = Inr (a, packet') \<and>
      wf_packet fmt lt cap wire b packet' \<and> p_mem packet' = p_mem packet"
proof -
  have "(\<exists>a packet'. trace_get_source_address fmt packet = Inr (a, packet') \<and>
      wf_packet fmt lt cap wire b packet' \<and> p_mem packet' = p_mem packet) \<and>
    (\<exists>a packet'. trace_get_destination_address fmt packet = Inr (a, packet') \<and>
      wf_packet fmt lt cap wire b packet' \<and> p_mem packet' = p_mem packet)"
    using w ok
  proof (cases rule: layer3_cases)
    case (none et r packet')
    then show ?thesis
      using l2_address_total [OF none(2)] ok none
      by (auto simp: trace_get_source_address_def trace_get_destination_address_def)
  next
    case (some p t r packet')
    have l2: "frame_ok (p_mem packet') b lt (packet_bytes cap wire)" using ok some by simp
    show ?thesis
      using some l2_address_total [OF some(2) l2]
        ip_address_total [OF some(7), of 0 12] ip_address_total [OF some(7), of 0 8]
        ip_address_total [OF some(7), of 2 16] ip_address_total [OF some(7), of 2 24]
      by (auto simp: trace_get_source_address_def trace_get_destination_address_def)
  qed
  then show "\<exists>a packet'. trace_get_source_address fmt packet = Inr (a, packet') \<and>
      wf_packet fmt lt cap wire b packet' \<and> p_mem packet' = p_mem packet"
    "\<exists>a packet'. trace_get_destination_address fmt packet = Inr (a, packet') \<and>
      wf_packet fmt lt cap wire b packet' \<and> p_mem packet' = p_mem packet" by blast+
qed

section \<open>The header checksum\<close>

lemma ip_hl_less: "unat (ip_hl b) < 16"
proof -
  have "ip_hl b = take_bit 4 b" by (simp add: ip_hl_def take_bit_eq_mask mask_eq_exp_minus_1)
  then show ?thesis by (simp add: take_bit_eq_mod unat_mod)
qed

lemma host16_byteswap:
  "host16 c = [ucast (drop_bit 8 (byteswap16 c)), ucast (byteswap16 c)]"
proof -
  have "(ucast c :: u8) = ucast (drop_bit 8 (byteswap16 c))"
    by (rule bit_word_eqI) (auto simp: bit_simps bit_byteswap16)
  moreover have "(ucast (drop_bit 8 c) :: u8) = ucast (byteswap16 c)"
    by (rule bit_word_eqI) (auto simp: bit_simps bit_byteswap16)
  ultimately show ?thesis by (simp add: host16_def)
qed

lemma unat_ip_hl16: "unat (ucast (ip_hl b) * 4 :: u16) = unat (ip_hl b) * 4"
  using ip_hl_less [of b] by (simp add: unat_word_ariths)

lemma cleared_header:
  assumes "length hdr = n" "20 \<le> n" "n < 65536" "length safety = 65536"
  shows "\<exists>s1 s2. wrn safety 0 hdr = Inr s1 \<and> clear16 s1 10 = Inr s2 \<and> rd8 s2 0 = Inr (hdr ! 0) \<and>
    n \<le> length s2 \<and> take n s2 = take 10 hdr @ [0, 0] @ drop 12 hdr"
proof -
  define s1 where "s1 = hdr @ drop n safety"
  define s2 where "s2 = take 10 s1 @ [0, 0] @ drop 12 s1"
  have l: "length s1 = 65536" using assms unfolding s1_def by simp
  have "wrn safety 0 hdr = Inr s1" using assms by (simp add: wrn_def s1_def)
  moreover have "clear16 s1 10 = Inr s2" using l by (simp add: clear16_def wrn_def s2_def)
  moreover define x where "x = take 10 hdr @ [0, 0] @ drop 12 hdr"
  have s2: "s2 = x @ drop n safety" using assms unfolding s2_def s1_def x_def by simp
  have x: "length x = n" "x ! 0 = hdr ! 0" using assms unfolding x_def by (simp_all add: nth_append)
  moreover have "take n s2 = x" using x(1) unfolding s2 by simp
  moreover have "rd8 s2 0 = Inr (hdr ! 0)" "n \<le> length s2"
    using assms x unfolding s2 by (simp_all add: rd8_def nth_append)
  ultimately show ?thesis unfolding x_def by blast
qed

section \<open>Properties\<close>

text \<open>
  (C24) Walking over the options of an IP or TCP header. With one byte of memory behind the
  options area (the length byte of a last option is read before it is known to be there) a call
  never faults. While it reports another option, the current address and the bytes left keep
  describing the rest of the area, the bytes left shrink, and the data of the option lie between
  the old and the new address. So a caller that looks at all options reaches the end, after at
  most as many options as there are bytes.
\<close>

theorem options_walk:
  assumes "0 \<le> o_len v" "o_ptr v + nat (o_len v) < length m"
  shows "(\<exists>more v'. trace_get_next_option m v = Inr (more, v') \<and>
      (more \<longrightarrow> 0 \<le> o_len v' \<and> o_len v' < o_len v \<and>
         o_ptr v' + nat (o_len v') = o_ptr v + nat (o_len v) \<and>
         (\<exists>t. o_type v' = Val t \<and> (t \<noteq> 1 \<longrightarrow>
            (\<exists>l. o_optlen v' = Val l \<and> 2 \<le> unat l \<and> o_data v' = Val (o_ptr v + 2) \<and>
               o_ptr v + 2 + (unat l - 2) = o_ptr v'))))) \<and>
    (\<exists>ts. option_types m v = Inr ts \<and> length ts \<le> nat (o_len v))"
  using next_option_ok [OF assms] option_types_ok [OF assms] by blast

definition options_example :: opt_vars where
  "options_example = \<lparr>o_ptr = 0, o_len = 7, o_type = Undef, o_optlen = Undef, o_data = Undef\<rparr>"

theorem options_walk_witness:
  "\<exists>ts. option_types [1, 2, 4, 5, 180, 1, 0, 0] options_example = Inr ts \<and> length ts \<le> 7"
  using options_walk [of options_example "[1, 2, 4, 5, 180, 1, 0, 0]"]
  by (simp add: options_example_def)

lemma options_example_types: "option_types [1, 2, 4, 5, 180, 1, 0, 0] options_example = Inr [1, 2, 1]"
  by code_simp

text \<open>
  (C25) The checksum of an IPv4 header. For a well-formed packet with an IPv4 header of at least
  five words, the checksum that is returned is the one to store: the header with this number
  in its checksum field (most significant byte first) has the checksum zero. The address
  returned is that of the field. The packet itself is not modified.
\<close>

theorem checksum_layer3_correct:
  assumes "wf_packet fmt lt cap wire b packet" "frame_ok (p_mem packet) b lt (packet_bytes cap wire)"
    "length safety = 65536"
    "trace_get_layer3 fmt packet Undef = Inr (Some ip, Val TRACE_ETHERTYPE_IP, r, packet')" "20 \<le> unat r"
    "n = unat (ip_hl (p_mem packet ! ip)) * 4" "20 \<le> n" "hdr = take n (drop ip (p_mem packet))"
  shows "\<exists>c. trace_checksum_layer3 fmt safety packet = Inr (Some (ip + 10, c), packet') \<and>
    p_mem packet' = p_mem packet \<and>
    checksum_buffer (take 10 hdr @ [ucast (drop_bit 8 c), ucast c] @ drop 12 hdr) 0 (of_nat n) = Inr 0"
  using assms(1,2)
proof (cases rule: layer3_cases)
  case none
  then show ?thesis using assms(4) by simp
next
  case (some p t r' packet'')
  then have mem: "p_mem packet' = p_mem packet" and fits: "ip + 64 + 20 \<le> length (p_mem packet)"
    using assms(4,5) by auto
  have n: "n < 64" using ip_hl_less [of "p_mem packet ! ip"] assms(6) by simp
  then have hdr: "length hdr = n" "hdr ! 0 = p_mem packet ! ip" using fits assms(7,8) by simp_all
  have "n < 65536" using n by simp
  from cleared_header [OF hdr(1) assms(7) this assms(3)] obtain s1 s2 where
    s: "wrn safety 0 hdr = Inr s1" "clear16 s1 10 = Inr s2" "rd8 s2 0 = Inr (hdr ! 0)" "n \<le> length s2"
    "take n s2 = take 10 hdr @ [0, 0] @ drop 12 hdr" by blast
  let ?len = "ucast (ip_hl (p_mem packet ! ip)) * 4 :: u16"
  have len: "unat ?len = n" "?len = of_nat n" using assms(6) by (simp_all add: unat_ip_hl16 word_unat_eq_iff)
  have "even (length (take 10 hdr))" "n = length (take 10 hdr) + 2 + length (drop 12 hdr)" "n < 65536"
    using hdr assms(7) n by simp_all
  from checksum_store [OF this] obtain c where
    c: "checksum_buffer (take 10 hdr @ [0, 0] @ drop 12 hdr) 0 (of_nat n) = Inr c"
    "checksum_buffer (take 10 hdr @ host16 c @ drop 12 hdr) 0 (of_nat n) = Inr 0" by blast
  have "checksum_buffer s2 0 ?len = checksum_buffer (take n s2) 0 ?len"
    using checksum_take [of ?len s2] s(4) len(1) by simp
  then have "checksum_buffer s2 0 ?len = Inr c" using s(5) c(1) len(2) by simp
  moreover have "\<not> r < 20" using assms(5) by (simp add: word_less_nat_alt)
  ultimately have "trace_checksum_layer3 fmt safety packet = Inr (Some (ip + 10, byteswap16 c), packet')"
    using assms(4) mem s hdr fits n
    by (simp add: trace_checksum_layer3_def Let_def assms(6) [symmetric] assms(8) [symmetric] rdn_def)
  then show ?thesis using c(2) mem unfolding host16_byteswap by blast
qed

theorem checksum_layer3_correct_witness:
  "\<exists>c packet'. trace_checksum_layer3 (fixed_format TRACE_TYPE_ETH 46 46 0) (replicate 65536 0) vlan_packet =
     Inr (Some (28, c), packet')"
proof -
  from vlan_packet_layer3 obtain packet' where
    l: "trace_get_layer3 (fixed_format TRACE_TYPE_ETH 46 46 0) vlan_packet Undef =
      Inr (Some 18, Val TRACE_ETHERTYPE_IP, 28, packet')"
    by (auto split: sum.splits)
  have "20 = unat (ip_hl (p_mem vlan_packet ! 18)) * 4" by code_simp
  from checksum_layer3_correct [OF vlan_packet_wf eth_frame_ok _ l _ this, of "replicate 65536 0"]
  show ?thesis by auto
qed

text \<open>
  The IPv6 branch of \<open>trace_get_fragment_offset\<close> does not find fragment headers: \<open>payload = ip6++\<close>
  leaves \<open>payload\<close> at the IPv6 header and takes the next-header number from the bytes behind it.
  In this packet the fragment header follows directly and says offset 1480 and that more
  fragments follow; the code answers that it is not a fragment.
\<close>

definition ip6_fragment :: libtrace_packet where
  "ip6_fragment = trace_create_packet\<lparr>p_payload := Some 0,
     p_mem := replicate 12 0 @ [0x86, 0xDD] @
       [0x60, 0, 0, 0, 0, 16, TRACE_IPPROTO_FRAGMENT, 64] @ replicate 32 0xFE @
       [TRACE_IPPROTO_UDP, 0, 0x05, 0xC9, 0x11, 0x22, 0x33, 0x44] @ [1, 2, 3, 4, 5, 6, 7, 8] @ replicate 64 0\<rparr>"

lemma ip6_fragment_missed:
  "case trace_get_fragment_offset (fixed_format TRACE_TYPE_ETH 70 70 0) ip6_fragment of
     Inr (off, mf, _) \<Rightarrow> off = 0 \<and> \<not> mf | Inl _ \<Rightarrow> False"
  by code_simp

end
