(* ===== verification/Proto_Transport.thy ===== *)
theory Proto_Transport
  imports Proto_L3_Access
begin

text \<open>
  The transport layer, \<open>lib/protocols_transport.c\<close> and \<open>lib/protocols_application.c\<close>: the cached
  access to the transport header, TCP, UDP, ICMP, GRE and VXLAN headers, port numbers, the length
  of the payload and the transport checksum.
\<close>

section \<open>The transport header of a packet\<close>

definition with_transport :: "ptr option \<Rightarrow> u8 outp \<Rightarrow> u32 \<Rightarrow> libtrace_packet \<Rightarrow> libtrace_packet" where
  "with_transport h proto r packet =
     packet\<lparr>p_transport_proto := proto, p_l4_header := h, p_l4_remaining := r\<rparr>"

definition transport_of_layer3 :: "pktmem \<Rightarrow> ptr \<Rightarrow> u16 \<Rightarrow> u8 outp \<Rightarrow> u32 option \<Rightarrow> u8 outp decoded" where
  "transport_of_layer3 m p type proto remaining =
     (if type = TRACE_ETHERTYPE_IP then
        bindr (trace_get_payload_from_ip m p proto remaining) (\<lambda>(transport, proto, remaining).
          case transport of
            None \<Rightarrow> Inr (None, proto, remaining)
          | Some p' \<Rightarrow> bindr (get proto) (\<lambda>pr.
              if pr = TRACE_IPPROTO_IPV6 then trace_get_payload_from_ip6 m p' proto remaining
              else Inr (Some p', proto, remaining)))
      else if type = TRACE_ETHERTYPE_IPV6 then trace_get_payload_from_ip6 m p proto remaining
      else Inr (None, Val 0, remaining))"

text \<open>The protocol of the result is cached even if there is no transport header.\<close>

definition trace_get_transport ::
  "libtrace_format \<Rightarrow> libtrace_packet \<Rightarrow> u8 outp \<Rightarrow> (ptr option \<times> u8 outp \<times> u32 \<times> libtrace_packet) res" where
  "trace_get_transport fmt packet proto =
     (let proto = (if proto = NoPtr then Undef else proto) in
      case p_l4_header packet of
        Some h \<Rightarrow> Inr (Some h, p_transport_proto packet, p_l4_remaining packet, packet)
      | None \<Rightarrow>
          bindr (trace_get_layer3 fmt packet Undef) (\<lambda>(transport, ethertype, remaining, packet).
            case transport of None \<Rightarrow> Inr (None, proto, remaining, packet)
            | Some p \<Rightarrow>
                if remaining = 0 then Inr (None, proto, remaining, packet)
                else bindr (get ethertype) (\<lambda>type.
                  bindr (transport_of_layer3 (p_mem packet) p type proto (Some remaining))
                    (\<lambda>(transport, proto, rem).
                    case rem of None \<Rightarrow> Inl NullDeref
                    | Some remaining \<Rightarrow>
                        Inr (transport, proto, remaining, with_transport transport proto remaining packet)))))"

text \<open>The accessors for one protocol want a complete header of a given size.\<close>

definition get_header ::
  "u8 \<Rightarrow> u32 \<Rightarrow> libtrace_format \<Rightarrow> libtrace_packet \<Rightarrow> (ptr option \<times> libtrace_packet) res" where
  "get_header wanted sz fmt packet =
     bindr (trace_get_transport fmt packet Undef) (\<lambda>(h, proto, rem, packet).
       case h of None \<Rightarrow> Inr (None, packet)
       | Some p \<Rightarrow> bindr (get proto) (\<lambda>pr.
           if pr \<noteq> wanted then Inr (None, packet)
           else if rem < sz then Inr (None, packet)
           else Inr (Some p, packet)))"

definition trace_get_tcp :: "libtrace_format \<Rightarrow> libtrace_packet \<Rightarrow> (ptr option \<times> libtrace_packet) res" where
  "trace_get_tcp = get_header TRACE_IPPROTO_TCP 20"

definition trace_get_udp :: "libtrace_format \<Rightarrow> libtrace_packet \<Rightarrow> (ptr option \<times> libtrace_packet) res" where
  "trace_get_udp = get_header TRACE_IPPROTO_UDP 8"

definition trace_get_icmp :: "libtrace_format \<Rightarrow> libtrace_packet \<Rightarrow> (ptr option \<times> libtrace_packet) res" where
  "trace_get_icmp = get_header TRACE_IPPROTO_ICMP 8"

definition trace_get_icmp6 :: "libtrace_format \<Rightarrow> libtrace_packet \<Rightarrow> (ptr option \<times> libtrace_packet) res" where
  "trace_get_icmp6 = get_header TRACE_IPPROTO_ICMPV6 8"

definition from_ip :: "u8 \<Rightarrow> pktmem \<Rightarrow> ptr \<Rightarrow> u32 option \<Rightarrow> u8 outp decoded" where
  "from_ip wanted m ip remaining =
     bindr (rd8 m (ip + 9)) (\<lambda>ip_p.
       if ip_p = wanted then trace_get_payload_from_ip m ip NoPtr remaining
       else Inr (None, NoPtr, remaining))"

definition trace_get_tcp_from_ip :: "pktmem \<Rightarrow> ptr \<Rightarrow> u32 option \<Rightarrow> u8 outp decoded" where
  "trace_get_tcp_from_ip = from_ip TRACE_IPPROTO_TCP"

definition trace_get_udp_from_ip :: "pktmem \<Rightarrow> ptr \<Rightarrow> u32 option \<Rightarrow> u8 outp decoded" where
  "trace_get_udp_from_ip = from_ip TRACE_IPPROTO_UDP"

definition trace_get_icmp_from_ip :: "pktmem \<Rightarrow> ptr \<Rightarrow> u32 option \<Rightarrow> u8 outp decoded" where
  "trace_get_icmp_from_ip = from_ip TRACE_IPPROTO_ICMP"

section \<open>Payload of transport headers\<close>

definition trace_get_payload_from_udp :: "pktmem \<Rightarrow> ptr \<Rightarrow> u32 option \<Rightarrow> unit decoded" where
  "trace_get_payload_from_udp m udp remaining =
     (case take_header 8 remaining of
        None \<Rightarrow> Inr (None, (), Some 0) | Some remaining \<Rightarrow> Inr (Some (udp + 8), (), remaining))"

text \<open>The length of a TCP header in words is the high half of byte 12.\<close>

definition tcp_doff :: "u8 \<Rightarrow> u8" where
  "tcp_doff b = drop_bit 4 b"

definition trace_get_payload_from_tcp :: "pktmem \<Rightarrow> ptr \<Rightarrow> u32 option \<Rightarrow> unit decoded" where
  "trace_get_payload_from_tcp m tcp remaining =
     bindr (rd8 m (tcp + 12)) (\<lambda>b.
       let dlen = (ucast (tcp_doff b) * 4 :: u32) in
       (case take_header dlen remaining of
          None \<Rightarrow> Inr (None, (), Some 0) | Some remaining \<Rightarrow> Inr (Some (tcp + unat dlen), (), remaining)))"

definition trace_get_payload_from_icmp :: "pktmem \<Rightarrow> ptr \<Rightarrow> u32 option \<Rightarrow> unit decoded" where
  "trace_get_payload_from_icmp m icmp remaining =
     (case take_header 8 remaining of
        None \<Rightarrow> Inr (None, (), Some 0) | Some remaining \<Rightarrow> Inr (Some (icmp + 8), (), remaining))"

definition trace_get_payload_from_icmp6 :: "pktmem \<Rightarrow> ptr \<Rightarrow> u32 option \<Rightarrow> unit decoded" where
  "trace_get_payload_from_icmp6 m icmp remaining =
     (case take_header 8 remaining of
        None \<Rightarrow> Inr (None, (), Some 0) | Some remaining \<Rightarrow> Inr (Some (icmp + 8), (), remaining))"

definition LIBTRACE_GRE_FLAG_CHECKSUM :: u16 where "LIBTRACE_GRE_FLAG_CHECKSUM = 0x8000"
definition LIBTRACE_GRE_FLAG_KEY :: u16 where "LIBTRACE_GRE_FLAG_KEY = 0x2000"
definition LIBTRACE_GRE_FLAG_SEQ :: u16 where "LIBTRACE_GRE_FLAG_SEQ = 0x1000"

definition gre_size :: "u16 \<Rightarrow> u32" where
  "gre_size flags = 4 +
     (if flags AND LIBTRACE_GRE_FLAG_CHECKSUM \<noteq> 0 then 4 else 0) +
     (if flags AND LIBTRACE_GRE_FLAG_KEY \<noteq> 0 then 4 else 0) +
     (if flags AND LIBTRACE_GRE_FLAG_SEQ \<noteq> 0 then 4 else 0)"

definition trace_get_payload_from_gre :: "pktmem \<Rightarrow> ptr \<Rightarrow> u32 option \<Rightarrow> unit decoded" where
  "trace_get_payload_from_gre m gre remaining =
     (if (case remaining of None \<Rightarrow> False | Some r \<Rightarrow> r < 4) then Inr (None, (), Some 0)
      else bindr (rd16 m gre) (\<lambda>flags.
        (case take_header (gre_size flags) remaining of
           None \<Rightarrow> Inr (None, (), Some 0)
         | Some remaining \<Rightarrow> Inr (Some (gre + unat (gre_size flags)), (), remaining))))"

definition trace_get_payload_from_vxlan :: "pktmem \<Rightarrow> ptr \<Rightarrow> u32 option \<Rightarrow> unit decoded" where
  "trace_get_payload_from_vxlan m vxlan remaining =
     (case take_header 8 remaining of
        None \<Rightarrow> Inr (None, (), Some 0) | Some remaining \<Rightarrow> Inr (Some (vxlan + 8), (), remaining))"

definition trace_get_vxlan_from_udp :: "pktmem \<Rightarrow> ptr \<Rightarrow> u32 option \<Rightarrow> unit decoded" where
  "trace_get_vxlan_from_udp m udp remaining =
     bindr (rd16 m (udp + 2)) (\<lambda>dest.
       if dest \<noteq> 4789 then Inr (None, (), remaining) else trace_get_payload_from_udp m udp remaining)"

section \<open>Port numbers\<close>

definition get_port :: "u32 \<Rightarrow> nat \<Rightarrow> libtrace_format \<Rightarrow> libtrace_packet \<Rightarrow> (u16 \<times> libtrace_packet) res" where
  "get_port needed off fmt packet =
     bindr (trace_get_fragment_offset fmt packet) (\<lambda>(fragoff, _, packet).
       if fragoff \<noteq> 0 then Inr (0, packet)
       else bindr (trace_get_transport fmt packet Undef) (\<lambda>(port, proto, remaining, packet).
         if remaining < needed then Inr (0, packet)
         else bindr (get proto) (\<lambda>pr.
           if pr = TRACE_IPPROTO_ICMP \<or> pr = TRACE_IPPROTO_ICMPV6 then Inr (0, packet)
           else (case port of None \<Rightarrow> Inr (0, packet)
                 | Some p \<Rightarrow> bindr (rd16 (p_mem packet) (p + off)) (\<lambda>w. Inr (w, packet))))))"

definition trace_get_source_port :: "libtrace_format \<Rightarrow> libtrace_packet \<Rightarrow> (u16 \<times> libtrace_packet) res" where
  "trace_get_source_port = get_port 2 0"

definition trace_get_destination_port :: "libtrace_format \<Rightarrow> libtrace_packet \<Rightarrow> (u16 \<times> libtrace_packet) res" where
  "trace_get_destination_port = get_port 4 2"

section \<open>Length of the payload\<close>

text \<open>
  The length is a 64-bit unsigned number; the subtraction of the header length from the total
  length of an IPv4 packet is done in \<open>int\<close> and converted. \<open>None\<close>: the code returns 0.
\<close>

definition l3_payload_len :: "pktmem \<Rightarrow> ptr \<Rightarrow> u16 \<Rightarrow> u32 \<Rightarrow> size_t option res" where
  "l3_payload_len m p type rem =
     (if type = TRACE_ETHERTYPE_IP then
        if rem < 20 then Inr None
        else bindr (rd16 m (p + 2)) (\<lambda>ip_len. bindr (rd8 m p) (\<lambda>b0. bindr (rd8 m (p + 9)) (\<lambda>ip_p.
          let len = of_int (int (unat ip_len) - 4 * int (unat (ip_hl b0))) in
          Inr (Some (if ip_p = TRACE_IPPROTO_IPV6 then len - 40 else len)))))
      else if type = TRACE_ETHERTYPE_IPV6 then
        if rem < 40 then Inr None
        else bindr (rd16 m (p + 4)) (\<lambda>plen. Inr (Some (ucast plen)))
      else Inr None)"

definition l4_payload_len :: "pktmem \<Rightarrow> ptr \<Rightarrow> u8 \<Rightarrow> u32 \<Rightarrow> size_t \<Rightarrow> size_t option res" where
  "l4_payload_len m p proto rem len =
     (if proto = TRACE_IPPROTO_TCP then
        if rem < 20 then Inr None
        else bindr (rd8 m (p + 12)) (\<lambda>b.
          let dlen = ucast (tcp_doff b) * 4 in if len < dlen then Inr None else Inr (Some (len - dlen)))
      else if proto = TRACE_IPPROTO_UDP \<or> proto = TRACE_IPPROTO_ICMP \<or> proto = TRACE_IPPROTO_ICMPV6 then
        if rem < 8 then Inr None else if len < 8 then Inr None else Inr (Some (len - 8))
      else Inr None)"

definition trace_get_payload_length :: "libtrace_format \<Rightarrow> libtrace_packet \<Rightarrow> (size_t \<times> libtrace_packet) res" where
  "trace_get_payload_length fmt packet =
     (if p_payload_length packet \<noteq> - 1 then Inr (scast (p_payload_length packet), packet)
      else let packet = packet\<lparr>p_payload_length := 0\<rparr> in
        bindr (trace_get_layer3 fmt packet Undef) (\<lambda>(layer, ethertype, rem, packet).
          case layer of None \<Rightarrow> Inr (0, packet)
          | Some p \<Rightarrow>
              bindr (get ethertype) (\<lambda>type.
              bindr (l3_payload_len (p_mem packet) p type rem) (\<lambda>len.
                case len of None \<Rightarrow> Inr (0, packet)
                | Some len \<Rightarrow>
                    bindr (trace_get_transport fmt packet Undef) (\<lambda>(layer, proto, rem, packet).
                      case layer of None \<Rightarrow> Inr (0, packet)
                      | Some p \<Rightarrow>
                          bindr (get proto) (\<lambda>proto.
                          bindr (l4_payload_len (p_mem packet) p proto rem len) (\<lambda>len.
                            case len of None \<Rightarrow> Inr (0, packet)
                            | Some len \<Rightarrow> Inr (len, packet\<lparr>p_payload_length := ucast len\<rparr>))))))))"

section \<open>Transport checksum\<close>

text \<open>
  The header is copied to a buffer of 65536 bytes (whatever that holds), its checksum field is
  cleared there, and the sums of the pseudo-header, of the copy and of the payload are added. The
  copy happens before the result of the payload decoder is looked at. The length of a TCP header
  is read again from the copy.
\<close>

definition hdr_copy :: "pktmem \<Rightarrow> pktmem \<Rightarrow> ptr \<Rightarrow> nat \<Rightarrow> nat \<Rightarrow> pktmem res" where
  "hdr_copy safety m p n off =
     bindr (rdn m p n) (\<lambda>hdr. bindr (wrn safety 0 hdr) (\<lambda>safety. clear16 safety off))"

definition pseudo_sum :: "pktmem \<Rightarrow> ptr \<Rightarrow> u16 \<Rightarrow> u32 \<Rightarrow> u32 option res" where
  "pseudo_sum m p type remaining =
     (if type = TRACE_ETHERTYPE_IP then
        if remaining < 20 then Inr None
        else bindr (ipv4_pseudo_checksum m p) (\<lambda>s. Inr (Some s))
      else if type = TRACE_ETHERTYPE_IPV6 then
        if remaining < 40 then Inr None
        else bindr (ipv6_pseudo_checksum m p) (\<lambda>s. Inr (Some s))
      else Inr (Some 0))"

text \<open>
  The part for one protocol: the address behind the header, the bytes left, the offset of the
  checksum field and the sum so far. \<open>None\<close>: a protocol without support.
\<close>

definition transport_sum ::
  "pktmem \<Rightarrow> pktmem \<Rightarrow> ptr \<Rightarrow> u8 \<Rightarrow> u32 \<Rightarrow> u32 \<Rightarrow> (ptr option \<times> u32 \<times> ptr \<times> u32) option res" where
  "transport_sum safety m p proto remaining acc =
     (if proto = TRACE_IPPROTO_TCP then
        bindr (trace_get_payload_from_tcp m p (Some remaining)) (\<lambda>(header, _, rem).
        bindr (rd8 m (p + 12)) (\<lambda>b.
        bindr (hdr_copy safety m p (unat (tcp_doff b) * 4) 16) (\<lambda>safety.
        bindr (rd8 safety 12) (\<lambda>b.
        bindr (add_checksum safety 0 (ucast (tcp_doff b) * 4)) (\<lambda>s.
          case rem of None \<Rightarrow> Inl NullDeref
          | Some remaining \<Rightarrow> Inr (Some (header, remaining, p + 16, acc + s)))))))
      else if proto = TRACE_IPPROTO_UDP then
        bindr (trace_get_payload_from_udp m p (Some remaining)) (\<lambda>(header, _, rem).
        bindr (hdr_copy safety m p 8 6) (\<lambda>safety. bindr (add_checksum safety 0 8) (\<lambda>s.
          case rem of None \<Rightarrow> Inl NullDeref
          | Some remaining \<Rightarrow> Inr (Some (header, remaining, p + 6, acc + s)))))
      else if proto = TRACE_IPPROTO_ICMP then
        bindr (trace_get_payload_from_icmp m p (Some remaining)) (\<lambda>(header, _, rem).
        bindr (hdr_copy safety m p 8 2) (\<lambda>safety. bindr (add_checksum safety 0 8) (\<lambda>s.
          case rem of None \<Rightarrow> Inl NullDeref
          | Some remaining \<Rightarrow> Inr (Some (header, remaining, p + 2, s)))))
      else Inr None)"

text \<open>
  A transport protocol that is known but has no header (\<open>NULL\<close>) is a null pointer in the code. The
  length of the payload is converted from \<open>size_t\<close> to \<open>int\<close>.
\<close>

definition trace_checksum_transport ::
  "libtrace_format \<Rightarrow> pktmem \<Rightarrow> libtrace_packet \<Rightarrow> ((ptr \<times> u16) option \<times> libtrace_packet) res" where
  "trace_checksum_transport fmt safety packet =
     bindr (trace_get_layer3 fmt packet Undef) (\<lambda>(header, ethertype, remaining, packet).
       case header of None \<Rightarrow> Inr (None, packet)
       | Some ip \<Rightarrow>
           bindr (get ethertype) (\<lambda>type.
           bindr (pseudo_sum (p_mem packet) ip type remaining) (\<lambda>acc.
             case acc of None \<Rightarrow> Inr (None, packet)
             | Some acc \<Rightarrow>
                 bindr (trace_get_transport fmt packet (Val 0)) (\<lambda>(header, proto, remaining, packet).
                 bindr (get proto) (\<lambda>proto.
                 bindr (at_ptr (\<lambda>m p. transport_sum safety m p proto remaining acc) (p_mem packet) header) (\<lambda>part.
                   case part of None \<Rightarrow> Inr (None, packet)
                   | Some (header, remaining, csum_ptr, acc) \<Rightarrow>
                       bindr (trace_get_payload_length fmt packet) (\<lambda>(len, packet).
                         let plen = (ucast len :: c_int) in
                         if sint plen < 0 then Inr (None, packet)
                         else if remaining < plen then Inr (None, packet)
                         else (case header of None \<Rightarrow> Inr (None, packet)
                           | Some p \<Rightarrow>
                               bindr (add_checksum (p_mem packet) p (ucast plen)) (\<lambda>s.
                                 Inr (Some (csum_ptr, byteswap16 (finish_checksum (acc + s))), packet))))))))))"

section \<open>The decoders keep their contracts\<close>

interpretation udp: fixed_header trace_get_payload_from_udp 8
  by unfold_locales (auto simp: trace_get_payload_from_udp_def l2_fixed)

interpretation icmp: fixed_header trace_get_payload_from_icmp 8
  by unfold_locales (auto simp: trace_get_payload_from_icmp_def l2_fixed)

interpretation icmp6: fixed_header trace_get_payload_from_icmp6 8
  by unfold_locales (auto simp: trace_get_payload_from_icmp6_def l2_fixed)

interpretation vxlan: fixed_header trace_get_payload_from_vxlan 8
  by unfold_locales (auto simp: trace_get_payload_from_vxlan_def l2_fixed)

interpretation tcp: header_decoder trace_get_payload_from_tcp 13
  by unfold_locales (auto simp: trace_get_payload_from_tcp_def l2_fixed Let_def)

lemma gre_size_ge: "4 \<le> unat (gre_size flags)"
  by (simp add: gre_size_def)

interpretation gre: header_decoder trace_get_payload_from_gre 0
proof
  fix p :: ptr and r :: u32 and m :: pktmem
  assume "p + unat r + 0 \<le> length m"
  then show "decodes p r (trace_get_payload_from_gre m p (Some r))"
    using gre_size_ge [of "be16 (m ! p) (m ! (p + 1))"]
    by (auto simp: trace_get_payload_from_gre_def l2_fixed)
qed

interpretation transport: header_decoder "\<lambda>m p. transport_of_layer3 m p type Undef" 10 for type
proof
  fix p :: ptr and r :: u32 and m :: pktmem
  assume fits: "p + unat r + 10 \<le> length m"
  then have fits7: "p + unat r + 7 \<le> length m" by simp
  show "decodes p r (transport_of_layer3 m p type Undef (Some r))"
  proof (cases "type = TRACE_ETHERTYPE_IP")
    case True
    have "\<exists>t. x = Val t" if "trace_get_payload_from_ip m p Undef (Some r) = Inr (Some q, x, rem)" for q x rem
      using that by (auto simp: trace_get_payload_from_ip_def put_opt_def bindr_eq_Inr split: if_splits option.splits)
    then show ?thesis unfolding transport_of_layer3_def True
      using fits by (auto intro!: decodes_then [OF ip.decodes [OF fits]] ip6.decodes)
  next
    case False
    then show ?thesis using ip6.decodes [OF fits7] by (simp add: transport_of_layer3_def)
  qed
qed

lemma ip_out:
  "trace_get_payload_from_ip m p et rem = Inr (Some q, x, rem') \<Longrightarrow> et \<noteq> NoPtr \<Longrightarrow> \<exists>t. x = Val t"
  by (auto simp: trace_get_payload_from_ip_def put_opt_def bindr_eq_Inr split: if_splits option.splits)

lemma ip6_loop_out:
  assumes "ip6_payload_loop m p nxt et rem = Inr (Some q, x, rem')" "et \<noteq> NoPtr"
  shows "\<exists>t. x = Val t"
  using assms
proof (induction "length m - p" arbitrary: p nxt rem rule: less_induct)
  case less
  have step: "\<exists>t. x = Val t" if "ip6_payload_loop m (p + n) nxt' et rem1 = Inr (Some q, x, rem')"
    "0 < n" "rd8 m p = Inr c" for n nxt' rem1 c
    using less.hyps [of "p + n"] that less.prems(2) by (auto simp: rd8_eq_Inr)
  have len: "0 < unat (ip6_ext_len l)" for l by simp
  from less.prems show ?case
    by (subst (asm) ip6_payload_loop.simps)
      (auto simp: put_opt_def bindr_eq_Inr simp del: unat_ip6_ext_len
        dest: step [OF _ len] step [of 8, simplified] split: if_splits option.splits)
qed

lemma ip6_out:
  "trace_get_payload_from_ip6 m p et rem = Inr (Some q, x, rem') \<Longrightarrow> et \<noteq> NoPtr \<Longrightarrow> \<exists>t. x = Val t"
  by (auto simp: trace_get_payload_from_ip6_def bindr_eq_Inr dest: ip6_loop_out split: option.splits)

lemma transport_out:
  assumes "transport_of_layer3 m p type Undef (Some r) = Inr (Some q, x, rem)"
  shows "\<exists>t. x = Val t"
  using assms
  by (auto simp: transport_of_layer3_def bindr_eq_Inr dest: ip_out ip6_out split: if_splits option.splits)

lemma wf_caches:
  assumes "wf_packet fmt lt cap wire b packet"
    "trace_clear_cache packet' = trace_clear_cache packet" "p_link_type packet' = p_link_type packet"
    "p_capture_length packet' = p_capture_length packet" "p_wire_length packet' = p_wire_length packet"
    "p_l2_header packet' = p_l2_header packet" "p_l2_remaining packet' = p_l2_remaining packet"
    "p_l3_header packet' = p_l3_header packet" "p_l3_remaining packet' = p_l3_remaining packet"
    "\<And>p. p_l4_header packet' = Some p \<Longrightarrow> (\<exists>proto. p_transport_proto packet' = Val proto) \<and>
       in_capture b (packet_bytes cap wire) p (p_l4_remaining packet')"
  shows "wf_packet fmt lt cap wire b packet'"
proof -
  have d: "described fmt packet lt cap wire" using assms(1) by (simp add: wf_packet_def)
  then have "cached_ok lt cap wire packet" unfolding described_def by blast
  then have "described fmt packet' lt cap wire"
    using assms(2-5) by (intro described_upd [OF d]) (simp_all add: cached_ok_def)
  moreover have "p_mem packet' = p_mem packet" "p_payload packet' = p_payload packet"
    using assms(2) by (metis clear_cache_keeps(1)) (metis clear_cache_keeps(3) assms(2))
  ultimately show ?thesis using assms unfolding wf_packet_def by simp
qed

lemma transport_cases:
  assumes w: "wf_packet fmt lt cap wire b packet"
    and ok: "frame_ok (p_mem packet) b lt (packet_bytes cap wire)"
  obtains (no_header) proto r packet' where "trace_get_transport fmt packet Undef = Inr (None, proto, r, packet')"
      "wf_packet fmt lt cap wire b packet'" "trace_clear_cache packet' = trace_clear_cache packet"
      "p_payload_length packet' = p_payload_length packet" "p_l4_header packet' = None"
    | (header) p proto r packet' where
      "trace_get_transport fmt packet Undef = Inr (Some p, Val proto, r, packet')"
      "wf_packet fmt lt cap wire b packet'" "trace_clear_cache packet' = trace_clear_cache packet"
      "in_capture b (packet_bytes cap wire) p r" "p + unat r + 64 \<le> length (p_mem packet)"
      "p_l4_header packet' = Some p" "p_l4_remaining packet' = r" "p_transport_proto packet' = Val proto"
      "p_payload_length packet' = p_payload_length packet"
proof (cases "p_l4_header packet")
  case (Some p)
  then obtain proto where "p_transport_proto packet = Val proto"
    "in_capture b (packet_bytes cap wire) p (p_l4_remaining packet)"
    using w by (auto simp: wf_packet_def)
  moreover from this have "p + unat (p_l4_remaining packet) + 64 \<le> length (p_mem packet)"
    using w by (simp add: wf_packet_def in_capture_def lookahead_def)
  ultimately show thesis
    using Some w by (intro header [of p proto "p_l4_remaining packet" packet])
      (simp_all add: trace_get_transport_def)
next
  case n4: None
  from w ok show thesis
  proof (cases rule: layer3_cases)
    case (none et r packet')
    then show thesis using n4
      by (intro no_header [of Undef r packet']) (simp_all add: trace_get_transport_def)
  next
    case (some p t r packet')
    have fits: "p + unat r + 10 \<le> length (p_mem packet)" using some by simp
    have r: "r \<noteq> 0" using some by auto
    from transport.decodes [OF fits, of t] show thesis
    proof (cases rule: decodesE)
      case (null x r')
      let ?pk = "with_transport None x r' packet'"
      have "wf_packet fmt lt cap wire b ?pk"
        using some(2) by (rule wf_caches) (simp_all add: with_transport_def)
      then show ?thesis using some n4 null r
        by (intro no_header [of x r' ?pk]) (simp_all add: trace_get_transport_def with_transport_def)
    next
      case (next_header p' x r')
      obtain proto where x: "x = Val proto" using transport_out [OF next_header(1)] by blast
      let ?pk = "with_transport (Some p') x r' packet'"
      have c: "in_capture b (packet_bytes cap wire) p' r'"
        using some next_header by (simp add: in_capture_def)
      have "wf_packet fmt lt cap wire b ?pk"
        using some(2) by (rule wf_caches) (use c x in \<open>simp_all add: with_transport_def\<close>)
      moreover have "p' + unat r' + 64 \<le> length (p_mem packet)" using some next_header by simp
      ultimately show ?thesis using some n4 next_header r c x
        by (intro header [of p' proto r' ?pk]) (simp_all add: trace_get_transport_def with_transport_def)
    qed
  qed
qed

lemma get_header_ok:
  assumes "wf_packet fmt lt cap wire b packet" "frame_ok (p_mem packet) b lt (packet_bytes cap wire)"
  shows "\<exists>h packet'. get_header wanted sz fmt packet = Inr (h, packet') \<and>
    wf_packet fmt lt cap wire b packet' \<and> p_mem packet' = p_mem packet \<and>
    (\<forall>p. h = Some p \<longrightarrow> b \<le> p \<and> p + unat sz \<le> b + packet_bytes cap wire)"
  using assms
proof (cases rule: transport_cases)
  case (no_header proto r packet')
  have "p_mem packet' = p_mem packet" using no_header(3) by (metis clear_cache_keeps(1))
  then show ?thesis using no_header by (auto simp: get_header_def)
next
  case (header p proto r packet')
  have "p_mem packet' = p_mem packet" using header(3) by (metis clear_cache_keeps(1))
  then show ?thesis using header by (auto simp: get_header_def in_capture_def word_less_nat_alt)
qed

lemma capture_length_wf:
  assumes "wf_packet fmt lt cap wire b packet"
  shows "\<exists>n packet'. trace_get_capture_length fmt packet = Inr (n, packet') \<and>
    wf_packet fmt lt cap wire b packet' \<and> p_mem packet' = p_mem packet"
proof -
  have d: "described fmt packet lt cap wire" using assms by (simp add: wf_packet_def)
  then have "cached_ok lt cap wire packet" unfolding described_def by blast
  then have "described fmt (packet\<lparr>p_capture_length := of_nat cap\<rparr>) lt cap wire"
    by (intro described_upd [OF d]) (simp_all add: cached_ok_def)
  then show ?thesis
    using assms get_capture_length_described [OF d] by (auto simp: wf_packet_def)
qed

lemma get_ip_ok:
  assumes w: "wf_packet fmt lt cap wire b packet"
    and ok: "frame_ok (p_mem packet) b lt (packet_bytes cap wire)"
  shows "\<exists>h packet'. trace_get_ip fmt packet = Inr (h, packet') \<and> wf_packet fmt lt cap wire b packet' \<and>
      p_mem packet' = p_mem packet \<and>
      (\<forall>p. h = Some p \<longrightarrow> b \<le> p \<and> p + 20 \<le> b + packet_bytes cap wire \<and> ip_v (p_mem packet ! p) = 4)"
    "\<exists>h packet'. trace_get_ip6 fmt packet = Inr (h, packet') \<and> wf_packet fmt lt cap wire b packet' \<and>
      p_mem packet' = p_mem packet \<and> (\<forall>p. h = Some p \<longrightarrow> b \<le> p \<and> p + 40 \<le> b + packet_bytes cap wire)"
proof -
  from capture_length_wf [OF w] obtain n packet1 where
    c: "trace_get_capture_length fmt packet = Inr (n, packet1)" "wf_packet fmt lt cap wire b packet1"
    "p_mem packet1 = p_mem packet" by blast
  have ok1: "frame_ok (p_mem packet1) b lt (packet_bytes cap wire)" using ok c by simp
  from c(2) ok1 have "(\<exists>h packet'. trace_get_ip fmt packet = Inr (h, packet') \<and>
      wf_packet fmt lt cap wire b packet' \<and> p_mem packet' = p_mem packet \<and>
      (\<forall>p. h = Some p \<longrightarrow> b \<le> p \<and> p + 20 \<le> b + packet_bytes cap wire \<and> ip_v (p_mem packet ! p) = 4)) \<and>
    (\<exists>h packet'. trace_get_ip6 fmt packet = Inr (h, packet') \<and> wf_packet fmt lt cap wire b packet' \<and>
      p_mem packet' = p_mem packet \<and> (\<forall>p. h = Some p \<longrightarrow> b \<le> p \<and> p + 40 \<le> b + packet_bytes cap wire))"
  proof (cases rule: layer3_cases)
    case none
    then show ?thesis using c by (auto simp: trace_get_ip_def trace_get_ip6_def)
  next
    case (some p t r packet')
    then show ?thesis
      using c by (auto simp: trace_get_ip_def trace_get_ip6_def in_capture_def word_less_nat_alt)
  qed
  then show "\<exists>h packet'. trace_get_ip fmt packet = Inr (h, packet') \<and> wf_packet fmt lt cap wire b packet' \<and>
      p_mem packet' = p_mem packet \<and>
      (\<forall>p. h = Some p \<longrightarrow> b \<le> p \<and> p + 20 \<le> b + packet_bytes cap wire \<and> ip_v (p_mem packet ! p) = 4)"
    "\<exists>h packet'. trace_get_ip6 fmt packet = Inr (h, packet') \<and> wf_packet fmt lt cap wire b packet' \<and>
      p_mem packet' = p_mem packet \<and> (\<forall>p. h = Some p \<longrightarrow> b \<le> p \<and> p + 40 \<le> b + packet_bytes cap wire)"
    by blast+
qed

section \<open>The payload length\<close>

lemma tcp_doff_less: "unat (tcp_doff b) < 16"
proof -
  have "unat b < 256" using unsigned_less [of b, where 'a = nat] by simp
  then show ?thesis by (simp add: tcp_doff_def drop_bit_eq_div unat_div)
qed

lemma uint_tcp_doff: "uint (ucast (tcp_doff b) * 4 :: size_t) = 4 * int (unat (tcp_doff b))"
proof -
  have "unat (ucast (tcp_doff b) :: size_t) = unat (tcp_doff b)" by (rule unat_ucast_up) simp
  then have "unat (ucast (tcp_doff b) * 4 :: size_t) = unat (tcp_doff b) * 4"
    using tcp_doff_less [of b] by (simp add: unat_word_ariths)
  then have "int (unat (ucast (tcp_doff b) * 4 :: size_t)) = int (unat (tcp_doff b) * 4)" by (simp only:)
  then show ?thesis by simp
qed

lemma int_of_size: "(ucast (of_int k :: size_t) :: c_int) = of_int k"
  by (rule bit_word_eqI) (simp add: bit_simps)

lemma wrapped_less:
  fixes D :: size_t
  assumes "- 65536 < L" "L < 65536" "uint D < 65536"
  shows "of_int L < D \<longleftrightarrow> 0 \<le> L \<and> L < uint D"
proof (cases "0 \<le> L")
  case True
  then have "uint (of_int L :: size_t) = L" using assms by (simp add: uint_word_of_int_eq take_bit_int_eq_self)
  then show ?thesis using True by (simp add: word_less_alt)
next
  case False
  have "uint (of_int L :: size_t) = L mod 2 ^ 64" by (simp add: uint_word_of_int_eq take_bit_eq_mod)
  also have "\<dots> = L + 2 ^ 64"
  proof -
    have "L mod 2 ^ 64 = (L + 2 ^ 64) mod 2 ^ 64" by simp
    also have "\<dots> = L + 2 ^ 64" using False assms by (intro mod_pos_pos_trivial) simp_all
    finally show ?thesis .
  qed
  finally show ?thesis using False assms by (simp add: word_less_alt)
qed

section \<open>Properties\<close>



lemma vlan_packet_transport:
  "case trace_get_transport (fixed_format TRACE_TYPE_ETH 46 46 0) vlan_packet Undef of
     Inr (h, proto, r, _) \<Rightarrow> h = Some 38 \<and> proto = Val TRACE_IPPROTO_UDP \<and> r = 8 | Inl _ \<Rightarrow> False"
  by code_simp

text \<open>
  \<open>returns_complete accessor sz\<close>: the accessor does not fault and keeps the packet well-formed, and
  the \<open>sz\<close> bytes of a header that it returns are in the captured part of the packet.
\<close>

definition returns_complete :: "libtrace_format \<Rightarrow> libtrace_linktype \<Rightarrow> nat \<Rightarrow> int \<Rightarrow> ptr \<Rightarrow> libtrace_packet \<Rightarrow>
    (libtrace_format \<Rightarrow> libtrace_packet \<Rightarrow> (ptr option \<times> libtrace_packet) res) \<Rightarrow> nat \<Rightarrow> bool" where
  "returns_complete fmt lt cap wire b packet accessor sz \<longleftrightarrow>
     (\<exists>h packet'. accessor fmt packet = Inr (h, packet') \<and> wf_packet fmt lt cap wire b packet' \<and>
        p_mem packet' = p_mem packet \<and> (\<forall>p. h = Some p \<longrightarrow> b \<le> p \<and> p + sz \<le> b + packet_bytes cap wire))"



lemma vlan_packet_udp:
  "case trace_get_udp (fixed_format TRACE_TYPE_ETH 46 46 0) vlan_packet of
     Inr (h, _) \<Rightarrow> h = Some 38 | Inl _ \<Rightarrow> False"
  by code_simp

text \<open>
  (C26) The length of the payload of a TCP segment in an IPv4 packet: the total length less the
  lengths of the two headers; 0 when the TCP header does not fit into the total length. But when
  the total length of the packet is smaller than its header (it is 0 in packets captured from a
  card that segments for the host) the 64-bit length wraps around: the result is close to
  \<open>2 ^ 64\<close> instead of 0.
\<close>

theorem payload_length_tcp:
  assumes "p_payload_length packet = - 1"
    and l3: "trace_get_layer3 fmt (packet\<lparr>p_payload_length := 0\<rparr>) Undef = Inr (Some ip, Val TRACE_ETHERTYPE_IP, r, pk)"
      "20 \<le> unat r" "ip + 20 \<le> length (p_mem pk)" "p_mem pk ! (ip + 9) \<noteq> TRACE_IPPROTO_IPV6"
    and l4: "trace_get_transport fmt pk Undef = Inr (Some p, Val TRACE_IPPROTO_TCP, r4, pk')"
      "20 \<le> unat r4" "p + 20 \<le> length (p_mem pk')"
    and L: "L = int (unat (be16 (p_mem pk ! (ip + 2)) (p_mem pk ! (ip + 3)))) - 4 * int (unat (ip_hl (p_mem pk ! ip)))"
    and D: "D = 4 * int (unat (tcp_doff (p_mem pk' ! (p + 12))))"
  shows "trace_get_payload_length fmt packet =
    (if 0 \<le> L \<and> L < D then Inr (0, pk')
     else Inr (of_int (L - D), pk'\<lparr>p_payload_length := of_int (L - D)\<rparr>))"
proof -
  define w where "w = (ucast (tcp_doff (p_mem pk' ! (p + 12))) * 4 :: size_t)"
  have w: "uint w = D" unfolding w_def D by (rule uint_tcp_doff)
  then have wD: "w = of_int D" by auto
  have bounds: "- 65536 < L" "L < 65536" "uint w < 65536"
  proof -
    let ?t = "be16 (p_mem pk ! (ip + 2)) (p_mem pk ! (ip + 3))"
    have "unat ?t < 65536" "unat (ip_hl (p_mem pk ! ip)) < 16" "unat (tcp_doff (p_mem pk' ! (p + 12))) < 16"
      using unsigned_less [of ?t, where 'a = nat] ip_hl_less tcp_doff_less by simp_all
    then show "- 65536 < L" "L < 65536" "uint w < 65536" unfolding L w D by linarith+
  qed
  have e: "ip + 3 = ip + 2 + 1" by simp
  have "l3_payload_len (p_mem pk) ip TRACE_ETHERTYPE_IP r = Inr (Some (of_int L))"
    using l3 unfolding l3_payload_len_def L e
    by (simp add: word_less_nat_alt Let_def)
  moreover have "l4_payload_len (p_mem pk') p TRACE_IPPROTO_TCP r4 (of_int L) =
      Inr (if 0 \<le> L \<and> L < D then None else Some (of_int L - w))"
    using l4 wrapped_less [OF bounds] unfolding l4_payload_len_def w
    by (simp add: word_less_nat_alt Let_def w_def [symmetric])
  moreover have "of_int L - w = of_int (L - D)" unfolding wD by simp
  moreover have "(ucast (of_int (L - D) :: size_t) :: c_int) = of_int (L - D)"
    by (rule int_of_size)
  ultimately show ?thesis
    using assms(1) l3(1) l4(1) by (simp add: trace_get_payload_length_def Let_def)
qed

text \<open>A TCP segment whose IPv4 total length is 0.\<close>

definition tso_packet :: libtrace_packet where
  "tso_packet = trace_create_packet\<lparr>p_payload := Some 0,
     p_mem := [0x45, 0, 0, 0, 0, 0, 0, 0, 64, 6, 0, 0, 10, 0, 0, 1, 10, 0, 0, 2] @
       [0, 80, 0, 81, 0, 0, 0, 1, 0, 0, 0, 2, 0x50, 0, 0, 0, 0, 0, 0, 0] @ replicate 64 0\<rparr>"

lemma tso_packet_layers:
  "case trace_get_layer3 (fixed_format TRACE_TYPE_NONE 60 60 0) (tso_packet\<lparr>p_payload_length := 0\<rparr>) Undef of
      Inr (h, et, r, pk) \<Rightarrow> h = Some 0 \<and> et = Val TRACE_ETHERTYPE_IP \<and> r = 60 \<and> p_mem pk = p_mem tso_packet \<and>
        (case trace_get_transport (fixed_format TRACE_TYPE_NONE 60 60 0) pk Undef of
           Inr (h, proto, r, pk') \<Rightarrow> h = Some 20 \<and> proto = Val TRACE_IPPROTO_TCP \<and> r = 40 \<and> p_mem pk' = p_mem tso_packet
         | Inl _ \<Rightarrow> False)
    | Inl _ \<Rightarrow> False" by code_simp

lemma tso_packet_values:
  "p_payload_length tso_packet = - 1" "p_mem tso_packet ! (0 + 9) \<noteq> TRACE_IPPROTO_IPV6"
    "0 + 20 \<le> length (p_mem tso_packet)" "20 + 20 \<le> length (p_mem tso_packet)"
    "- 20 = int (unat (be16 (p_mem tso_packet ! (0 + 2)) (p_mem tso_packet ! (0 + 3)))) -
       4 * int (unat (ip_hl (p_mem tso_packet ! 0)))"
    "20 = 4 * int (unat (tcp_doff (p_mem tso_packet ! (20 + 12))))"
    "20 \<le> unat (60 :: u32)" "20 \<le> unat (40 :: u32)" by code_simp+

lemma case_Inr4:
  assumes "case x of Inr (a, b, c, d) \<Rightarrow> P a b c d | Inl _ \<Rightarrow> False"
  obtains a b c d where "x = Inr (a, b, c, d)" "P a b c d"
  using assms by (cases x) auto

theorem payload_length_tcp_witness:
  "\<exists>packet. trace_get_payload_length (fixed_format TRACE_TYPE_NONE 60 60 0) tso_packet = Inr (- 40, packet)"
proof -
  let ?fmt = "fixed_format TRACE_TYPE_NONE 60 60 0"
  obtain pk where l: "trace_get_layer3 ?fmt (tso_packet\<lparr>p_payload_length := 0\<rparr>) Undef =
      Inr (Some 0, Val TRACE_ETHERTYPE_IP, 60, pk)" and m: "p_mem pk = p_mem tso_packet"
    and t: "case trace_get_transport ?fmt pk Undef of Inr (h, proto, r, pk') \<Rightarrow> h = Some 20 \<and>
        proto = Val TRACE_IPPROTO_TCP \<and> r = 40 \<and> p_mem pk' = p_mem tso_packet | Inl _ \<Rightarrow> False"
    by (rule case_Inr4 [OF tso_packet_layers]) blast
  obtain pk' where l': "trace_get_transport ?fmt pk Undef = Inr (Some 20, Val TRACE_IPPROTO_TCP, 40, pk')"
    and m': "p_mem pk' = p_mem tso_packet"
    by (rule case_Inr4 [OF t]) blast
  note v = tso_packet_values
  have "trace_get_payload_length ?fmt tso_packet =
    (if 0 \<le> (- 20 :: int) \<and> (- 20 :: int) < 20 then Inr (0, pk')
     else Inr (of_int (- 20 - 20), pk'\<lparr>p_payload_length := of_int (- 20 - 20)\<rparr>))"
    by (rule payload_length_tcp [OF v(1) l v(7) _ _ l' v(8)]) (unfold m m', rule v(3), rule v(2), rule v(4), rule v(5), rule v(6))
  then show ?thesis by simp
qed

text \<open>
  An unknown link type: the variable for the protocol was never written, but the ports are decided
  on it.
\<close>

lemma port_uninitialised:
  "trace_get_source_port (fixed_format TRACE_TYPE_UNKNOWN 20 20 0)
     (trace_create_packet\<lparr>p_payload := Some 0, p_mem := replicate 20 0\<rparr>) = Inl Uninitialised"
  by code_simp

text \<open>The second fragment of an IPv6 packet: its payload is taken for port numbers.\<close>

lemma ip6_fragment_port:
  "case trace_get_source_port (fixed_format TRACE_TYPE_ETH 70 70 0) ip6_fragment of
     Inr (port, _) \<Rightarrow> port = 0x0102 | Inl _ \<Rightarrow> False"
  by code_simp

end
