(* ===== verification/Toeplitz_Packet.thy ===== *)
theory Toeplitz_Packet
  imports Toeplitz Proto_Transport
begin

text \<open>
  The hash of a packet, \<open>toeplitz_hash_packet\<close> of \<open>lib/hash_toeplitz.c\<close>: it decodes the packet with
  the accessors of layers 3 and 4 and hashes addresses and ports. The parallel framework uses it to
  give all packets of a flow, in both directions, to the same thread.
\<close>

section \<open>Definition\<close>

text \<open>
  The hash of the addresses: the hash so far, the position of the ports in the key and whether
  ports of TCP and of UDP are hashed. \<open>None\<close>: another protocol, for which the result is 0.
\<close>

definition hash_addresses ::
  "toeplitz_conf \<Rightarrow> pktmem \<Rightarrow> ptr \<Rightarrow> u16 \<Rightarrow> u32 \<Rightarrow> (u32 \<times> nat \<times> bool \<times> bool) option res" where
  "hash_addresses cnf m p eth_type remaining =
     (if eth_type = TRACE_ETHERTYPE_IP then
        if (hash_ipv4 cnf \<or> hash_tcp_ipv4 cnf \<or> x_hash_udp_ipv4 cnf) \<and> 20 \<le> remaining then
          bindr (toeplitz_first_hash cnf m (p + 12) 8) (\<lambda>res.
            Inr (Some (res, 8, hash_tcp_ipv4 cnf, x_hash_udp_ipv4 cnf)))
        else Inr (Some (0, 0, False, False))
      else if eth_type = TRACE_ETHERTYPE_IPV6 then
        if (hash_ipv6 cnf \<or> hash_tcp_ipv6 cnf \<or> x_hash_udp_ipv6 cnf) \<and> 40 \<le> remaining then
          bindr (toeplitz_first_hash cnf m (p + 8) 32) (\<lambda>res.
            Inr (Some (res, 32, hash_tcp_ipv6 cnf, x_hash_udp_ipv6 cnf)))
        else Inr (Some (0, 0, False, False))
      else Inr None)"

definition toeplitz_hash_packet ::
  "libtrace_format \<Rightarrow> libtrace_packet \<Rightarrow> toeplitz_conf \<Rightarrow> (u64 \<times> libtrace_packet) res" where
  "toeplitz_hash_packet fmt pkt cnf =
     bindr (trace_get_layer3 fmt pkt Undef) (\<lambda>(layer3, eth_type, remaining, pkt).
     bindr (case layer3 of None \<Rightarrow> Inr (Some (0, 0, False, False))
            | Some p \<Rightarrow> bindr (get eth_type) (\<lambda>t. hash_addresses cnf (p_mem pkt) p t remaining)) (\<lambda>st.
       case st of None \<Rightarrow> Inr (0, pkt)
       | Some (res, offset, accept_tcp, accept_udp) \<Rightarrow>
           bindr (trace_get_transport fmt pkt Undef) (\<lambda>(transport, proto, remaining, pkt).
             case transport of None \<Rightarrow> Inr (ucast res, pkt)
             | Some p \<Rightarrow>
                 bindr (get proto) (\<lambda>proto.
                   if (proto = TRACE_IPPROTO_UDP \<and> accept_udp \<or> proto = TRACE_IPPROTO_TCP \<and> accept_tcp) \<and>
                      4 \<le> remaining
                   then bindr (toeplitz_hash cnf (p_mem pkt) p offset 4 res) (\<lambda>res. Inr (ucast res, pkt))
                   else Inr (ucast res, pkt)))))"

section \<open>Flows\<close>

text \<open>
  \<open>flow fmt pkt et proto src dst sport dport\<close>: the packet decodes to an IP packet of ethertype
  \<open>et\<close> and transport protocol \<open>proto\<close> with these addresses and ports, as strings of bytes.
\<close>

definition addr_off :: "u16 \<Rightarrow> nat" where
  "addr_off et = (if et = TRACE_ETHERTYPE_IP then 12 else 8)"

definition addr_len :: "u16 \<Rightarrow> nat" where
  "addr_len et = (if et = TRACE_ETHERTYPE_IP then 4 else 16)"

definition flow ::
  "libtrace_format \<Rightarrow> libtrace_packet \<Rightarrow> u16 \<Rightarrow> u8 \<Rightarrow> u8 list \<Rightarrow> u8 list \<Rightarrow> u8 list \<Rightarrow> u8 list \<Rightarrow> bool" where
  "flow fmt pkt et proto src dst sport dport \<longleftrightarrow>
     length src = addr_len et \<and> length dst = addr_len et \<and> length sport = 2 \<and> length dport = 2 \<and>
     (case trace_get_layer3 fmt pkt Undef of
        Inr (Some p, t, r, pk) \<Rightarrow>
          t = Val et \<and> addr_off et + 2 * addr_len et \<le> unat r \<and>
          rdn (p_mem pk) (p + addr_off et) (2 * addr_len et) = Inr (src @ dst) \<and>
          (case trace_get_transport fmt pk Undef of
             Inr (Some q, t, r, pk) \<Rightarrow>
               t = Val proto \<and> 4 \<le> unat r \<and> rdn (p_mem pk) q 4 = Inr (sport @ dport)
           | _ \<Rightarrow> False)
      | _ \<Rightarrow> False)"

lemma flowE:
  assumes "flow fmt pkt et proto src dst sport dport"
  obtains p r pk q r' pk' where
    "trace_get_layer3 fmt pkt Undef = Inr (Some p, Val et, r, pk)"
    "trace_get_transport fmt pk Undef = Inr (Some q, Val proto, r', pk')"
    "addr_off et + 2 * addr_len et \<le> unat r" "4 \<le> unat r'"
    "rdn (p_mem pk) (p + addr_off et) (2 * addr_len et) = Inr (src @ dst)"
    "rdn (p_mem pk') q 4 = Inr (sport @ dport)"
proof -
  obtain h t r pk where l3: "trace_get_layer3 fmt pkt Undef = Inr (h, t, r, pk)"
    using assms unfolding flow_def by (cases "trace_get_layer3 fmt pkt Undef") auto
  then obtain p where p: "h = Some p" using assms by (cases h) (simp_all add: flow_def)
  obtain h' t' r' pk' where l4: "trace_get_transport fmt pk Undef = Inr (h', t', r', pk')"
    using assms l3 p unfolding flow_def by (cases "trace_get_transport fmt pk Undef") auto
  then obtain q where q: "h' = Some q" using assms l3 p by (cases h') (simp_all add: flow_def)
  from assms l3 l4 show ?thesis unfolding p q by (intro that [of p r pk q r' pk']) (simp_all add: flow_def)
qed

lemma flow_lengths:
  assumes "flow fmt pkt et proto src dst sport dport"
  shows "length src = addr_len et" "length dst = addr_len et" "length sport = 2" "length dport = 2"
  using assms by (simp_all add: flow_def)

lemma expanded_hash:
  assumes "length (tc_key conf) = 40" "offset + length ds \<le> 40" "rdn m p (length ds) = Inr ds"
  shows "toeplitz_hash (toeplitz_hash_expand_key conf) m p offset (length ds) result =
    Inr (result XOR byteswap32 (rss_hash (tc_key conf) (offset * 8) ds))"
  using hash_bytes_rss [of "tc_key conf" "offset * 8" "length ds" 320 p m result] assms
  by (simp add: toeplitz_hash_def toeplitz_hash_expand_key_def rdn_eq_Inr)

lemma flags_expand [simp]:
  "hash_ipv4 (toeplitz_hash_expand_key c) = hash_ipv4 c" "hash_ipv6 (toeplitz_hash_expand_key c) = hash_ipv6 c"
  "hash_tcp_ipv4 (toeplitz_hash_expand_key c) = hash_tcp_ipv4 c"
  "hash_tcp_ipv6 (toeplitz_hash_expand_key c) = hash_tcp_ipv6 c"
  "x_hash_udp_ipv4 (toeplitz_hash_expand_key c) = x_hash_udp_ipv4 c"
  "x_hash_udp_ipv6 (toeplitz_hash_expand_key c) = x_hash_udp_ipv6 c"
  by (simp_all add: toeplitz_hash_expand_key_def)

definition accepts_tcp :: "toeplitz_conf \<Rightarrow> u16 \<Rightarrow> bool" where
  "accepts_tcp conf et = (if et = TRACE_ETHERTYPE_IP then hash_tcp_ipv4 conf else hash_tcp_ipv6 conf)"

definition accepts_udp :: "toeplitz_conf \<Rightarrow> u16 \<Rightarrow> bool" where
  "accepts_udp conf et = (if et = TRACE_ETHERTYPE_IP then x_hash_udp_ipv4 conf else x_hash_udp_ipv6 conf)"

definition hashes_flows :: "toeplitz_conf \<Rightarrow> u16 \<Rightarrow> u8 \<Rightarrow> bool" where
  "hashes_flows conf et proto \<longleftrightarrow>
     (et = TRACE_ETHERTYPE_IP \<or> et = TRACE_ETHERTYPE_IPV6) \<and>
     (proto = TRACE_IPPROTO_UDP \<and> accepts_udp conf et \<or> proto = TRACE_IPPROTO_TCP \<and> accepts_tcp conf et)"

lemma hash_addresses_rss:
  assumes "et = TRACE_ETHERTYPE_IP \<or> et = TRACE_ETHERTYPE_IPV6" "accepts_tcp conf et \<or> accepts_udp conf et"
    "length (tc_key conf) = 40" "addr_off et + 2 * addr_len et \<le> unat r"
    "rdn m (p + addr_off et) (2 * addr_len et) = Inr addrs" "length addrs = 2 * addr_len et"
  shows "hash_addresses (toeplitz_hash_expand_key conf) m p et r =
    Inr (Some (byteswap32 (rss_hash (tc_key conf) 0 addrs), 2 * addr_len et, accepts_tcp conf et, accepts_udp conf et))"
proof -
  have "2 * addr_len et \<le> 40" by (simp add: addr_len_def)
  then have h: "toeplitz_hash (toeplitz_hash_expand_key conf) m (p + addr_off et) 0 (2 * addr_len et) 0 =
      Inr (byteswap32 (rss_hash (tc_key conf) 0 addrs))"
    using expanded_hash [OF assms(3), of 0 addrs m "p + addr_off et" 0] assms(5,6) by simp
  from assms(1) show ?thesis
  proof
    assume "et = TRACE_ETHERTYPE_IP"
    with h assms(2,4) show ?thesis
      by (auto simp: addr_off_def addr_len_def hash_addresses_def toeplitz_first_hash_def word_le_nat_alt
          accepts_tcp_def accepts_udp_def)
  next
    assume "et = TRACE_ETHERTYPE_IPV6"
    with h assms(2,4) show ?thesis
      by (auto simp: addr_off_def addr_len_def hash_addresses_def toeplitz_first_hash_def word_le_nat_alt
          accepts_tcp_def accepts_udp_def)
  qed
qed

text \<open>
  A packet of a flow that the configuration hashes gets the RSS hash of its addresses and ports.
\<close>

lemma packet_hash_rss:
  assumes "flow fmt pkt et proto src dst sport dport" "hashes_flows conf et proto" "length (tc_key conf) = 40"
  shows "\<exists>pk. toeplitz_hash_packet fmt pkt (toeplitz_hash_expand_key conf) =
    Inr (ucast (byteswap32 (rss_hash (tc_key conf) 0 ((src @ dst) @ (sport @ dport)))), pk)"
proof -
  from assms(1) obtain p r pk q r' pk' where
    l3: "trace_get_layer3 fmt pkt Undef = Inr (Some p, Val et, r, pk)"
    and l4: "trace_get_transport fmt pk Undef = Inr (Some q, Val proto, r', pk')"
    and r: "addr_off et + 2 * addr_len et \<le> unat r" "4 \<le> unat r'"
    and a: "rdn (p_mem pk) (p + addr_off et) (2 * addr_len et) = Inr (src @ dst)"
    and b: "rdn (p_mem pk') q 4 = Inr (sport @ dport)" by (rule flowE)
  have len: "length (src @ dst) = 2 * addr_len et" "length (sport @ dport) = 4"
    using flow_lengths [OF assms(1)] by simp_all
  have "2 * addr_len et + 4 \<le> 40" by (simp add: addr_len_def)
  then have ports: "toeplitz_hash (toeplitz_hash_expand_key conf) (p_mem pk') q (2 * addr_len et) 4 res =
      Inr (res XOR byteswap32 (rss_hash (tc_key conf) (8 * (2 * addr_len et)) (sport @ dport)))" for res
    using expanded_hash [OF assms(3), of "2 * addr_len et" "sport @ dport" "p_mem pk'" q res] len b
    by (simp add: mult.commute)
  have "hash_addresses (toeplitz_hash_expand_key conf) (p_mem pk) p et r =
      Inr (Some (byteswap32 (rss_hash (tc_key conf) 0 (src @ dst)), 2 * addr_len et, accepts_tcp conf et, accepts_udp conf et))"
    by (rule hash_addresses_rss) (use assms(2,3) r(1) a len(1) in \<open>auto simp: hashes_flows_def\<close>)
  then show ?thesis
    using l3 l4 r(2) ports len(1) assms(2)
    unfolding rss_hash_append [of _ _ "src @ dst" "sport @ dport"]
    by (simp add: toeplitz_hash_packet_def byteswap32_xor word_le_nat_alt hashes_flows_def)
qed

text \<open>The four fields of a flow in either direction have the same hash under a bidirectional key.\<close>

lemma rss_bikey_reverse:
  assumes "length src = addr_len et" "length dst = addr_len et" "length sport = 2" "length dport = 2"
  shows "rss_hash (toeplitz_create_bikey rand) 0 ((src @ dst) @ (sport @ dport)) =
    rss_hash (toeplitz_create_bikey rand) 0 ((dst @ src) @ (dport @ sport))"
proof -
  have "even (addr_len et)" "addr_len et \<le> 16" by (simp_all add: addr_len_def)
  then show ?thesis using assms by (simp add: rss_bikey_append xor.commute xor.left_commute)
qed

section \<open>Properties\<close>

text \<open>
  (C32) The two directions of a flow get the same hash. Given a packet of a TCP or UDP flow over
  IPv4 or IPv6 that is hashed under the configuration, and a packet with source and destination
  address and port exchanged (however the two packets are encapsulated), the hash with a
  bidirectional key is computed without a fault and is the same for both: it is the RSS
  hash of addresses and ports.
\<close>

theorem flow_hash_direction:
  assumes "flow fmt pkt et proto src dst sport dport" "flow fmt' pkt' et proto dst src dport sport"
    and "hashes_flows conf et proto"
  shows "\<exists>h pk pk'. toeplitz_hash_packet fmt pkt (toeplitz_init_config rand conf True) = Inr (h, pk) \<and>
    toeplitz_hash_packet fmt' pkt' (toeplitz_init_config rand conf True) = Inr (h, pk') \<and>
    h = ucast (byteswap32 (rss_hash (toeplitz_create_bikey rand) 0 (src @ dst @ sport @ dport)))"
proof -
  let ?conf = "conf\<lparr>tc_key := toeplitz_create_bikey rand\<rparr>"
  have "hashes_flows ?conf et proto" "length (tc_key ?conf) = 40"
    using assms(3) by (simp_all add: hashes_flows_def accepts_tcp_def accepts_udp_def split: if_split_asm)
  note h = packet_hash_rss [OF _ this]
  show ?thesis
    using h [OF assms(1)] h [OF assms(2)] rss_bikey_reverse [OF flow_lengths [OF assms(1)], of rand]
    by (auto simp: toeplitz_init_config_def)
qed

text \<open>The answer to the UDP packet of \<^const>\<open>vlan_packet\<close>, sent without a VLAN header.\<close>

definition answer_packet :: libtrace_packet where
  "answer_packet = trace_create_packet\<lparr>p_payload := Some 0,
     p_mem := [7, 8, 9, 10, 11, 12, 1, 2, 3, 4, 5, 6, 8, 0,
               0x45, 0, 0, 28, 0, 0, 0, 0, 64, 17, 0, 0, 10, 0, 0, 2, 10, 0, 0, 1,
               0, 54, 0, 53, 0, 8, 0, 0] @ replicate 64 0\<rparr>"

lemma vlan_packet_flow:
  "flow (fixed_format TRACE_TYPE_ETH 46 46 0) vlan_packet TRACE_ETHERTYPE_IP TRACE_IPPROTO_UDP
     [10, 0, 0, 1] [10, 0, 0, 2] [0, 53] [0, 54]"
  by code_simp

lemma answer_packet_flow:
  "flow (fixed_format TRACE_TYPE_ETH 42 42 0) answer_packet TRACE_ETHERTYPE_IP TRACE_IPPROTO_UDP
     [10, 0, 0, 2] [10, 0, 0, 1] [0, 54] [0, 53]"
  by code_simp

theorem flow_hash_direction_witness:
  "\<exists>h pk pk'.
     toeplitz_hash_packet (fixed_format TRACE_TYPE_ETH 46 46 0) vlan_packet
       (toeplitz_init_config (\<lambda>_. 77) toeplitz_example True) = Inr (h, pk) \<and>
     toeplitz_hash_packet (fixed_format TRACE_TYPE_ETH 42 42 0) answer_packet
       (toeplitz_init_config (\<lambda>_. 77) toeplitz_example True) = Inr (h, pk')"
proof -
  have "hashes_flows toeplitz_example TRACE_ETHERTYPE_IP TRACE_IPPROTO_UDP" by code_simp
  from flow_hash_direction [OF vlan_packet_flow answer_packet_flow this, of "\<lambda>_. 77"]
  show ?thesis by blast
qed

end
