(* ===== verification/Par_Hasher.thy ===== *)
theory Par_Hasher
  imports Par_Config Par_Dispatch Toeplitz_Packet
begin

text \<open>
  How packets get to the per-packet threads, from \<open>lib/trace_parallel.c\<close>: the thread that reads,
  hashes and queues packets, and the two ways in which per-packet threads fetch bursts, from
  their queue or directly from the trace.
\<close>

section \<open>The hasher thread\<close>

text \<open>A user's hash function and the Toeplitz hash; both may fill the caches of the packet.\<close>

type_synonym hash_fn = "libtrace_packet \<Rightarrow> (u64 \<times> libtrace_packet) res"

definition run_hasher :: "libtrace_format \<Rightarrow> hash_fn hasher \<Rightarrow> hash_fn" where
  "run_hasher fmt h packet =
     (case h of UserHasher f \<Rightarrow> f packet | ToeplitzHasher conf \<Rightarrow> toeplitz_hash_packet fmt packet conf)"

text \<open>A packet of the free list that carries no data: a tick, or the end of the trace.\<close>

definition mark_packet :: "c_int \<Rightarrow> u64 \<Rightarrow> libtrace_packet" where
  "mark_packet err order = trace_create_packet\<lparr>p_error := err, p_order := order\<rparr>"

definition queue_put :: "nat \<Rightarrow> libtrace_packet \<Rightarrow> libtrace_packet list list \<Rightarrow> libtrace_packet list list" where
  "queue_put i p qs = qs[i := qs ! i @ [p]]"

text \<open>
  One packet: the queue of its thread gets it; when its order is a multiple of \<open>tick_count\<close>, all
  queues get a tick. \<open>qs\<close> are the packets written to the queue of each thread so far; the
  theorem on the concurrent ring buffer says that the thread reads exactly these. \<open>finished\<close> are the threads that have ended.
\<close>

definition hasher_put ::
  "hash_fn \<Rightarrow> nat \<Rightarrow> size_t \<Rightarrow> (nat \<Rightarrow> bool) \<Rightarrow> libtrace_packet \<Rightarrow> libtrace_packet list list \<Rightarrow> libtrace_packet list list res" where
  "hasher_put hasher n tick_count finished packet qs =
     bindr (hasher packet) (\<lambda>(h, packet).
       let packet = trace_packet_set_hash packet h;
           thread = unat (trace_packet_get_hash packet mod of_nat n);
           order = trace_packet_get_order packet in
       if finished thread then Inl AssertFail
       else
         let qs = queue_put thread packet qs in
         Inr (if tick_count \<noteq> 0 \<and> order mod tick_count = 0
              then fold (\<lambda>i. queue_put i (mark_packet READ_TICK order)) [0..<n] qs
              else qs))"

text \<open>
  What the thread meets, in this order: a packet read from the trace (with the code of the read as
  its \<open>error\<close>), a request to pause, a request to stop (with the truth of the two assertions on the
  state of the trace), or the interruption of the program.
\<close>

datatype hasher_event = HasherRead libtrace_packet | HasherPause | HasherStop bool | HasherHalt

definition hasher_bcast :: "nat \<Rightarrow> (nat \<Rightarrow> bool) \<Rightarrow> libtrace_packet \<Rightarrow> libtrace_packet list list \<Rightarrow> libtrace_packet list list" where
  "hasher_bcast n finished packet qs =
     fold (\<lambda>i qs. if finished i then qs
                  else queue_put i (if i = n - 1 then packet else mark_packet (p_error packet) 0) qs) [0..<n] qs"

fun hasher_entry ::
  "hash_fn \<Rightarrow> nat \<Rightarrow> size_t \<Rightarrow> (nat \<Rightarrow> bool) \<Rightarrow> hasher_event list \<Rightarrow> libtrace_packet list list \<Rightarrow> libtrace_packet list list res" where
  "hasher_entry hasher n tick_count finished [] qs = Inr qs"
| "hasher_entry hasher n tick_count finished (HasherHalt # es) qs =
     Inr (hasher_bcast n finished (mark_packet 0 0) qs)"
| "hasher_entry hasher n tick_count finished (HasherPause # es) qs = hasher_entry hasher n tick_count finished es qs"
| "hasher_entry hasher n tick_count finished (HasherStop ok # es) qs =
     assertr ok (hasher_entry hasher n tick_count finished es qs)"
| "hasher_entry hasher n tick_count finished (HasherRead packet # es) qs =
     (if sint (p_error packet) < 1 then Inr (hasher_bcast n finished packet qs)
      else bindr (hasher_put hasher n tick_count finished packet qs) (hasher_entry hasher n tick_count finished es))"

section \<open>Reading bursts\<close>

text \<open>
  From the queue of the thread. \<open>None\<close>: the call blocks. Recycling of the packets that are in
  the slots before is not modelled.
\<close>

function pread_loop ::
  "libtrace_packet option list \<Rightarrow> nat \<Rightarrow> nat \<Rightarrow> 'u libtrace_thread \<Rightarrow>
    (nat \<times> libtrace_packet option list \<times> 'u libtrace_thread) option res" where
  "pread_loop packets nb_packets i t =
     (if i < nb_packets then
        case libtrace_ringbuffer_try_read (th_rbuffer t) None of
          None \<Rightarrow> Inr None
        | Some (ret, v, rb) \<Rightarrow>
            if ret = 0 then Inr (Some (i, packets[i := None], t))
            else case v of None \<Rightarrow> Inl NullDeref
            | Some p \<Rightarrow>
                let packets = packets[i := Some p]; t = t\<lparr>th_rbuffer := rb\<rparr> in
                (case packets ! 0 of None \<Rightarrow> Inl NullDeref
                 | Some p0 \<Rightarrow>
                     if sint (p_error p) \<le> 0 \<and> p_error p0 \<noteq> READ_TICK then
                       if p_error p \<noteq> READ_MESSAGE
                       then assertr (th_format_data t = None) (Inr (Some (i, packets, t\<lparr>th_format_data := Some p\<rparr>)))
                       else Inr (Some (i, packets, t))
                     else pread_loop packets nb_packets (i + 1) t)
      else Inr (Some (i, packets, t)))"
  by pat_completeness auto
termination
  by (relation "measure (\<lambda>(packets, nb_packets, i, t). nb_packets - i)") simp_all

declare pread_loop.simps [simp del]

definition trace_pread_packet_hasher_thread ::
  "'u libtrace_thread \<Rightarrow> libtrace_packet option list \<Rightarrow> nat \<Rightarrow>
    (c_int \<times> libtrace_packet option list \<times> 'u libtrace_thread) option res" where
  "trace_pread_packet_hasher_thread t packets nb_packets =
     (case th_format_data t of
        Some p \<Rightarrow> Inr (Some (p_error p, packets, t))
      | None \<Rightarrow>
          case libtrace_ringbuffer_read (th_rbuffer t) of
            None \<Rightarrow> Inr None
          | Some (v, rb) \<Rightarrow>
              case v of None \<Rightarrow> Inl NullDeref
              | Some p \<Rightarrow>
                  let packets = packets[0 := Some p]; t = t\<lparr>th_rbuffer := rb\<rparr> in
                  if sint (p_error p) \<le> 0 \<and> p_error p \<noteq> READ_TICK then Inr (Some (p_error p, packets, t))
                  else bindr (pread_loop packets nb_packets 1 t)
                    (\<lambda>r. Inr (map_option (\<lambda>(i, packets, t). (of_nat i, packets, t)) r)))"

text \<open>
  Directly from the trace, under its lock. \<open>read\<close> is \<open>trace_read_packet\<close> on the state of the trace;
  it returns the packet with its code as \<open>error\<close>. \<open>halt\<close> says whether the program was interrupted.
  The first component of the loop's result is true when the first read already failed.
\<close>

function fifs_loop ::
  "('s \<Rightarrow> libtrace_packet \<times> 's) \<Rightarrow> (nat \<Rightarrow> bool) \<Rightarrow> libtrace_packet list \<Rightarrow> nat \<Rightarrow> nat \<Rightarrow> 's \<Rightarrow>
    bool \<times> nat \<times> libtrace_packet list \<times> 's" where
  "fifs_loop read halt packets nb_packets i s =
     (if i < nb_packets then
        if halt i then (False, i, packets, s)
        else
          let (p, s) = read s; packets = packets[i := p] in
          if sint (p_error p) \<le> 0 then (i = 0, i, packets, s)
          else fifs_loop read halt packets nb_packets (i + 1) s
      else (False, i, packets, s))"
  by pat_completeness auto
termination
  by (relation "measure (\<lambda>(read, halt, packets, nb_packets, i, s). nb_packets - i)") simp_all

declare fifs_loop.simps [simp del]

text \<open>\<open>store\<close> is \<^const>\<open>store_first_packet\<close> on the state \<open>'t\<close> of thread and trace.\<close>

definition trace_pread_packet_first_in_first_served ::
  "('s \<Rightarrow> libtrace_packet \<times> 's) \<Rightarrow> (nat \<Rightarrow> bool) \<Rightarrow> (libtrace_packet \<Rightarrow> 't \<Rightarrow> 't res) \<Rightarrow> libtrace_packet list \<Rightarrow> nat \<Rightarrow> 's \<Rightarrow> 't \<Rightarrow>
    (c_int \<times> libtrace_packet list \<times> 's \<times> 't) res" where
  "trace_pread_packet_first_in_first_served read halt store packets nb_packets s t =
     (let (failed, i, packets, s) = fifs_loop read halt packets nb_packets 0 s in
      if failed then Inr (p_error (packets ! 0), packets, s, t)
      else bindr (if 0 < sint (p_error (packets ! 0)) then store (packets ! 0) t else Inr t) (\<lambda>t.
        Inr (of_nat i, packets, s, t)))"

section \<open>What the hasher queues\<close>

text \<open>The part of the queue of thread \<open>i\<close> that a packet causes.\<close>

definition queue_index :: "nat \<Rightarrow> u64 \<Rightarrow> nat" where
  "queue_index n h = unat (h mod of_nat n)"

definition queue_part :: "nat \<Rightarrow> size_t \<Rightarrow> (libtrace_packet \<Rightarrow> u64 \<times> libtrace_packet) \<Rightarrow> nat \<Rightarrow> libtrace_packet \<Rightarrow> libtrace_packet list" where
  "queue_part n tick_count hash i p =
     (case hash p of (h, p) \<Rightarrow>
        (if queue_index n h = i then [p\<lparr>p_hash := h\<rparr>] else []) @
        (if tick_count \<noteq> 0 \<and> p_order p mod tick_count = 0 then [mark_packet READ_TICK (p_order p)] else []))"

lemma queue_index_less:
  assumes "0 < n" "n < 2 ^ 31"
  shows "queue_index n h < n"
proof -
  have "unat (of_nat n :: u64) = n" using assms(2) by (simp add: unsigned_of_nat take_bit_nat_eq_self)
  then show ?thesis using assms(1) by (simp add: queue_index_def unat_mod)
qed

lemma fold_queue_put:
  assumes "length qs = n" "k \<le> n"
  shows "fold (\<lambda>i. queue_put i (g i)) [0..<k] qs = map (\<lambda>i. qs ! i @ (if i < k then [g i] else [])) [0..<n]"
  using assms(2)
proof (induction k)
  case 0
  show ?case unfolding assms(1) [symmetric] by (simp add: map_nth)
next
  case (Suc k)
  then show ?case
    by (intro nth_equalityI) (auto simp: queue_put_def nth_list_update less_Suc_eq)
qed

lemma hasher_put_spec:
  assumes "hasher packet = Inr (hash packet)" "length qs = n" "0 < n" "n < 2 ^ 31" "\<And>i. \<not> finished i"
  shows "hasher_put hasher n tick_count finished packet qs =
    Inr (map (\<lambda>i. qs ! i @ queue_part n tick_count hash i packet) [0..<n])"
proof -
  obtain h p where h: "hash packet = (h, p)" by fastforce
  have j: "queue_index n h < n" by (rule queue_index_less [OF assms(3,4)])
  have put: "queue_put (queue_index n h) (p\<lparr>p_hash := h\<rparr>) qs =
      map (\<lambda>i. qs ! i @ (if queue_index n h = i then [p\<lparr>p_hash := h\<rparr>] else [])) [0..<n]"
    using assms(2) j by (intro nth_equalityI) (auto simp: queue_put_def nth_list_update)
  show ?thesis
    using assms(1,5) put
    by (auto simp: hasher_put_def h Let_def trace_packet_set_hash_def trace_packet_get_hash_def
        trace_packet_get_order_def queue_part_def queue_index_def [symmetric] fold_queue_put [of _ n n])
qed

definition end_packet :: "nat \<Rightarrow> libtrace_packet \<Rightarrow> nat \<Rightarrow> libtrace_packet" where
  "end_packet n e i = (if i = n - 1 then e else mark_packet (p_error e) 0)"

lemma hasher_bcast_spec:
  assumes "length qs = n" "\<And>i. \<not> finished i"
  shows "hasher_bcast n finished e qs = map (\<lambda>i. qs ! i @ [end_packet n e i]) [0..<n]"
  using fold_queue_put [OF assms(1), of n "end_packet n e"] assms(2)
  by (simp add: hasher_bcast_def end_packet_def [abs_def])

lemma hasher_entry_spec:
  assumes "\<And>p. p \<in> set ps \<Longrightarrow> hasher p = Inr (hash p) \<and> 1 \<le> sint (p_error p)"
    and "length qs = n" "0 < n" "n < 2 ^ 31" "\<And>i. \<not> finished i" "sint (p_error e) < 1"
  shows "hasher_entry hasher n tick_count finished (map HasherRead (ps @ [e])) qs =
    Inr (map (\<lambda>i. qs ! i @ concat (map (queue_part n tick_count hash i) ps) @ [end_packet n e i]) [0..<n])"
  using assms(1,2)
proof (induction ps arbitrary: qs)
  case Nil
  then show ?case using assms(5,6) by (simp add: hasher_bcast_spec)
next
  case (Cons p ps)
  then have "\<not> sint (p_error p) < 1" by fastforce
  moreover have "hasher_put hasher n tick_count finished p qs =
      Inr (map (\<lambda>i. qs ! i @ queue_part n tick_count hash i p) [0..<n])"
    by (rule hasher_put_spec) (use Cons.prems assms(3-5) in auto)
  ultimately show ?case using Cons.IH [of "map (\<lambda>i. qs ! i @ queue_part n tick_count hash i p) [0..<n]"] Cons.prems(1) by simp
qed

section \<open>What a thread reads from its queue\<close>

definition queued :: "'u libtrace_thread \<Rightarrow> libtrace_packet list \<Rightarrow> bool" where
  "queued t ps \<longleftrightarrow> rb_inv (th_rbuffer t) \<and> rb_contents (th_rbuffer t) = map Some ps"

lemma queued_Nil: "queued t [] \<Longrightarrow> libtrace_ringbuffer_try_read (th_rbuffer t) out = Some (0, out, th_rbuffer t)"
  using try_read_empty [of "th_rbuffer t" out] length_rb_contents [of "th_rbuffer t"] by (simp add: queued_def)

lemma queued_Cons:
  assumes "queued t (p # ps)"
  obtains rb where "libtrace_ringbuffer_read (th_rbuffer t) = Some (Some p, rb)"
    "libtrace_ringbuffer_try_read (th_rbuffer t) None = Some (1, Some p, rb)"
    "queued (t\<lparr>th_rbuffer := rb\<rparr>) ps"
proof -
  let ?rb = "th_rbuffer t"
  have inv: "rb_inv ?rb" and c: "rb_contents ?rb = Some p # map Some ps" using assms by (simp_all add: queued_def)
  have n: "0 < rb_count ?rb" using length_rb_contents [of ?rb] c by (simp del: length_rb_contents)
  note pop = rb_contents_pop [OF inv n] rb_inv_pop [OF inv]
  have e: "rb_elements ?rb ! unat (rb_start ?rb) = Some p" "rb_contents (rb_pop ?rb) = map Some ps" using pop(1) c by simp_all
  have "libtrace_ringbuffer_read ?rb = Some (Some p, rb_pop ?rb)"
    using n e(1) by (simp add: ringbuffer_read_eq is_empty_iff [OF inv])
  then show ?thesis
    using that [of "rb_pop ?rb"] try_read_data [OF inv n, of None] e pop(2) by (simp add: queued_def)
qed

text \<open>The loop stores packets while they carry data.\<close>

lemma pread_loop_data:
  assumes "queued t (ds @ rest)" "\<And>d. d \<in> set ds \<Longrightarrow> is_data d" "packets ! 0 = Some p0" "is_data p0"
    "1 \<le> i" "i + length ds \<le> nb" "nb \<le> length packets"
  shows "\<exists>rb packets'. pread_loop packets nb i t = pread_loop packets' nb (i + length ds) (t\<lparr>th_rbuffer := rb\<rparr>) \<and>
    queued (t\<lparr>th_rbuffer := rb\<rparr>) rest \<and> length packets' = length packets \<and>
    take (i + length ds) packets' = take i packets @ map Some ds"
  using assms(1,2,3,5-)
proof (induction ds arbitrary: t packets i)
  case Nil
  then show ?case by (intro exI [of _ "th_rbuffer t"] exI [of _ packets]) simp
next
  case (Cons d ds)
  obtain rb where rb: "libtrace_ringbuffer_try_read (th_rbuffer t) None = Some (1, Some d, rb)"
    "queued (t\<lparr>th_rbuffer := rb\<rparr>) (ds @ rest)"
    using queued_Cons [of t d "ds @ rest"] Cons.prems(1) by auto
  let ?t = "t\<lparr>th_rbuffer := rb\<rparr>" and ?packets = "packets[i := Some d]"
  have "is_data d" "p_error p0 \<noteq> READ_TICK" using Cons.prems(2) tick_not_data assms(4) by auto
  then have step: "pread_loop packets nb i t = pread_loop ?packets nb (Suc i) ?t"
    using rb(1) Cons.prems(3-) by (simp add: pread_loop.simps [of packets nb i t] is_data_def Let_def)
  have "\<exists>rb' packets'. pread_loop ?packets nb (Suc i) ?t = pread_loop packets' nb (Suc i + length ds) (?t\<lparr>th_rbuffer := rb'\<rparr>) \<and>
    queued (?t\<lparr>th_rbuffer := rb'\<rparr>) rest \<and> length packets' = length ?packets \<and>
    take (Suc i + length ds) packets' = take (Suc i) ?packets @ map Some ds"
    by (rule Cons.IH) (use rb(2) Cons.prems in auto)
  moreover have "take (Suc i) ?packets = take i packets @ [Some d]" using Cons.prems(5,6) by (simp add: take_Suc_conv_app_nth)
  ultimately show ?case unfolding step by auto
qed

lemma pread_hasher_data:
  assumes "queued t (d # ds @ rest)" "\<And>p. p \<in> set (d # ds) \<Longrightarrow> is_data p" "th_format_data t = None"
    "Suc (length ds) \<le> nb" "nb \<le> length packets"
  obtains rb packets' where
    "trace_pread_packet_hasher_thread t packets nb =
      bindr (pread_loop packets' nb (Suc (length ds)) (t\<lparr>th_rbuffer := rb\<rparr>))
        (\<lambda>r. Inr (map_option (\<lambda>(i, packets, t). (of_nat i, packets, t)) r))"
    "queued (t\<lparr>th_rbuffer := rb\<rparr>) rest" "length packets' = length packets"
    "take (Suc (length ds)) packets' = map Some (d # ds)"
proof -
  obtain rb where rb: "libtrace_ringbuffer_read (th_rbuffer t) = Some (Some d, rb)" "queued (t\<lparr>th_rbuffer := rb\<rparr>) (ds @ rest)"
    using queued_Cons [of t d "ds @ rest"] assms(1) by auto
  let ?t = "t\<lparr>th_rbuffer := rb\<rparr>" and ?packets = "packets[0 := Some d]"
  have d: "is_data d" using assms(2) by simp
  then have step: "trace_pread_packet_hasher_thread t packets nb =
      bindr (pread_loop ?packets nb 1 ?t) (\<lambda>r. Inr (map_option (\<lambda>(i, packets, t). (of_nat i, packets, t)) r))"
    using rb(1) assms(3) by (simp add: trace_pread_packet_hasher_thread_def is_data_def Let_def)
  have "?packets ! 0 = Some d" "take 1 ?packets = [Some d]" using assms(4,5) by (cases packets; simp)+
  then have "\<exists>rb' packets'. pread_loop ?packets nb 1 ?t = pread_loop packets' nb (1 + length ds) (?t\<lparr>th_rbuffer := rb'\<rparr>) \<and>
      queued (?t\<lparr>th_rbuffer := rb'\<rparr>) rest \<and> length packets' = length ?packets \<and>
      take (1 + length ds) packets' = take 1 ?packets @ map Some ds"
    by (intro pread_loop_data [OF rb(2) _ _ d]) (use assms in auto)
  then obtain rb' packets' where "pread_loop ?packets nb 1 ?t = pread_loop packets' nb (Suc (length ds)) (t\<lparr>th_rbuffer := rb'\<rparr>)"
    "queued (t\<lparr>th_rbuffer := rb'\<rparr>) rest" "length packets' = length packets"
    "take (Suc (length ds)) packets' = map Some (d # ds)"
    using \<open>take 1 ?packets = [Some d]\<close> by auto
  then show ?thesis using that [of packets' rb'] unfolding step by simp
qed

text \<open>What the main loop of a per-packet thread does with the number that a read returned.\<close>

datatype perpkt_action = PerpktDispatch | PerpktEof | PerpktError | PerpktAgain

definition perpkt_action :: "c_int \<Rightarrow> perpkt_action" where
  "perpkt_action nb_packets =
     (if 0 < sint nb_packets then PerpktDispatch
      else if nb_packets = READ_EOF then PerpktEof
      else if nb_packets = READ_ERROR then PerpktError
      else if nb_packets = READ_MESSAGE then PerpktAgain
      else PerpktError)"

section \<open>The hashers that the library provides\<close>

lemma hash_addresses_none:
  assumes "\<not> accepts_tcp conf TRACE_ETHERTYPE_IP" "\<not> accepts_udp conf TRACE_ETHERTYPE_IP" "\<not> hash_ipv4 conf"
    "\<not> accepts_tcp conf TRACE_ETHERTYPE_IPV6" "\<not> accepts_udp conf TRACE_ETHERTYPE_IPV6" "\<not> hash_ipv6 conf"
  shows "hash_addresses conf m p et r = Inr None \<or> hash_addresses conf m p et r = Inr (Some (0, 0, False, False))"
  using assms by (auto simp: hash_addresses_def accepts_tcp_def accepts_udp_def)

text \<open>A configuration without any flag hashes every well-formed packet to 0.\<close>

lemma toeplitz_hash_nothing:
  assumes conf: "\<not> accepts_tcp conf TRACE_ETHERTYPE_IP" "\<not> accepts_udp conf TRACE_ETHERTYPE_IP" "\<not> hash_ipv4 conf"
    "\<not> accepts_tcp conf TRACE_ETHERTYPE_IPV6" "\<not> accepts_udp conf TRACE_ETHERTYPE_IPV6" "\<not> hash_ipv6 conf"
    and w: "wf_packet fmt lt cap wire b packet" "frame_ok (p_mem packet) b lt (packet_bytes cap wire)"
  shows "\<exists>packet'. toeplitz_hash_packet fmt packet conf = Inr (0, packet')"
proof -
  have rest: "\<exists>packet'. bindr (trace_get_transport fmt pk Undef) (\<lambda>(transport, proto, remaining, pkt).
      case transport of None \<Rightarrow> Inr (ucast (0 :: u32), pkt)
      | Some p \<Rightarrow> bindr (get proto) (\<lambda>proto.
          if (proto = TRACE_IPPROTO_UDP \<and> False \<or> proto = TRACE_IPPROTO_TCP \<and> False) \<and> 4 \<le> remaining
          then bindr (toeplitz_hash conf (p_mem pkt) p 0 4 0) (\<lambda>res. Inr (ucast res, pkt))
          else Inr (ucast (0 :: u32), pkt))) = Inr (0 :: u64, packet')"
    if "wf_packet fmt lt cap wire b pk" "p_mem pk = p_mem packet" for pk
  proof -
    have "frame_ok (p_mem pk) b lt (packet_bytes cap wire)" using w(2) that(2) by simp
    with that(1) show ?thesis by (cases rule: transport_cases) simp_all
  qed
  from w show ?thesis
  proof (cases rule: layer3_cases)
    case (none et r pk)
    then show ?thesis using rest [of pk] by (simp add: toeplitz_hash_packet_def)
  next
    case (some p t r pk)
    then show ?thesis
      using rest [of pk] hash_addresses_none [OF conf, of "p_mem packet" p t r] by (auto simp: toeplitz_hash_packet_def)
  qed
qed

lemma software_hasher_zero:
  assumes "type = HASHER_BIDIRECTIONAL \<or> type = HASHER_UNIDIRECTIONAL"
    "wf_packet fmt lt cap wire b packet" "frame_ok (p_mem packet) b lt (packet_bytes cap wire)"
    "lt_hasher (snd (trace_set_hasher None rand trace type None)) = Some h"
  shows "\<exists>packet'. run_hasher fmt h packet = Inr (0, packet')"
proof -
  have "h = ToeplitzHasher (toeplitz_init_config rand zero_toeplitz_conf (type = HASHER_BIDIRECTIONAL))"
    using assms(1,4) by (auto simp: trace_set_hasher_def)
  moreover have "\<exists>packet'. toeplitz_hash_packet fmt packet (toeplitz_init_config rand zero_toeplitz_conf bi) = Inr (0, packet')" for bi
    by (rule toeplitz_hash_nothing [OF _ _ _ _ _ _ assms(2,3)])
      (simp_all add: accepts_tcp_def accepts_udp_def toeplitz_init_config_def zero_toeplitz_conf_def)
  ultimately show ?thesis by (simp add: run_hasher_def)
qed

section \<open>Properties\<close>

text \<open>
  (C27) The queues that the hasher fills. For every sequence of packets up to the end of the trace,
  the queue of each thread gets exactly the packets whose hash is its number modulo the number
  of threads, in the order in which they were read, a tick in the place of every packet whose order is a
  multiple of the tick count, and the end of the trace last.
\<close>

theorem hasher_queues:
  assumes "\<And>p. p \<in> set ps \<Longrightarrow> hasher p = Inr (hash p) \<and> 1 \<le> sint (p_error p)"
    and "0 < n" "n < 2 ^ 31" "sint (p_error e) < 1"
  shows "hasher_entry hasher n tick_count (\<lambda>_. False) (map HasherRead (ps @ [e])) (replicate n []) =
    Inr (map (\<lambda>i. concat (map (\<lambda>p. case hash p of (h, p) \<Rightarrow>
             (if unat (h mod of_nat n) = i then [p\<lparr>p_hash := h\<rparr>] else []) @
             (if tick_count \<noteq> 0 \<and> p_order p mod tick_count = 0 then [mark_packet READ_TICK (p_order p)] else [])) ps) @
           [if i = n - 1 then e else mark_packet (p_error e) 0]) [0..<n])"
proof -
  have "hasher_entry hasher n tick_count (\<lambda>_. False) (map HasherRead (ps @ [e])) (replicate n []) =
    Inr (map (\<lambda>i. replicate n [] ! i @ concat (map (queue_part n tick_count hash i) ps) @ [end_packet n e i]) [0..<n])"
    by (rule hasher_entry_spec) (use assms in auto)
  then show ?thesis
    by (simp add: queue_part_def [abs_def] queue_index_def end_packet_def)
qed

text \<open>
  (C33) Fetching a burst from the queue. The packets before the first one that carries no data are
  returned in order. That one (the end of the trace, an error, or a tick) is kept, and every later
  call returns its code without reading the queue. For the end of the trace and an error this
  is as meant. But a tick behind a packet of the same burst is treated in the same way: from
  then on the thread is told \<open>READ_TICK\<close> instead of getting its packets, which its loop takes
  for an error. The code tests the first packet of the burst for a tick where it means the current one.
\<close>

theorem burst_ends_at_mark:
  fixes t :: "'u libtrace_thread"
  assumes "queued t (d # ds @ e # rest)" "\<And>p. p \<in> set (d # ds) \<Longrightarrow> 0 < sint (p_error p)" "th_format_data t = None"
    and "Suc (length ds) < nb" "nb \<le> length packets" "sint (p_error e) \<le> 0" "p_error e \<noteq> READ_MESSAGE"
  shows "\<exists>packets' (t' :: 'u libtrace_thread).
    trace_pread_packet_hasher_thread t packets nb = Inr (Some (of_nat (Suc (length ds)), packets', t')) \<and>
    take (Suc (length ds)) packets' = map Some (d # ds) \<and> queued t' rest \<and>
    (\<forall>packets'' nb''. trace_pread_packet_hasher_thread t' packets'' nb'' = Inr (Some (p_error e, packets'', t'))) \<and>
    perpkt_action READ_TICK = PerpktError"
proof -
  have data: "is_data p" if "p \<in> set (d # ds)" for p using assms(2) [OF that] by (simp add: is_data_def)
  have nb: "Suc (length ds) \<le> nb" using assms(4) by simp
  obtain rb packets' where r: "trace_pread_packet_hasher_thread t packets nb =
      bindr (pread_loop packets' nb (Suc (length ds)) (t\<lparr>th_rbuffer := rb\<rparr>))
        (\<lambda>r. Inr (map_option (\<lambda>(i, packets, t). (of_nat i, packets, t)) r))"
    and q: "queued (t\<lparr>th_rbuffer := rb\<rparr>) (e # rest)" and l: "length packets' = length packets"
    and p: "take (Suc (length ds)) packets' = map Some (d # ds)"
    by (rule pread_hasher_data [OF assms(1) data assms(3) nb assms(5)])
  obtain rb' where e: "libtrace_ringbuffer_try_read rb None = Some (1, Some e, rb')" "queued (t\<lparr>th_rbuffer := rb'\<rparr>) rest"
    using queued_Cons [OF q] by auto
  have 0: "packets' ! 0 = Some d" "packets' \<noteq> []" using p by (cases packets'; simp)+
  have "p_error d \<noteq> READ_TICK" using data tick_not_data [of d] by auto
  then have "pread_loop packets' nb (Suc (length ds)) (t\<lparr>th_rbuffer := rb\<rparr>) =
      Inr (Some (Suc (length ds), packets'[Suc (length ds) := Some e], t\<lparr>th_rbuffer := rb', th_format_data := Some e\<rparr>))"
    using e(1) 0 assms(3-7) l by (simp add: pread_loop.simps [of packets'] Let_def)
  moreover have "perpkt_action READ_TICK = PerpktError" by code_simp
  ultimately show ?thesis
    using r p e(2) by (auto simp: trace_pread_packet_hasher_thread_def queued_def)
qed

text \<open>
  (C34) The hashers that the library provides do not distribute packets. When the format cannot hash
  in hardware, \<open>trace_set_hasher\<close> installs the Toeplitz hash with a configuration in which no
  protocol is selected, and nothing selects one later. Every well-formed packet then has the
  hash 0: the first thread gets all packets, and the queue of every other thread only the end
  of the trace.
\<close>

theorem software_hasher_unbalanced:
  fixes trace :: "(hash_fn, 'c) libtrace"
  assumes "type = HASHER_BIDIRECTIONAL \<or> type = HASHER_UNIDIRECTIONAL"
    and "\<And>p. p \<in> set ps \<Longrightarrow> 1 \<le> sint (p_error p) \<and>
      (\<exists>lt cap wire b. wf_packet fmt lt cap wire b p \<and> frame_ok (p_mem p) b lt (packet_bytes cap wire))"
    and "0 < n" "n < 2 ^ 31" "sint (p_error e) < 1"
  shows "\<exists>h qs. lt_hasher (snd (trace_set_hasher None rand trace type None)) = Some h \<and>
    hasher_entry (run_hasher fmt h) n 0 (\<lambda>_. False) (map HasherRead (ps @ [e])) (replicate n []) = Inr qs \<and>
    map length qs = (length ps + 1) # replicate (n - 1) 1"
proof -
  obtain h where h: "lt_hasher (snd (trace_set_hasher None rand trace type None)) = Some h"
    using assms(1) by (auto simp: trace_set_hasher_def)
  define hash where "hash p = (case run_hasher fmt h p of Inr x \<Rightarrow> x | Inl _ \<Rightarrow> (0, p))" for p
  have hash: "run_hasher fmt h p = Inr (hash p)" "fst (hash p) = 0" if "p \<in> set ps" for p
    using software_hasher_zero [OF assms(1) _ _ h] assms(2) [OF that] by (force simp: hash_def)+
  have "hasher_entry (run_hasher fmt h) n 0 (\<lambda>_. False) (map HasherRead (ps @ [e])) (replicate n []) =
    Inr (map (\<lambda>i. replicate n [] ! i @ concat (map (queue_part n 0 hash i) ps) @ [end_packet n e i]) [0..<n])"
    by (rule hasher_entry_spec) (use hash assms in auto)
  moreover have "length (concat (map (queue_part n 0 hash i) ps)) = (if i = 0 then length ps else 0)" for i
  proof -
    have "map (queue_part n 0 hash i) ps = map (\<lambda>p. if i = 0 then [snd (hash p)\<lparr>p_hash := 0\<rparr>] else []) ps"
      by (rule map_cong [OF refl]) (simp add: queue_part_def queue_index_def case_prod_beta hash(2))
    then have "length (concat (map (queue_part n 0 hash i) ps)) =
        length (concat (map (\<lambda>p. if i = 0 then [snd (hash p)\<lparr>p_hash := 0\<rparr>] else []) ps))" by (simp only:)
    also have "\<dots> = (if i = 0 then length ps else 0)" by (simp add: length_concat o_def sum_list_triv)
    finally show ?thesis .
  qed
  ultimately have r: "hasher_entry (run_hasher fmt h) n 0 (\<lambda>_. False) (map HasherRead (ps @ [e])) (replicate n []) =
      Inr (map (\<lambda>i. replicate n [] ! i @ concat (map (queue_part n 0 hash i) ps) @ [end_packet n e i]) [0..<n])"
    and len: "length (concat (map (queue_part n 0 hash i) ps)) = (if i = 0 then length ps else 0)" for i
    by blast+
  have "map length (map (\<lambda>i. replicate n [] ! i @ concat (map (queue_part n 0 hash i) ps) @ [end_packet n e i]) [0..<n]) =
      (length ps + 1) # replicate (n - 1) 1"
    by (rule nth_equalityI) (use assms(3) in \<open>auto simp: len nth_Cons'\<close>)
  with h r show ?thesis by (intro exI conjI)
qed

section \<open>Examples\<close>

theorem hasher_queues_witness:
  "hasher_entry (\<lambda>p. Inr (p_order p, p)) 2 2 (\<lambda>_. False) (map HasherRead ([data_packet 1 1, data_packet 1 2] @ [data_packet 0 0]))
     (replicate 2 []) =
   Inr [[(data_packet 1 2)\<lparr>p_hash := 2\<rparr>, mark_packet READ_TICK 2, mark_packet 0 0],
        [(data_packet 1 1)\<lparr>p_hash := 1\<rparr>, mark_packet READ_TICK 2, data_packet 0 0]]"
proof -
  let ?ps = "[data_packet 1 1, data_packet 1 2]" and ?hash = "\<lambda>p. (p_order p, p)"
  have "list_all (\<lambda>p. 1 \<le> sint (p_error p)) ?ps" "sint (p_error (data_packet 0 0)) < 1" by code_simp+
  then have ok: "Inr (p_order p, p) = (Inr (?hash p) :: fault + (u64 \<times> libtrace_packet)) \<and> 1 \<le> sint (p_error p)" "sint (p_error (data_packet 0 0)) < 1"
    if "p \<in> set ?ps" for p using that by (auto simp: list_all_iff)
  have e: "sint (p_error (data_packet 0 0)) < 1" by code_simp
  have "hasher_entry (\<lambda>p. Inr (p_order p, p)) 2 2 (\<lambda>_. False) (map HasherRead (?ps @ [data_packet 0 0])) (replicate 2 []) =
    Inr (map (\<lambda>i. concat (map (\<lambda>p. case ?hash p of (h, p) \<Rightarrow>
             (if unat (h mod of_nat 2) = i then [p\<lparr>p_hash := h\<rparr>] else []) @
             (if 2 \<noteq> (0 :: size_t) \<and> p_order p mod 2 = 0 then [mark_packet READ_TICK (p_order p)] else [])) ?ps) @
           [if i = 2 - 1 then data_packet 0 0 else mark_packet (p_error (data_packet 0 0)) 0]) [0..<2])"
    by (rule hasher_queues) (use ok e in simp_all)
  moreover have "p_order (data_packet e n) = n" "p_error (data_packet e n) = e" for e n by (simp_all add: data_packet_def)
  ultimately show ?thesis by (simp add: upt_rec)
qed

text \<open>A thread with three packets in its queue: one with data, a tick, and one with data.\<close>

definition tick_thread :: "u64 list libtrace_thread" where
  "tick_thread = order_thread\<lparr>th_rbuffer := \<lparr>rb_start = 0, rb_size = 8, rb_mode = 0,
     rb_elements = [Some (data_packet 1 1), Some (data_packet READ_TICK 1), Some (data_packet 1 2)] @ replicate 5 None,
     rb_end = 3\<rparr>\<rparr>"

lemma tick_thread_queued: "queued tick_thread [data_packet 1 1, data_packet READ_TICK 1, data_packet 1 2]"
  by (simp add: queued_def tick_thread_def rb_inv_def rb_contents_def rb_count_def ring_slice_def upt_rec)

theorem burst_ends_at_mark_witness:
  "\<exists>packets' t'. trace_pread_packet_hasher_thread tick_thread (replicate 4 None) 4 = Inr (Some (1, packets', t')) \<and>
     trace_pread_packet_hasher_thread t' packets' 4 = Inr (Some (READ_TICK, packets', t'))"
proof -
  have q: "queued tick_thread (data_packet 1 1 # [] @ data_packet READ_TICK 1 # [data_packet 1 2])"
    using tick_thread_queued by simp
  have v: "0 < sint (p_error (data_packet 1 1))" "th_format_data tick_thread = None"
    "sint (p_error (data_packet READ_TICK 1)) \<le> 0" "p_error (data_packet READ_TICK 1) \<noteq> READ_MESSAGE"
    "p_error (data_packet READ_TICK 1) = READ_TICK" by code_simp+
  obtain packets' and t' :: "u64 list libtrace_thread" where
    "trace_pread_packet_hasher_thread tick_thread (replicate 4 None) 4 = Inr (Some (of_nat (Suc (length [])), packets', t'))"
    "\<forall>packets'' nb''. trace_pread_packet_hasher_thread t' packets'' nb'' =
       Inr (Some (p_error (data_packet READ_TICK 1), packets'', t'))"
    using burst_ends_at_mark [OF q _ v(2) _ _ v(3,4), of 4 "replicate 4 None"] v(1) by auto
  then show ?thesis unfolding v(5) by auto
qed

text \<open>
  When the tick is first in a burst, the end of the trace behind it counts as a packet, and
  dispatching the burst aborts.
\<close>

lemma tick_then_end_aborts:
  "case trace_pread_packet_hasher_thread
       (order_thread\<lparr>th_rbuffer := \<lparr>rb_start = 0, rb_size = 4, rb_mode = 0,
          rb_elements = [Some (data_packet READ_TICK 1), Some (data_packet READ_EOF 0), None, None], rb_end = 2\<rparr>\<rparr>)
       (replicate 4 None) 4 of
     Inr (Some (nb, packets, t)) \<Rightarrow> nb = 2 \<and>
       dispatch_packets order_cbs (\<lambda>_ _ _. Inl AssertFail) t packets (unat nb) 0 0 False = Inl AssertFail
   | _ \<Rightarrow> False"
  by code_simp

lemma read_packet_wf:
  "wf_packet (fixed_format TRACE_TYPE_ETH 46 46 0) TRACE_TYPE_ETH 46 46 0 (vlan_packet\<lparr>p_error := 46\<rparr>)"
proof -
  have "described (fixed_format TRACE_TYPE_ETH 46 46 0) (vlan_packet\<lparr>p_error := 46\<rparr>) TRACE_TYPE_ETH 46 46"
    by (rule described_fixed) (simp_all add: vlan_packet_def trace_create_packet_def trace_clear_cache_def)
  then show ?thesis
    by (simp add: wf_packet_def vlan_packet_def trace_create_packet_def trace_clear_cache_def
        packet_bytes_def lookahead_def)
qed

theorem software_hasher_unbalanced_witness:
  "\<exists>h qs. lt_hasher (snd (trace_set_hasher None (\<lambda>_. 77) (example_trace :: (hash_fn, unit) libtrace) HASHER_BIDIRECTIONAL None)) = Some h \<and>
    hasher_entry (run_hasher (fixed_format TRACE_TYPE_ETH 46 46 0) h) 2 0 (\<lambda>_. False)
      (map HasherRead ([vlan_packet\<lparr>p_error := 46\<rparr>, vlan_packet\<lparr>p_error := 46\<rparr>] @ [mark_packet 0 0])) (replicate 2 []) = Inr qs \<and>
    map length qs = [3, 1]"
proof -
  let ?ps = "[vlan_packet\<lparr>p_error := 46\<rparr>, vlan_packet\<lparr>p_error := 46\<rparr>]"
  have e: "sint (p_error (mark_packet 0 0)) < 1" by code_simp
  have "\<exists>h qs. lt_hasher (snd (trace_set_hasher None (\<lambda>_. 77) (example_trace :: (hash_fn, unit) libtrace) HASHER_BIDIRECTIONAL None)) = Some h \<and>
    hasher_entry (run_hasher (fixed_format TRACE_TYPE_ETH 46 46 0) h) 2 0 (\<lambda>_. False)
      (map HasherRead (?ps @ [mark_packet 0 0])) (replicate 2 []) = Inr qs \<and>
    map length qs = (length ?ps + 1) # replicate (2 - 1) 1"
  proof (rule software_hasher_unbalanced)
    fix p assume "p \<in> set ?ps"
    then have p: "p = vlan_packet\<lparr>p_error := 46\<rparr>" by simp
    have "1 \<le> sint (p_error p)" by (simp add: p)
    then show "1 \<le> sint (p_error p) \<and> (\<exists>lt cap wire b. wf_packet (fixed_format TRACE_TYPE_ETH 46 46 0) lt cap wire b p \<and>
        frame_ok (p_mem p) b lt (packet_bytes cap wire))"
      using read_packet_wf eth_frame_ok unfolding p by blast
  qed (use e in simp_all)
  moreover have "(length ?ps + 1) # replicate (2 - 1) 1 = [3, 1]" by simp
  ultimately show ?thesis by (simp only:)
qed

end
