(* ===== verification/Par_Threads.thy ===== *)
theory Par_Threads
  imports Par_Config Par_Dispatch
begin

text \<open>
  The threads of the parallel framework and how they are paused, resumed and stopped, from
  \<open>lib/trace_parallel.c\<close>: the states of threads and of the trace, the messages between them, and
  the interleaved system of the controlling thread, the per-packet threads, the hasher and the
  reporter.
\<close>

section \<open>States and messages\<close>

datatype thread_types = THREAD_EMPTY | THREAD_HASHER | THREAD_PERPKT | THREAD_REPORTER | THREAD_KEEPALIVE

datatype thread_states = THREAD_RUNNING | THREAD_FINISHING | THREAD_FINISHED | THREAD_PAUSED

datatype thread_ref = Perpkt nat | Hasher | Reporter | Keepalive

text \<open>
  Where a thread is: in its main loop, handling a request to pause (giving the packets it still has
  to the user), waiting for the end of a pause, on its way out, or ended.
\<close>

datatype thread_pc = InLoop | Pausing | Waiting | Stopping | Ended

record par_message =
  msg_code :: libtrace_messages
  msg_data :: u64
  msg_sender :: "thread_ref option"

text \<open>
  A thread with the messages in its queue and the number of readers that wait for one.
\<close>

record par_thread =
  pt_type :: thread_types
  pt_state :: thread_states
  pt_tid :: nat
  pt_messages :: "par_message list"
  pt_readers :: nat
  pt_pc :: thread_pc

text \<open>
  The trace: its state, whether it is started, the threads, the number of per-packet threads in
  each state, whether the user has callbacks for the reporter, and whether the lock of the trace
  is held by a call that has returned.
\<close>

record par_trace =
  par_state :: trace_state
  par_started :: bool
  par_threads :: "thread_ref \<Rightarrow> par_thread"
  par_count :: nat
  par_thread_states :: "thread_states \<Rightarrow> int"
  par_reporter_cbs :: bool
  par_lock_left :: bool

definition set_thread :: "thread_ref \<Rightarrow> par_thread \<Rightarrow> par_trace \<Rightarrow> par_trace" where
  "set_thread r t tr = tr\<lparr>par_threads := (par_threads tr)(r := t)\<rparr>"

definition libtrace_change_state :: "par_trace \<Rightarrow> trace_state \<Rightarrow> par_trace" where
  "libtrace_change_state tr new_state = tr\<lparr>par_state := new_state\<rparr>"

definition count_state :: "thread_states \<Rightarrow> thread_states \<Rightarrow> (thread_states \<Rightarrow> int) \<Rightarrow> thread_states \<Rightarrow> int" where
  "count_state prev new c = (let c = c(prev := c prev - 1) in c(new := c new + 1))"

definition thread_change_state :: "par_trace \<Rightarrow> thread_ref \<Rightarrow> thread_states \<Rightarrow> par_trace" where
  "thread_change_state tr r new_state =
     (let t = par_threads tr r; prev_state = pt_state t;
          tr = set_thread r (t\<lparr>pt_state := new_state\<rparr>) tr;
          tr = (if pt_type t = THREAD_PERPKT
                then tr\<lparr>par_thread_states := count_state prev_state new_state (par_thread_states tr)\<rparr> else tr) in
      if par_thread_states tr THREAD_FINISHED = int (par_count tr) then libtrace_change_state tr STATE_FINISHED else tr)"

definition trace_has_dedicated_hasher :: "par_trace \<Rightarrow> bool" where
  "trace_has_dedicated_hasher tr \<longleftrightarrow> pt_type (par_threads tr Hasher) = THREAD_HASHER"

definition trace_has_reporter :: "par_trace \<Rightarrow> bool res" where
  "trace_has_reporter tr = assertr (par_state tr \<noteq> STATE_NEW)
     (Inr (pt_type (par_threads tr Reporter) = THREAD_REPORTER \<and> par_reporter_cbs tr))"

definition trace_has_finished :: "par_trace \<Rightarrow> bool" where
  "trace_has_finished tr \<longleftrightarrow> par_state tr = STATE_FINISHED \<or> par_state tr = STATE_JOINED"

definition trace_get_perpkt_threads :: "par_trace \<Rightarrow> nat" where
  "trace_get_perpkt_threads tr = par_count tr"

text \<open>The descriptor of the thread that calls, given the number of its thread.\<close>

definition get_thread_table :: "par_trace \<Rightarrow> nat \<Rightarrow> thread_ref option" where
  "get_thread_table tr tid = map_option Perpkt (List.find (\<lambda>i. pt_tid (par_threads tr (Perpkt i)) = tid) [0..<par_count tr])"

definition get_thread_descriptor :: "par_trace \<Rightarrow> nat \<Rightarrow> thread_ref option" where
  "get_thread_descriptor tr tid =
     (case get_thread_table tr tid of
        Some r \<Rightarrow> Some r
      | None \<Rightarrow>
          if pt_type (par_threads tr Hasher) = THREAD_REPORTER \<and> pt_tid (par_threads tr Reporter) = tid then Some Reporter
          else if pt_type (par_threads tr Hasher) = THREAD_HASHER \<and> pt_tid (par_threads tr Hasher) = tid then Some Hasher
          else None)"

text \<open>The counter of a message queue, less the readers that wait; the calls report no negative number.\<close>

definition queue_count :: "par_thread \<Rightarrow> int" where
  "queue_count t = int (length (pt_messages t)) - int (pt_readers t)"

definition message :: "libtrace_messages \<Rightarrow> u64 \<Rightarrow> par_message" where
  "message code data = \<lparr>msg_code = code, msg_data = data, msg_sender = None\<rparr>"

definition set_sender :: "par_trace \<Rightarrow> nat \<Rightarrow> par_message \<Rightarrow> par_message" where
  "set_sender tr self m = (if msg_sender m = None then m\<lparr>msg_sender := get_thread_descriptor tr self\<rparr> else m)"

definition put_message :: "thread_ref \<Rightarrow> par_message \<Rightarrow> par_trace \<Rightarrow> par_trace" where
  "put_message r m tr = (let t = par_threads tr r in set_thread r (t\<lparr>pt_messages := pt_messages t @ [m]\<rparr>) tr)"

definition trace_message_thread :: "nat \<Rightarrow> par_trace \<Rightarrow> thread_ref \<Rightarrow> par_message \<Rightarrow> int \<times> par_trace" where
  "trace_message_thread self tr r m =
     (let tr = put_message r (set_sender tr self m) tr; ret = queue_count (par_threads tr r) in
      (if ret < 0 then 0 else ret, tr))"

text \<open>-1: there is no reporter, or it has ended.\<close>

definition trace_message_reporter :: "nat \<Rightarrow> par_trace \<Rightarrow> par_message \<Rightarrow> (int \<times> par_trace) res" where
  "trace_message_reporter self tr m =
     bindr (trace_has_reporter tr) (\<lambda>has.
       let s = pt_state (par_threads tr Reporter) in
       if \<not> has \<or> \<not> (s = THREAD_RUNNING \<or> s = THREAD_PAUSED) then Inr (- 1, tr)
       else Inr (trace_message_thread self tr Reporter m))"

definition trace_post_reporter :: "nat \<Rightarrow> par_trace \<Rightarrow> (int \<times> par_trace) res" where
  "trace_post_reporter self tr = trace_message_reporter self tr (message MESSAGE_POST_REPORTER 0)"

text \<open>The number of threads that missed the message, negated.\<close>

fun message_from :: "par_message \<Rightarrow> nat list \<Rightarrow> int \<Rightarrow> par_trace \<Rightarrow> int \<times> par_trace" where
  "message_from m [] missed tr = (- missed, tr)"
| "message_from m (i # is) missed tr =
     (let s = pt_state (par_threads tr (Perpkt i)) in
      if s = THREAD_RUNNING \<or> s = THREAD_PAUSED then message_from m is missed (put_message (Perpkt i) m tr)
      else message_from m is (missed + 1) tr)"

definition trace_message_perpkts :: "nat \<Rightarrow> par_trace \<Rightarrow> par_message \<Rightarrow> int \<times> par_trace" where
  "trace_message_perpkts self tr m = message_from (set_sender tr self m) [0..<par_count tr] 0 tr"

text \<open>
  The receiving side. A thread that is not given is the calling one. Waiting in \<open>get\<close> for a
  message that is not there is the result \<open>None\<close>.
\<close>

definition thread_or_self :: "nat \<Rightarrow> par_trace \<Rightarrow> thread_ref option \<Rightarrow> thread_ref option" where
  "thread_or_self self tr t = (case t of None \<Rightarrow> get_thread_descriptor tr self | Some r \<Rightarrow> Some r)"

definition libtrace_thread_get_message_count :: "nat \<Rightarrow> par_trace \<Rightarrow> thread_ref option \<Rightarrow> int" where
  "libtrace_thread_get_message_count self tr t =
     (case thread_or_self self tr t of None \<Rightarrow> - 1
      | Some r \<Rightarrow> let ret = queue_count (par_threads tr r) in if ret < 0 then 0 else ret)"

definition take_message :: "thread_ref \<Rightarrow> par_trace \<Rightarrow> (par_message \<times> par_trace) option" where
  "take_message r tr =
     (let t = par_threads tr r in
      case pt_messages t of [] \<Rightarrow> None | m # ms \<Rightarrow> Some (m, set_thread r (t\<lparr>pt_messages := ms\<rparr>) tr))"

definition libtrace_thread_get_message ::
  "nat \<Rightarrow> par_trace \<Rightarrow> thread_ref option \<Rightarrow> (int \<times> par_message option \<times> par_trace) option" where
  "libtrace_thread_get_message self tr t =
     (case thread_or_self self tr t of None \<Rightarrow> Some (- 1, None, tr)
      | Some r \<Rightarrow> let ret = queue_count (par_threads tr r) in
          (case take_message r tr of None \<Rightarrow> None
           | Some (m, tr) \<Rightarrow> Some (if ret < 0 then 0 else ret, Some m, tr)))"

definition libtrace_thread_try_get_message ::
  "nat \<Rightarrow> par_trace \<Rightarrow> thread_ref option \<Rightarrow> (int \<times> par_message option \<times> par_trace) option" where
  "libtrace_thread_try_get_message self tr t =
     (case thread_or_self self tr t of None \<Rightarrow> Some (- 1, None, tr)
      | Some r \<Rightarrow>
          if queue_count (par_threads tr r) \<le> 0 then Some (- 1, None, tr)
          else (case take_message r tr of None \<Rightarrow> None | Some (m, tr) \<Rightarrow> Some (0, Some m, tr)))"

section \<open>Pausing, restarting, stopping\<close>

definition set_pc :: "thread_ref \<Rightarrow> thread_pc \<Rightarrow> par_trace \<Rightarrow> par_trace" where
  "set_pc r pc tr = set_thread r ((par_threads tr r)\<lparr>pt_pc := pc\<rparr>) tr"

abbreviation paused :: "par_trace \<Rightarrow> bool" where
  "paused tr \<equiv> par_state tr = STATE_PAUSED \<or> par_state tr = STATE_PAUSING"

text \<open>
  A thread that holds the lock enters the pause: it is paused, and waits on the condition variable
  while the trace is; when the trace is not paused it goes on at once.
\<close>

definition trace_thread_pause :: "thread_ref \<Rightarrow> par_trace \<Rightarrow> par_trace" where
  "trace_thread_pause r tr =
     (let tr = thread_change_state tr r THREAD_PAUSED in
      if paused tr then set_pc r Waiting tr
      else set_pc r InLoop (thread_change_state tr r THREAD_RUNNING))"

definition resume_thread :: "thread_ref \<Rightarrow> par_trace \<Rightarrow> par_trace" where
  "resume_thread r tr = set_pc r InLoop (thread_change_state tr r THREAD_RUNNING)"

text \<open>
  The start of \<open>trace_ppause\<close> under the lock: \<open>Some\<close> code when it returns at once. The return with
  an error leaves the lock locked.
\<close>

definition ppause_enter :: "par_trace \<Rightarrow> int option \<times> par_trace" where
  "ppause_enter tr =
     (if par_state tr = STATE_PAUSED then (Some 0, tr)
      else if \<not> par_started tr \<or> par_state tr \<noteq> STATE_RUNNING then (Some (- 1), tr\<lparr>par_lock_left := True\<rparr>)
      else (None, libtrace_change_state tr STATE_PAUSING))"

text \<open>
  Restarting a paused trace, without the resetting of first packets and statistics: \<open>err\<close> is the result of
  starting the format.
\<close>

definition prestart_states :: "int \<Rightarrow> par_trace \<Rightarrow> (int \<times> par_trace) res" where
  "prestart_states err tr =
     (if par_state tr \<noteq> STATE_PAUSED then Inr (- 1, tr)
      else assertr (par_thread_states tr THREAD_RUNNING = 0)
        (if err = 0 then Inr (err, libtrace_change_state (tr\<lparr>par_started := True\<rparr>) STATE_RUNNING) else Inr (err, tr)))"

text \<open>
  The messages of \<open>trace_pstop\<close>, once the trace is paused: every thread that has not ended gets the
  request twice, an ended one once.
\<close>

definition pstop_messages :: "nat \<Rightarrow> par_trace \<Rightarrow> par_trace" where
  "pstop_messages self tr =
     (let m = set_sender tr self (message MESSAGE_DO_STOP 0);
          tr = snd (trace_message_perpkts self tr m);
          tr = (if trace_has_dedicated_hasher tr then snd (trace_message_thread self tr Hasher m) else tr) in
      fold (\<lambda>i tr. snd (trace_message_thread self tr (Perpkt i) m)) [0..<par_count tr] tr)"

text \<open>The end of a per-packet thread: after an error every thread is asked to stop.\<close>

definition perpkt_error :: "nat \<Rightarrow> nat \<Rightarrow> par_trace \<Rightarrow> par_trace" where
  "perpkt_error self i tr =
     set_pc (Perpkt i) Stopping
       (snd (trace_message_perpkts self tr (message MESSAGE_DO_STOP 0\<lparr>msg_sender := Some (Perpkt i)\<rparr>)))"

definition perpkt_finish :: "nat \<Rightarrow> nat \<Rightarrow> par_trace \<Rightarrow> par_trace res" where
  "perpkt_finish self i tr =
     (let tr = set_pc (Perpkt i) Ended (thread_change_state tr (Perpkt i) THREAD_FINISHED) in
      bindr (trace_has_reporter tr) (\<lambda>has.
        if has then bindr (trace_post_reporter self tr) (\<lambda>r. Inr (snd r)) else Inr tr))"

definition perpkt_handle :: "nat \<Rightarrow> par_message \<Rightarrow> par_trace \<Rightarrow> par_trace" where
  "perpkt_handle i m tr =
     (case msg_code m of
        MESSAGE_DO_PAUSE \<Rightarrow> set_pc (Perpkt i) Pausing tr
      | MESSAGE_DO_STOP \<Rightarrow> set_pc (Perpkt i) Stopping tr
      | _ \<Rightarrow> tr)"

text \<open>
  The messages of the hasher. The request to stop is only checked: the packet it marks as the last
  is read over in the next round.
\<close>

definition hasher_handle :: "par_message \<Rightarrow> par_trace \<Rightarrow> par_trace res" where
  "hasher_handle m tr =
     (case msg_code m of
        MESSAGE_DO_PAUSE \<Rightarrow> Inr (trace_thread_pause Hasher tr)
      | MESSAGE_DO_STOP \<Rightarrow> assertr (\<not> par_started tr) (assertr (par_state tr = STATE_FINISHED) (Inr tr))
      | _ \<Rightarrow> Inr tr)"

definition reporter_handle :: "par_message \<Rightarrow> par_trace \<Rightarrow> par_trace" where
  "reporter_handle m tr = (case msg_code m of MESSAGE_DO_PAUSE \<Rightarrow> set_pc Reporter Pausing tr | _ \<Rightarrow> tr)"

definition join_asserts :: "par_trace \<Rightarrow> bool" where
  "join_asserts tr \<longleftrightarrow>
     (\<forall>i<par_count tr. pt_state (par_threads tr (Perpkt i)) = THREAD_FINISHED) \<and>
     (trace_has_dedicated_hasher tr \<longrightarrow> pt_state (par_threads tr Hasher) = THREAD_FINISHED) \<and>
     (trace_has_reporter tr = Inr True \<longrightarrow> pt_state (par_threads tr Reporter) = THREAD_FINISHED)"

section \<open>Finding the calling thread\<close>

text \<open>
  A per-packet thread and the hasher find their descriptor by their number. The reporter never does: the test for it looks
  at the type of the hasher.
\<close>

lemma find_first: "List.find P xs = Some x \<Longrightarrow> x \<in> set xs \<and> P x"
  by (auto simp: find_Some_iff)

lemma get_thread_descriptor_perpkt:
  assumes "i < par_count tr" "\<And>j. j < par_count tr \<Longrightarrow> pt_tid (par_threads tr (Perpkt j)) = pt_tid (par_threads tr (Perpkt i)) \<Longrightarrow> j = i"
  shows "get_thread_descriptor tr (pt_tid (par_threads tr (Perpkt i))) = Some (Perpkt i)"
proof -
  let ?P = "\<lambda>j. pt_tid (par_threads tr (Perpkt j)) = pt_tid (par_threads tr (Perpkt i))"
  have "List.find ?P [0..<par_count tr] \<noteq> None" using assms(1) by (auto simp: find_None_iff)
  then obtain j where j: "List.find ?P [0..<par_count tr] = Some j" by blast
  then have "j = i" using find_first [OF j] assms(2) by auto
  with j show ?thesis by (simp add: get_thread_descriptor_def get_thread_table_def)
qed

lemma get_thread_descriptor_reporter:
  assumes "pt_type (par_threads tr Hasher) = THREAD_HASHER \<or> pt_type (par_threads tr Hasher) = THREAD_EMPTY"
  shows "get_thread_descriptor tr self \<noteq> Some Reporter"
  using assms by (auto simp: get_thread_descriptor_def get_thread_table_def split: option.splits)

end
