(* ===== verification/Par_Control.thy ===== *)
theory Par_Control
  imports Par_Threads
begin

text \<open>
  The interleaved system of the threads of a parallel trace: the controlling thread that calls
  \<open>trace_ppause\<close>, \<open>trace_pstop\<close>, \<open>trace_pstart\<close> (on a paused trace) and \<open>trace_join\<close>, and the per-packet
  threads, the hasher, the reporter and the keepalive thread of \<open>lib/trace_parallel.c\<close>. One step is
  what a thread does in one critical section, or one message sent or taken. What the threads
  read is left open: a read can give packets, the end of the trace or an error at any time. The
  controlling thread is none of the threads of the trace.
\<close>

section \<open>The steps\<close>

text \<open>
  Where the controlling thread is: outside the calls; in \<open>trace_ppause\<close> after the change of state, at the wait
  for the hasher, asking the threads, at the wait for them, asking and waiting for the reporter, stopping the
  format; in \<open>trace_pstop\<close> after the pause, before the release; in \<open>trace_join\<close>.
\<close>

datatype main_pc =
    MReady | MStart | MHasher | MAsk nat | MWait | MAskReporter | MReporter | MFormat
  | MStopAsk | MStopRelease | MJoin | MJoinTick

record par_sys =
  ps_tr :: par_trace
  ps_main :: main_pc
  ps_stop :: bool
  ps_aborted :: bool

abbreviation pc_of :: "par_trace \<Rightarrow> thread_ref \<Rightarrow> thread_pc" where
  "pc_of tr r \<equiv> pt_pc (par_threads tr r)"

definition end_thread :: "thread_ref \<Rightarrow> par_trace \<Rightarrow> par_trace" where
  "end_thread r tr = set_pc r Ended (thread_change_state tr r THREAD_FINISHED)"

definition threads_ended :: "par_trace \<Rightarrow> bool" where
  "threads_ended tr \<longleftrightarrow> (\<forall>i<par_count tr. pc_of tr (Perpkt i) = Ended) \<and>
     (trace_has_dedicated_hasher tr \<longrightarrow> pc_of tr Hasher = Ended) \<and>
     (trace_has_reporter tr = Inr True \<longrightarrow> pc_of tr Reporter = Ended)"

text \<open>
  The steps of the threads of the trace; a step that needs the lock of the trace waits for ever
  when a call has left it locked.
\<close>

inductive thread_step :: "par_trace \<Rightarrow> par_trace \<Rightarrow> bool" where
  pp_message: "i < par_count tr \<Longrightarrow> pc_of tr (Perpkt i) = InLoop \<Longrightarrow> take_message (Perpkt i) tr = Some (m, tr') \<Longrightarrow>
    thread_step tr (perpkt_handle i m tr')"
| pp_eof: "i < par_count tr \<Longrightarrow> pc_of tr (Perpkt i) = InLoop \<Longrightarrow> thread_step tr (set_pc (Perpkt i) Stopping tr)"
| pp_error: "i < par_count tr \<Longrightarrow>
    pc_of tr (Perpkt i) = InLoop \<or> pc_of tr (Perpkt i) = Pausing \<and> trace_has_dedicated_hasher tr \<Longrightarrow>
    thread_step tr (perpkt_error self i tr)"
| pp_pause: "i < par_count tr \<Longrightarrow> pc_of tr (Perpkt i) = Pausing \<Longrightarrow> \<not> par_lock_left tr \<Longrightarrow>
    thread_step tr (trace_thread_pause (Perpkt i) tr)"
| pp_finish: "i < par_count tr \<Longrightarrow> pc_of tr (Perpkt i) = Stopping \<Longrightarrow> \<not> par_lock_left tr \<Longrightarrow>
    perpkt_finish self i tr = Inr tr' \<Longrightarrow> thread_step tr tr'"
| resume: "(case r of Perpkt i \<Rightarrow> i < par_count tr | _ \<Rightarrow> True) \<Longrightarrow> pc_of tr r = Waiting \<Longrightarrow> \<not> paused tr \<Longrightarrow>
    \<not> par_lock_left tr \<Longrightarrow> thread_step tr (resume_thread r tr)"
| h_message: "trace_has_dedicated_hasher tr \<Longrightarrow> pc_of tr Hasher = InLoop \<Longrightarrow> take_message Hasher tr = Some (m, tr') \<Longrightarrow>
    msg_code m = MESSAGE_DO_PAUSE \<longrightarrow> \<not> par_lock_left tr \<Longrightarrow> hasher_handle m tr' = Inr tr'' \<Longrightarrow> thread_step tr tr''"
| h_eof: "trace_has_dedicated_hasher tr \<Longrightarrow> pc_of tr Hasher = InLoop \<Longrightarrow> thread_step tr (set_pc Hasher Stopping tr)"
| r_message: "pt_type (par_threads tr Reporter) = THREAD_REPORTER \<Longrightarrow> pc_of tr Reporter = InLoop \<Longrightarrow>
    take_message Reporter tr = Some (m, tr') \<Longrightarrow> thread_step tr (reporter_handle m tr')"
| r_pause: "pc_of tr Reporter = Pausing \<Longrightarrow> \<not> par_lock_left tr \<Longrightarrow> thread_step tr (trace_thread_pause Reporter tr)"
| r_end: "pt_type (par_threads tr Reporter) = THREAD_REPORTER \<Longrightarrow> pc_of tr Reporter = InLoop \<Longrightarrow> trace_has_finished tr \<Longrightarrow>
    thread_step tr (set_pc Reporter Stopping tr)"
| k_tick: "pt_type (par_threads tr Keepalive) = THREAD_KEEPALIVE \<Longrightarrow> pc_of tr Keepalive = InLoop \<Longrightarrow>
    thread_step tr (snd (trace_message_perpkts self tr (message MESSAGE_TICK_INTERVAL data)))"
| k_finished: "pt_type (par_threads tr Keepalive) = THREAD_KEEPALIVE \<Longrightarrow> pc_of tr Keepalive = InLoop \<Longrightarrow>
    par_state tr = STATE_FINISHED \<Longrightarrow> thread_step tr (set_pc Keepalive Stopping tr)"
| k_stop: "pt_type (par_threads tr Keepalive) = THREAD_KEEPALIVE \<Longrightarrow> pc_of tr Keepalive = InLoop \<Longrightarrow>
    take_message Keepalive tr = Some (m, tr') \<Longrightarrow> thread_step tr (set_pc Keepalive Stopping tr')"
| end_step: "r = Hasher \<or> r = Reporter \<or> r = Keepalive \<Longrightarrow> pc_of tr r = Stopping \<Longrightarrow> \<not> par_lock_left tr \<Longrightarrow>
    thread_step tr (end_thread r tr)"
| user_message: "(case r of Perpkt i \<Rightarrow> i < par_count tr | Reporter \<Rightarrow> True | _ \<Rightarrow> False) \<Longrightarrow>
    msg_code m \<noteq> MESSAGE_DO_PAUSE \<Longrightarrow> msg_code m \<noteq> MESSAGE_DO_STOP \<Longrightarrow>
    thread_step tr (snd (trace_message_thread self tr r m))"

text \<open>
  A step of the system is one of a thread or of the controlling thread; an assertion that fails
  aborts the program.
\<close>

definition goto_main :: "main_pc \<Rightarrow> par_trace \<Rightarrow> par_sys \<Rightarrow> par_sys" where
  "goto_main pc tr s = s\<lparr>ps_tr := tr, ps_main := pc\<rparr>"

inductive main_step :: "par_sys \<Rightarrow> par_sys \<Rightarrow> bool" where
  m_pause: "ps_main s = MReady \<Longrightarrow> \<not> par_lock_left (ps_tr s) \<Longrightarrow> ppause_enter (ps_tr s) = (None, tr) \<Longrightarrow>
    main_step s (goto_main MStart tr s\<lparr>ps_stop := stop\<rparr>)"
| m_pause_fails: "ps_main s = MReady \<Longrightarrow> \<not> par_lock_left (ps_tr s) \<Longrightarrow> ppause_enter (ps_tr s) = (Some (- 1), tr) \<Longrightarrow>
    main_step s (goto_main MReady tr s)"
| m_stop_paused: "ps_main s = MReady \<Longrightarrow> \<not> par_lock_left (ps_tr s) \<Longrightarrow> ppause_enter (ps_tr s) = (Some 0, tr) \<Longrightarrow>
    main_step s (goto_main MStopAsk tr s)"
| m_ask_hasher: "ps_main s = MStart \<Longrightarrow> trace_has_dedicated_hasher (ps_tr s) \<Longrightarrow>
    main_step s (goto_main MHasher (snd (trace_message_thread self (ps_tr s) Hasher (message MESSAGE_DO_PAUSE 0))) s)"
| m_no_hasher: "ps_main s = MStart \<Longrightarrow> \<not> trace_has_dedicated_hasher (ps_tr s) \<Longrightarrow> main_step s (goto_main (MAsk 0) (ps_tr s) s)"
| m_hasher: "ps_main s = MHasher \<Longrightarrow> pt_state (par_threads (ps_tr s) Hasher) \<noteq> THREAD_RUNNING \<Longrightarrow>
    main_step s (goto_main (MAsk 0) (ps_tr s) s)"
| m_ask: "ps_main s = MAsk k \<Longrightarrow> k < par_count (ps_tr s) \<Longrightarrow>
    main_step s (goto_main (MAsk (Suc k)) (snd (trace_message_thread self (ps_tr s) (Perpkt k) (message MESSAGE_DO_PAUSE 0))) s)"
| m_asked: "ps_main s = MAsk k \<Longrightarrow> \<not> k < par_count (ps_tr s) \<Longrightarrow> main_step s (goto_main MWait (ps_tr s) s)"
| m_wait: "ps_main s = MWait \<Longrightarrow> par_thread_states (ps_tr s) THREAD_RUNNING = 0 \<Longrightarrow>
    main_step s (goto_main MAskReporter (ps_tr s) s)"
| m_ask_reporter: "ps_main s = MAskReporter \<Longrightarrow> trace_has_reporter (ps_tr s) = Inr True \<Longrightarrow>
    main_step s (goto_main MReporter (snd (trace_message_thread self (ps_tr s) Reporter (message MESSAGE_DO_PAUSE 0))) s)"
| m_no_reporter: "ps_main s = MAskReporter \<Longrightarrow> trace_has_reporter (ps_tr s) = Inr False \<Longrightarrow>
    main_step s (goto_main MFormat (ps_tr s) s)"
| m_reporter: "ps_main s = MReporter \<Longrightarrow> pt_state (par_threads (ps_tr s) Reporter) \<noteq> THREAD_RUNNING \<Longrightarrow>
    main_step s (goto_main MFormat (ps_tr s) s)"
| m_format: "ps_main s = MFormat \<Longrightarrow>
    main_step s (goto_main (if ps_stop s then MStopAsk else MReady)
      (libtrace_change_state ((ps_tr s)\<lparr>par_started := False\<rparr>) STATE_PAUSED) s)"
| m_stop_ask: "ps_main s = MStopAsk \<Longrightarrow> main_step s (goto_main MStopRelease (pstop_messages self (ps_tr s)) s)"
| m_stop_release: "ps_main s = MStopRelease \<Longrightarrow>
    main_step s (goto_main MReady (libtrace_change_state (ps_tr s) STATE_FINISHING) s)"
| m_restart: "ps_main s = MReady \<Longrightarrow> \<not> par_lock_left (ps_tr s) \<Longrightarrow> prestart_states err (ps_tr s) = Inr (ret, tr) \<Longrightarrow>
    main_step s (goto_main MReady tr s)"
| m_restart_aborts: "ps_main s = MReady \<Longrightarrow> \<not> par_lock_left (ps_tr s) \<Longrightarrow> prestart_states err (ps_tr s) = Inl e \<Longrightarrow>
    main_step s (s\<lparr>ps_aborted := True\<rparr>)"
| m_join: "ps_main s = MReady \<Longrightarrow> main_step s (goto_main MJoin (ps_tr s) s)"
| m_joined: "ps_main s = MJoin \<Longrightarrow> threads_ended (ps_tr s) \<Longrightarrow> join_asserts (ps_tr s) \<Longrightarrow>
    main_step s (goto_main MJoinTick (if pt_type (par_threads (ps_tr s) Keepalive) = THREAD_KEEPALIVE
      then snd (trace_message_thread self (ps_tr s) Keepalive (message MESSAGE_DO_STOP 0)) else ps_tr s) s)"
| m_join_aborts: "ps_main s = MJoin \<Longrightarrow> threads_ended (ps_tr s) \<Longrightarrow> \<not> join_asserts (ps_tr s) \<Longrightarrow>
    main_step s (s\<lparr>ps_aborted := True\<rparr>)"
| m_join_done: "ps_main s = MJoinTick \<Longrightarrow>
    pt_type (par_threads (ps_tr s) Keepalive) = THREAD_KEEPALIVE \<longrightarrow> pc_of (ps_tr s) Keepalive = Ended \<Longrightarrow>
    \<not> par_lock_left (ps_tr s) \<Longrightarrow> main_step s (goto_main MReady (libtrace_change_state (ps_tr s) STATE_JOINED) s)"

inductive thread_abort :: "par_trace \<Rightarrow> bool" where
  pp_abort: "i < par_count tr \<Longrightarrow> pc_of tr (Perpkt i) = Stopping \<Longrightarrow> \<not> par_lock_left tr \<Longrightarrow>
    perpkt_finish self i tr = Inl e \<Longrightarrow> thread_abort tr"
| h_abort: "trace_has_dedicated_hasher tr \<Longrightarrow> pc_of tr Hasher = InLoop \<Longrightarrow> take_message Hasher tr = Some (m, tr') \<Longrightarrow>
    hasher_handle m tr' = Inl e \<Longrightarrow> thread_abort tr"

inductive par_step :: "par_sys \<Rightarrow> par_sys \<Rightarrow> bool" where
  main: "\<not> ps_aborted s \<Longrightarrow> main_step s s' \<Longrightarrow> par_step s s'"
| thread: "\<not> ps_aborted s \<Longrightarrow> thread_step (ps_tr s) tr \<Longrightarrow> par_step s (s\<lparr>ps_tr := tr\<rparr>)"
| abort: "\<not> ps_aborted s \<Longrightarrow> thread_abort (ps_tr s) \<Longrightarrow> par_step s (s\<lparr>ps_aborted := True\<rparr>)"

text \<open>The trace as \<open>trace_pstart\<close> leaves it: \<open>n\<close> per-packet threads, and the other threads as asked for.\<close>

definition started_thread :: "thread_types \<Rightarrow> nat \<Rightarrow> par_thread" where
  "started_thread ty tid = \<lparr>pt_type = ty, pt_state = THREAD_RUNNING, pt_tid = tid, pt_messages = [], pt_readers = 0, pt_pc = InLoop\<rparr>"

definition pstart_trace :: "nat \<Rightarrow> bool \<Rightarrow> bool \<Rightarrow> bool \<Rightarrow> par_trace" where
  "pstart_trace n hasher reporter ticks =
     \<lparr>par_state = STATE_RUNNING, par_started = True,
      par_threads = (\<lambda>r. case r of
          Perpkt i \<Rightarrow> started_thread (if i < n then THREAD_PERPKT else THREAD_EMPTY) (i + 4)
        | Hasher \<Rightarrow> started_thread (if hasher then THREAD_HASHER else THREAD_EMPTY) 1
        | Reporter \<Rightarrow> started_thread (if reporter then THREAD_REPORTER else THREAD_EMPTY) 2
        | Keepalive \<Rightarrow> started_thread (if ticks then THREAD_KEEPALIVE else THREAD_EMPTY) 3),
      par_count = n, par_thread_states = (\<lambda>_. 0)(THREAD_RUNNING := int n),
      par_reporter_cbs = reporter, par_lock_left = False\<rparr>"

definition pstart_sys :: "nat \<Rightarrow> bool \<Rightarrow> bool \<Rightarrow> bool \<Rightarrow> par_sys" where
  "pstart_sys n hasher reporter ticks =
     \<lparr>ps_tr = pstart_trace n hasher reporter ticks, ps_main = MReady, ps_stop = False, ps_aborted = False\<rparr>"

inductive par_reachable :: "par_sys \<Rightarrow> par_sys \<Rightarrow> bool" for s0 where
  init: "par_reachable s0 s0"
| step: "par_reachable s0 s \<Longrightarrow> par_step s s' \<Longrightarrow> par_reachable s0 s'"

section \<open>The invariant\<close>

fun state_of_pc :: "thread_pc \<Rightarrow> thread_states" where
  "state_of_pc Ended = THREAD_FINISHED"
| "state_of_pc Waiting = THREAD_PAUSED"
| "state_of_pc _ = THREAD_RUNNING"

definition quiet :: "par_trace \<Rightarrow> bool" where
  "quiet tr \<longleftrightarrow> (\<forall>i<par_count tr. pc_of tr (Perpkt i) = Waiting \<or> pc_of tr (Perpkt i) = Ended)"

definition all_ended :: "par_trace \<Rightarrow> bool" where
  "all_ended tr \<longleftrightarrow> (\<forall>i<par_count tr. pc_of tr (Perpkt i) = Ended)"

definition requested :: "libtrace_messages \<Rightarrow> par_trace \<Rightarrow> thread_ref \<Rightarrow> bool" where
  "requested code tr r \<longleftrightarrow> code \<in> msg_code ` set (pt_messages (par_threads tr r))"

text \<open>A thread that has been asked to pause, or to stop, and has not yet looked at its messages still has the request.\<close>

definition pause_asked :: "par_trace \<Rightarrow> nat \<Rightarrow> bool" where
  "pause_asked tr i \<longleftrightarrow> pc_of tr (Perpkt i) = InLoop \<longrightarrow> requested MESSAGE_DO_PAUSE tr (Perpkt i)"

definition stop_asked :: "par_trace \<Rightarrow> nat \<Rightarrow> bool" where
  "stop_asked tr i \<longleftrightarrow> pc_of tr (Perpkt i) = Stopping \<or> pc_of tr (Perpkt i) = Ended \<or> requested MESSAGE_DO_STOP tr (Perpkt i)"

definition counts_ok :: "par_trace \<Rightarrow> bool" where
  "counts_ok tr \<longleftrightarrow> (\<forall>x. par_thread_states tr x = int (card {i. i < par_count tr \<and> pt_state (par_threads tr (Perpkt i)) = x}))"

definition threads_ok :: "par_trace \<Rightarrow> bool" where
  "threads_ok tr \<longleftrightarrow> 0 < par_count tr \<and> counts_ok tr \<and>
     (\<forall>r. pt_state (par_threads tr r) = state_of_pc (pc_of tr r)) \<and>
     (\<forall>r. pt_type (par_threads tr r) = THREAD_PERPKT \<longleftrightarrow> (\<exists>i<par_count tr. r = Perpkt i)) \<and>
     par_state tr \<notin> {STATE_NEW, STATE_DESTROYED, STATE_ERROR} \<and>
     (trace_has_finished tr \<longrightarrow> all_ended tr) \<and>
     (par_state tr = STATE_PAUSED \<longrightarrow> quiet tr) \<and>
     (par_state tr = STATE_FINISHING \<longrightarrow> (\<forall>i<par_count tr. stop_asked tr i))"

fun main_ok :: "main_pc \<Rightarrow> par_trace \<Rightarrow> bool" where
  "main_ok MReady tr \<longleftrightarrow> par_state tr \<noteq> STATE_PAUSING"
| "main_ok MStart tr \<longleftrightarrow> par_state tr \<in> {STATE_PAUSING, STATE_FINISHED}"
| "main_ok MHasher tr \<longleftrightarrow> par_state tr \<in> {STATE_PAUSING, STATE_FINISHED}"
| "main_ok (MAsk k) tr \<longleftrightarrow> par_state tr \<in> {STATE_PAUSING, STATE_FINISHED} \<and> (\<forall>i<min k (par_count tr). pause_asked tr i)"
| "main_ok MWait tr \<longleftrightarrow> par_state tr \<in> {STATE_PAUSING, STATE_FINISHED} \<and> (\<forall>i<par_count tr. pause_asked tr i)"
| "main_ok MAskReporter tr \<longleftrightarrow> par_state tr \<in> {STATE_PAUSING, STATE_FINISHED} \<and> quiet tr"
| "main_ok MReporter tr \<longleftrightarrow> par_state tr \<in> {STATE_PAUSING, STATE_FINISHED} \<and> quiet tr"
| "main_ok MFormat tr \<longleftrightarrow> par_state tr \<in> {STATE_PAUSING, STATE_FINISHED} \<and> quiet tr"
| "main_ok MStopAsk tr \<longleftrightarrow> par_state tr \<in> {STATE_PAUSED, STATE_FINISHED}"
| "main_ok MStopRelease tr \<longleftrightarrow> par_state tr \<in> {STATE_PAUSED, STATE_FINISHED} \<and> (\<forall>i<par_count tr. stop_asked tr i)"
| "main_ok MJoin tr \<longleftrightarrow> par_state tr \<noteq> STATE_PAUSING"
| "main_ok MJoinTick tr \<longleftrightarrow> par_state tr \<noteq> STATE_PAUSING \<and> all_ended tr"

definition par_inv :: "par_sys \<Rightarrow> bool" where
  "par_inv s \<longleftrightarrow> threads_ok (ps_tr s) \<and> main_ok (ps_main s) (ps_tr s)"

lemma card_update:
  fixes n :: nat
  assumes "i < n"
  shows "int (card {j. j < n \<and> (f(i := y)) j = x}) =
    int (card {j. j < n \<and> f j = x}) - (if f i = x then 1 else 0) + (if y = x then 1 else 0)"
proof -
  let ?R = "{j. j < n \<and> j \<noteq> i \<and> f j = x}"
  have fin: "finite ?R" by (rule finite_subset [of _ "{..<n}"]) auto
  have "{j. j < n \<and> f j = x} = (if f i = x then insert i ?R else ?R)"
    using assms by auto
  moreover have "{j. j < n \<and> (f(i := y)) j = x} = (if y = x then insert i ?R else ?R)"
    using assms by auto
  ultimately show ?thesis using fin by (simp only: card_insert_if split: if_split) simp
qed

lemma card_all: "int (card {j. j < (n :: nat) \<and> P j}) = int n \<longleftrightarrow> (\<forall>j<n. P j)"
proof -
  have "card {j. j < n \<and> P j} = n \<longleftrightarrow> {j. j < n \<and> P j} = {..<n}"
    by (metis (mono_tags, lifting) card_lessThan card_subset_eq finite_lessThan lessThan_iff mem_Collect_eq subsetI)
  then show ?thesis by auto
qed

lemma card_none: "int (card {j. j < (n :: nat) \<and> P j}) = 0 \<longleftrightarrow> (\<forall>j<n. \<not> P j)"
proof -
  have "finite {j. j < n \<and> P j}" by (rule finite_subset [of _ "{..<n}"]) auto
  then show ?thesis by auto
qed

subsection \<open>What the operations change\<close>

lemma change_state_simps [simp]:
  "par_threads (thread_change_state tr r x) = (par_threads tr)(r := (par_threads tr r)\<lparr>pt_state := x\<rparr>)"
  "par_count (thread_change_state tr r x) = par_count tr"
  "par_started (thread_change_state tr r x) = par_started tr"
  "par_lock_left (thread_change_state tr r x) = par_lock_left tr"
  "par_reporter_cbs (thread_change_state tr r x) = par_reporter_cbs tr"
  by (simp_all add: thread_change_state_def set_thread_def libtrace_change_state_def Let_def)

lemma set_pc_simps [simp]:
  "par_threads (set_pc r pc tr) = (par_threads tr)(r := (par_threads tr r)\<lparr>pt_pc := pc\<rparr>)"
  "par_count (set_pc r pc tr) = par_count tr"
  "par_started (set_pc r pc tr) = par_started tr"
  "par_lock_left (set_pc r pc tr) = par_lock_left tr"
  "par_reporter_cbs (set_pc r pc tr) = par_reporter_cbs tr"
  "par_state (set_pc r pc tr) = par_state tr"
  "par_thread_states (set_pc r pc tr) = par_thread_states tr"
  by (simp_all add: set_pc_def set_thread_def)

lemma put_message_simps [simp]:
  "par_threads (put_message r m tr) = (par_threads tr)(r := (par_threads tr r)\<lparr>pt_messages := pt_messages (par_threads tr r) @ [m]\<rparr>)"
  "par_count (put_message r m tr) = par_count tr"
  "par_started (put_message r m tr) = par_started tr"
  "par_lock_left (put_message r m tr) = par_lock_left tr"
  "par_reporter_cbs (put_message r m tr) = par_reporter_cbs tr"
  "par_state (put_message r m tr) = par_state tr"
  "par_thread_states (put_message r m tr) = par_thread_states tr"
  by (simp_all add: put_message_def set_thread_def Let_def)

lemma set_sender_code [simp]: "msg_code (set_sender tr self m) = msg_code m"
  by (simp add: set_sender_def)

lemma message_code [simp]: "msg_code (message code data) = code"
  by (simp add: message_def)

lemma message_thread_eq: "snd (trace_message_thread self tr r m) = put_message r (set_sender tr self m) tr"
  by (simp add: trace_message_thread_def Let_def)

lemma change_counts:
  assumes "counts_ok tr" "r = Perpkt i \<and> i < par_count tr \<and> pt_type (par_threads tr r) = THREAD_PERPKT \<or>
    (\<forall>i. r \<noteq> Perpkt i) \<and> pt_type (par_threads tr r) \<noteq> THREAD_PERPKT"
  shows "counts_ok (thread_change_state tr r x)"
proof -
  have "par_thread_states (thread_change_state tr r x) =
    (if pt_type (par_threads tr r) = THREAD_PERPKT
     then count_state (pt_state (par_threads tr r)) x (par_thread_states tr) else par_thread_states tr)"
    by (simp add: thread_change_state_def set_thread_def libtrace_change_state_def Let_def)
  moreover have "counts_ok (thread_change_state tr r x)" if "r = Perpkt i" "i < par_count tr"
    "par_thread_states (thread_change_state tr r x) = count_state (pt_state (par_threads tr r)) x (par_thread_states tr)"
  proof -
    have "(\<lambda>j. pt_state (par_threads (thread_change_state tr r x) (Perpkt j))) =
      (\<lambda>j. pt_state (par_threads tr (Perpkt j)))(i := x)"
      using that(1) by auto
    then show ?thesis
      using that assms(1) card_update [of i "par_count tr" "\<lambda>j. pt_state (par_threads tr (Perpkt j))" x]
      unfolding counts_ok_def by (simp add: count_state_def Let_def fun_eq_iff)
  qed
  moreover have "counts_ok (thread_change_state tr r x)" if "\<forall>i. r \<noteq> Perpkt i"
    "par_thread_states (thread_change_state tr r x) = par_thread_states tr"
  proof -
    have "Perpkt i \<noteq> r" for i using that(1) by metis
    then show ?thesis using that(2) assms(1) by (simp add: counts_ok_def)
  qed
  ultimately show ?thesis using assms(2) by (auto split: if_splits)
qed

lemma change_par_state:
  assumes "counts_ok (thread_change_state tr r x)"
  shows "par_state (thread_change_state tr r x) =
    (if \<forall>i<par_count tr. pt_state (par_threads (thread_change_state tr r x) (Perpkt i)) = THREAD_FINISHED
     then STATE_FINISHED else par_state tr)"
proof -
  have "par_state (thread_change_state tr r x) =
    (if par_thread_states (thread_change_state tr r x) THREAD_FINISHED = int (par_count tr) then STATE_FINISHED else par_state tr)"
    by (simp add: thread_change_state_def set_thread_def libtrace_change_state_def Let_def)
  moreover have "par_thread_states (thread_change_state tr r x) THREAD_FINISHED =
    int (card {i. i < par_count tr \<and> pt_state (par_threads (thread_change_state tr r x) (Perpkt i)) = THREAD_FINISHED})"
    using assms unfolding counts_ok_def by simp
  ultimately show ?thesis by (simp only: card_all)
qed

subsection \<open>Steps of threads\<close>

text \<open>
  What every step of a thread of the trace guarantees the others: it keeps the counters and its own
  state right, leaves the pause only when the trace is not paused, loses no request, and changes the
  state of the trace only to finished, when all per-packet threads are.
\<close>

definition states_ok :: "par_trace \<Rightarrow> bool" where
  "states_ok tr \<longleftrightarrow> (\<forall>r. pt_state (par_threads tr r) = state_of_pc (pc_of tr r))"

definition types_ok :: "par_trace \<Rightarrow> bool" where
  "types_ok tr \<longleftrightarrow> (\<forall>r. pt_type (par_threads tr r) = THREAD_PERPKT \<longleftrightarrow> (\<exists>i<par_count tr. r = Perpkt i))"

definition keeps :: "par_trace \<Rightarrow> par_trace \<Rightarrow> nat \<Rightarrow> bool" where
  "keeps tr tr' i \<longleftrightarrow>
     (pc_of tr (Perpkt i) = Ended \<longrightarrow> pc_of tr' (Perpkt i) = Ended) \<and>
     (paused tr \<and> pc_of tr (Perpkt i) = Waiting \<longrightarrow> pc_of tr' (Perpkt i) = Waiting) \<and>
     (stop_asked tr i \<longrightarrow> stop_asked tr' i) \<and> (paused tr \<and> pause_asked tr i \<longrightarrow> pause_asked tr' i)"

definition progress :: "par_trace \<Rightarrow> par_trace \<Rightarrow> bool" where
  "progress tr tr' \<longleftrightarrow> par_count tr' = par_count tr \<and> counts_ok tr' \<and> states_ok tr' \<and> types_ok tr' \<and>
     (par_state tr' = par_state tr \<or> par_state tr' = STATE_FINISHED \<and> all_ended tr') \<and>
     (\<forall>i<par_count tr. keeps tr tr' i)"

lemma threads_ok_parts:
  "threads_ok tr \<longleftrightarrow> 0 < par_count tr \<and> counts_ok tr \<and> states_ok tr \<and> types_ok tr \<and>
     par_state tr \<notin> {STATE_NEW, STATE_DESTROYED, STATE_ERROR} \<and>
     (trace_has_finished tr \<longrightarrow> all_ended tr) \<and>
     (par_state tr = STATE_PAUSED \<longrightarrow> quiet tr) \<and>
     (par_state tr = STATE_FINISHING \<longrightarrow> (\<forall>i<par_count tr. stop_asked tr i))"
  by (auto simp: threads_ok_def states_ok_def types_ok_def)

lemma progress_ended: "progress tr tr' \<Longrightarrow> all_ended tr \<Longrightarrow> all_ended tr'"
  by (auto simp: progress_def all_ended_def keeps_def)

lemma ended_quiet: "all_ended tr \<Longrightarrow> quiet tr"
  by (simp add: all_ended_def quiet_def)

lemma ended_asked: "all_ended tr \<Longrightarrow> i < par_count tr \<Longrightarrow> stop_asked tr i \<and> pause_asked tr i"
  by (simp add: all_ended_def stop_asked_def pause_asked_def)

lemma progress_quiet:
  assumes "progress tr tr'" "paused tr \<or> all_ended tr" "quiet tr"
  shows "quiet tr'"
proof (cases "all_ended tr")
  case True
  then show ?thesis by (intro ended_quiet progress_ended [OF assms(1)])
next
  case False
  with assms show ?thesis by (auto simp: progress_def quiet_def keeps_def)
qed

lemma progress_threads:
  assumes "threads_ok tr" "progress tr tr'"
  shows "threads_ok tr'"
proof -
  have "par_state tr' = par_state tr \<or> par_state tr' = STATE_FINISHED \<and> all_ended tr'"
    using assms(2) by (simp add: progress_def)
  then show ?thesis
  proof
    assume "par_state tr' = par_state tr"
    then show ?thesis
      using assms progress_quiet [OF assms(2)] progress_ended [OF assms(2)]
      by (auto simp: threads_ok_parts progress_def keeps_def trace_has_finished_def)
  next
    assume "par_state tr' = STATE_FINISHED \<and> all_ended tr'"
    then show ?thesis using assms by (auto simp: threads_ok_parts progress_def)
  qed
qed

lemma progress_main:
  assumes "threads_ok tr" "main_ok m tr" "progress tr tr'"
  shows "main_ok m tr'"
proof -
  have count: "par_count tr' = par_count tr" and keep: "\<And>i. i < par_count tr \<Longrightarrow> keeps tr tr' i"
    and st: "par_state tr' = par_state tr \<or> par_state tr' = STATE_FINISHED \<and> all_ended tr'"
    using assms(3) by (auto simp: progress_def)
  have fin: "par_state tr = STATE_FINISHED \<Longrightarrow> all_ended tr'"
    using assms(1) progress_ended [OF assms(3)] by (simp add: threads_ok_parts trace_has_finished_def)
  have quiet: "par_state tr \<in> {STATE_PAUSING, STATE_PAUSED, STATE_FINISHED} \<Longrightarrow> quiet tr \<Longrightarrow> quiet tr'"
    using fin ended_quiet progress_quiet [OF assms(3)] by blast
  have pause: "pause_asked tr' i"
    if "par_state tr \<in> {STATE_PAUSING, STATE_FINISHED}" "pause_asked tr i" "i < par_count tr" for i
    using that keep [OF that(3)] fin ended_asked [of tr' i] count by (auto simp: keeps_def)
  have stop: "stop_asked tr i \<Longrightarrow> i < par_count tr \<Longrightarrow> stop_asked tr' i" for i
    using keep by (simp add: keeps_def)
  show ?thesis
    using assms(2) st quiet pause stop progress_ended [OF assms(3)] by (cases m) (auto simp: count)
qed

lemma progress_refl: "threads_ok tr \<Longrightarrow> progress tr tr"
  by (auto simp: progress_def threads_ok_parts keeps_def)

lemma progress_trans:
  assumes "progress tr tr'" "progress tr' tr''"
  shows "progress tr tr''"
proof -
  have n: "par_count tr' = par_count tr" using assms(1) by (simp add: progress_def)
  have "keeps tr tr'' i" if i: "i < par_count tr" for i
  proof -
    have k: "keeps tr tr' i" "keeps tr' tr'' i" using assms i n by (auto simp: progress_def)
    show ?thesis
    proof (cases "par_state tr' = par_state tr")
      case True
      with k show ?thesis by (auto simp: keeps_def)
    next
      case False
      with assms(1) i n have "pc_of tr' (Perpkt i) = Ended" by (auto simp: progress_def all_ended_def)
      with k show ?thesis by (auto simp: keeps_def pause_asked_def)
    qed
  qed
  then show ?thesis
    using assms progress_ended [OF assms(2)] by (auto simp: progress_def)
qed

text \<open>A step that changes one thread and at most sets the state of the trace to finished.\<close>

lemma progress_local:
  assumes "threads_ok tr" "par_threads tr' = (par_threads tr)(r := t)" "par_count tr' = par_count tr" "counts_ok tr'"
    and "pt_state t = state_of_pc (pt_pc t)" "pt_type t = pt_type (par_threads tr r)"
    and "par_state tr' = par_state tr \<or> par_state tr' = STATE_FINISHED \<and> all_ended tr'"
    and "\<And>i. r = Perpkt i \<Longrightarrow> i < par_count tr \<Longrightarrow> keeps tr tr' i"
  shows "progress tr tr'"
proof -
  have "keeps tr tr' i" if "i < par_count tr" for i
  proof (cases "r = Perpkt i")
    case True
    then show ?thesis using assms(8) that by simp
  next
    case False
    then show ?thesis by (simp add: keeps_def assms(2) stop_asked_def pause_asked_def requested_def)
  qed
  moreover have "states_ok tr'" using assms(1,2,5) by (simp add: threads_ok_parts states_ok_def)
  moreover have "types_ok tr'" using assms(1,2,3,6) by (simp add: threads_ok_parts types_ok_def)
  ultimately show ?thesis using assms(3,4,7) by (simp add: progress_def)
qed

lemma counts_same:
  assumes "counts_ok tr" "par_count tr' = par_count tr" "par_thread_states tr' = par_thread_states tr"
    and "\<And>i. pt_state (par_threads tr' (Perpkt i)) = pt_state (par_threads tr (Perpkt i))"
  shows "counts_ok tr'"
  using assms by (simp add: counts_ok_def)

lemma put_progress:
  assumes "threads_ok tr"
  shows "progress tr (put_message r m tr)"
proof (rule progress_local [OF assms put_message_simps(1)])
  show "counts_ok (put_message r m tr)"
    by (rule counts_same) (use assms in \<open>auto simp: threads_ok_parts\<close>)
qed (use assms in \<open>auto simp: threads_ok_parts states_ok_def keeps_def stop_asked_def pause_asked_def requested_def\<close>)

lemma message_progress: "threads_ok tr \<Longrightarrow> progress tr (snd (trace_message_thread self tr r m))"
  by (simp add: message_thread_eq put_progress)

lemma message_from_progress: "threads_ok tr \<Longrightarrow> progress tr (snd (message_from m is missed tr))"
proof (induction "is" arbitrary: tr missed)
  case Nil
  then show ?case by (simp add: progress_refl)
next
  case (Cons i "is")
  have "threads_ok (put_message (Perpkt i) m tr)"
    by (rule progress_threads [OF Cons.prems put_progress [OF Cons.prems]])
  then have "progress tr (snd (message_from m is missed (put_message (Perpkt i) m tr)))" for missed
    by (rule progress_trans [OF put_progress [OF Cons.prems] Cons.IH])
  then show ?case using Cons.IH [OF Cons.prems] by (simp add: Let_def)
qed

lemma perpkts_progress: "threads_ok tr \<Longrightarrow> progress tr (snd (trace_message_perpkts self tr m))"
  by (simp add: trace_message_perpkts_def message_from_progress)

lemma message_from_pc: "pc_of (snd (message_from m is missed tr)) r = pc_of tr r"
  by (induction "is" arbitrary: tr missed) (simp_all add: Let_def)

lemma perpkts_pc: "pc_of (snd (trace_message_perpkts self tr m)) r = pc_of tr r"
  by (simp add: trace_message_perpkts_def message_from_pc)

text \<open>Leaving the main loop.\<close>

lemma stop_progress:
  assumes "threads_ok tr" "pc_of tr r = InLoop \<or> pc_of tr r = Pausing"
  shows "progress tr (set_pc r Stopping tr)"
proof (rule progress_local [OF assms(1) set_pc_simps(1)])
  show "counts_ok (set_pc r Stopping tr)"
    by (rule counts_same) (use assms in \<open>auto simp: threads_ok_parts\<close>)
  have "pt_state (par_threads tr r) = state_of_pc (pc_of tr r)"
    using assms(1) by (simp add: threads_ok_parts states_ok_def)
  then show "pt_state (par_threads tr r\<lparr>pt_pc := Stopping\<rparr>) = state_of_pc (pt_pc (par_threads tr r\<lparr>pt_pc := Stopping\<rparr>))"
    using assms(2) by auto
qed (use assms in \<open>auto simp: keeps_def stop_asked_def pause_asked_def\<close>)

text \<open>Changing the state of a thread together with its place.\<close>

abbreviation of_trace :: "par_trace \<Rightarrow> thread_ref \<Rightarrow> bool" where
  "of_trace tr r \<equiv> (case r of Perpkt i \<Rightarrow> i < par_count tr | _ \<Rightarrow> True)"

lemma state_of_pc_inject [simp]:
  "state_of_pc pc = THREAD_FINISHED \<longleftrightarrow> pc = Ended" "state_of_pc pc = THREAD_PAUSED \<longleftrightarrow> pc = Waiting"
  by (cases pc; simp)+

lemma change_progress:
  assumes ok: "threads_ok tr" and r: "of_trace tr r"
    and keep: "\<And>i. r = Perpkt i \<Longrightarrow> keeps tr (set_pc r pc (thread_change_state tr r (state_of_pc pc))) i"
  shows "progress tr (set_pc r pc (thread_change_state tr r (state_of_pc pc)))" (is "progress tr ?tr")
proof (rule progress_local [where r = r and t = "(par_threads tr r)\<lparr>pt_state := state_of_pc pc, pt_pc := pc\<rparr>", OF ok])
  have types: "types_ok tr" and counts: "counts_ok tr" using ok by (auto simp: threads_ok_parts)
  have c: "counts_ok (thread_change_state tr r (state_of_pc pc))"
    by (cases r; rule change_counts [OF counts, where i = "case r of Perpkt i \<Rightarrow> i | _ \<Rightarrow> 0"])
      (use r types in \<open>auto simp: types_ok_def\<close>)
  then show "counts_ok ?tr" by (rule counts_same) auto
  have "states_ok ?tr" using ok by (auto simp: threads_ok_parts states_ok_def)
  then have "pt_state (par_threads ?tr (Perpkt i)) = THREAD_FINISHED \<longleftrightarrow> pc_of ?tr (Perpkt i) = Ended" for i
    by (simp only: states_ok_def state_of_pc_inject)
  moreover have "pt_state (par_threads ?tr (Perpkt i)) = pt_state (par_threads (thread_change_state tr r (state_of_pc pc)) (Perpkt i))" for i
    by auto
  ultimately show "par_state ?tr = par_state tr \<or> par_state ?tr = STATE_FINISHED \<and> all_ended ?tr"
    using change_par_state [OF c] by (auto simp del: change_state_simps(1) set_pc_simps(1) simp: all_ended_def)
qed (use keep in auto)

lemma wait_progress:
  assumes "threads_ok tr" "of_trace tr r" "pc_of tr r \<in> {InLoop, Pausing}"
  shows "progress tr (set_pc r Waiting (thread_change_state tr r THREAD_PAUSED))"
proof -
  have "progress tr (set_pc r Waiting (thread_change_state tr r (state_of_pc Waiting)))"
    by (rule change_progress [OF assms(1,2)])
      (use assms(3) in \<open>auto simp: keeps_def stop_asked_def pause_asked_def requested_def\<close>)
  then show ?thesis by simp
qed

lemma resume_progress:
  assumes "threads_ok tr" "of_trace tr r" "pc_of tr r = Waiting" "\<not> paused tr"
  shows "progress tr (resume_thread r tr)"
proof -
  have "progress tr (set_pc r InLoop (thread_change_state tr r (state_of_pc InLoop)))"
    by (rule change_progress [OF assms(1,2)])
      (use assms(3,4) in \<open>auto simp: keeps_def stop_asked_def pause_asked_def requested_def\<close>)
  then show ?thesis by (simp add: resume_thread_def)
qed

lemma finish_progress:
  assumes "threads_ok tr" "of_trace tr r" "pc_of tr r = Stopping"
  shows "progress tr (end_thread r tr)"
proof -
  have "progress tr (set_pc r Ended (thread_change_state tr r (state_of_pc Ended)))"
    by (rule change_progress [OF assms(1,2)])
      (use assms(3) in \<open>auto simp: keeps_def stop_asked_def pause_asked_def requested_def\<close>)
  then show ?thesis by (simp add: end_thread_def)
qed

lemma change_set_pc: "thread_change_state (set_pc r pc tr) r x = set_pc r pc (thread_change_state tr r x)"
  by (cases tr) (auto simp: thread_change_state_def set_pc_def set_thread_def libtrace_change_state_def Let_def
    intro!: arg_cong [where f = "fun_upd _ r"] par_thread.equality)

lemma set_pc_twice: "set_pc r pc (set_pc r pc' tr) = set_pc r pc tr"
  by (simp add: set_pc_def set_thread_def)

lemma thread_pause_eq:
  "trace_thread_pause r tr =
     (let tr' = set_pc r Waiting (thread_change_state tr r THREAD_PAUSED) in
      if paused tr' then tr' else resume_thread r tr')"
  by (simp add: trace_thread_pause_def resume_thread_def change_set_pc set_pc_twice Let_def)

lemma pause_progress:
  assumes "threads_ok tr" "of_trace tr r" "pc_of tr r \<in> {InLoop, Pausing}"
  shows "progress tr (trace_thread_pause r tr)"
proof -
  let ?tr = "set_pc r Waiting (thread_change_state tr r THREAD_PAUSED)"
  have p: "progress tr ?tr" by (rule wait_progress [OF assms])
  have "of_trace ?tr r" using assms(2) by (cases r) simp_all
  then have "\<not> paused ?tr \<Longrightarrow> progress ?tr (resume_thread r ?tr)"
    by (intro resume_progress progress_threads [OF assms(1) p]) simp_all
  with p show ?thesis unfolding thread_pause_eq by (auto simp: Let_def intro: progress_trans)
qed

lemma take_message_eq:
  assumes "take_message r tr = Some (m, tr')"
  obtains ms where "pt_messages (par_threads tr r) = m # ms"
    "tr' = set_thread r ((par_threads tr r)\<lparr>pt_messages := ms\<rparr>) tr"
  using assms by (auto simp: take_message_def Let_def split: list.splits)

text \<open>Taking a message that is no request changes nothing of interest.\<close>

lemma take_progress:
  assumes "threads_ok tr" "take_message r tr = Some (m, tr')"
    and "\<And>i. r = Perpkt i \<Longrightarrow> msg_code m \<noteq> MESSAGE_DO_PAUSE \<and> msg_code m \<noteq> MESSAGE_DO_STOP"
  shows "progress tr tr'"
proof -
  obtain ms where ms: "pt_messages (par_threads tr r) = m # ms" "tr' = set_thread r ((par_threads tr r)\<lparr>pt_messages := ms\<rparr>) tr"
    using assms(2) by (rule take_message_eq)
  show ?thesis
  proof (rule progress_local [where r = r and t = "(par_threads tr r)\<lparr>pt_messages := ms\<rparr>", OF assms(1)])
    show "counts_ok tr'"
      by (rule counts_same) (use assms ms(2) in \<open>auto simp: threads_ok_parts set_thread_def\<close>)
    show "keeps tr tr' i" if "r = Perpkt i" for i
      using ms that assms(3) [OF that]
      by (auto simp: keeps_def set_thread_def stop_asked_def pause_asked_def requested_def)
  qed (use assms(1) ms(2) in \<open>auto simp: set_thread_def threads_ok_parts states_ok_def\<close>)
qed

lemma perpkt_handle_progress:
  assumes ok: "threads_ok tr" and i: "i < par_count tr" "pc_of tr (Perpkt i) = InLoop"
    and take: "take_message (Perpkt i) tr = Some (m, tr')"
  shows "progress tr (perpkt_handle i m tr')"
proof -
  obtain ms where ms: "pt_messages (par_threads tr (Perpkt i)) = m # ms"
      "tr' = set_thread (Perpkt i) ((par_threads tr (Perpkt i))\<lparr>pt_messages := ms\<rparr>) tr"
    using take by (rule take_message_eq)
  have leave: "progress tr (set_pc (Perpkt i) pc tr')"
    if "pc = Pausing \<and> msg_code m = MESSAGE_DO_PAUSE \<or> pc = Stopping \<and> msg_code m = MESSAGE_DO_STOP" for pc
  proof (rule progress_local [where r = "Perpkt i" and t = "(par_threads tr (Perpkt i))\<lparr>pt_messages := ms, pt_pc := pc\<rparr>", OF ok])
    show "counts_ok (set_pc (Perpkt i) pc tr')"
      by (rule counts_same [of tr]) (use ok ms(2) in \<open>auto simp: threads_ok_parts set_thread_def\<close>)
    have "pt_state (par_threads tr (Perpkt i)) = THREAD_RUNNING"
      using ok i(2) by (simp add: threads_ok_parts states_ok_def)
    then show "pt_state (par_threads tr (Perpkt i)\<lparr>pt_messages := ms, pt_pc := pc\<rparr>) =
      state_of_pc (pt_pc (par_threads tr (Perpkt i)\<lparr>pt_messages := ms, pt_pc := pc\<rparr>))"
      using that by auto
    show "keeps tr (set_pc (Perpkt i) pc tr') j" if "Perpkt i = Perpkt j" for j
      using ms that i(2) \<open>pc = Pausing \<and> _ \<or> _\<close>
      by (auto simp: keeps_def set_thread_def stop_asked_def pause_asked_def requested_def)
  qed (use ms(2) in \<open>auto simp: set_thread_def\<close>)
  show ?thesis
  proof (cases "msg_code m = MESSAGE_DO_PAUSE \<or> msg_code m = MESSAGE_DO_STOP")
    case True
    then show ?thesis using leave by (auto simp: perpkt_handle_def)
  next
    case False
    then have "perpkt_handle i m tr' = tr'" by (auto simp: perpkt_handle_def split: libtrace_messages.splits)
    with False show ?thesis using take_progress [OF ok take] by simp
  qed
qed

lemma take_pc:
  assumes "take_message r tr = Some (m, tr')"
  shows "pc_of tr' r' = pc_of tr r'" "par_count tr' = par_count tr" "par_state tr' = par_state tr"
    "par_started tr' = par_started tr" "par_lock_left tr' = par_lock_left tr"
    "pt_type (par_threads tr' r') = pt_type (par_threads tr r')"
  using assms by (auto elim!: take_message_eq simp: set_thread_def)

lemma take_other_progress:
  assumes "threads_ok tr" "take_message r tr = Some (m, tr')" "r = Hasher \<or> r = Reporter \<or> r = Keepalive"
  shows "progress tr tr'" "threads_ok tr'"
  using take_progress [OF assms(1,2)] progress_threads [OF assms(1)] assms(3) by auto

lemma hasher_handle_progress:
  assumes "threads_ok tr" "pc_of tr Hasher = InLoop" "hasher_handle m tr = Inr tr'"
  shows "progress tr tr'"
  using assms pause_progress [OF assms(1), of Hasher] progress_refl [OF assms(1)]
  by (auto simp: hasher_handle_def assertr_def split: libtrace_messages.splits if_splits)

lemma reporter_handle_progress:
  assumes "threads_ok tr" "pc_of tr Reporter = InLoop"
  shows "progress tr (reporter_handle m tr)"
proof -
  have "progress tr (set_pc Reporter Pausing tr)"
  proof (rule progress_local [OF assms(1) set_pc_simps(1)])
    show "counts_ok (set_pc Reporter Pausing tr)"
      by (rule counts_same) (use assms in \<open>auto simp: threads_ok_parts\<close>)
    have "pt_state (par_threads tr Reporter) = THREAD_RUNNING"
      using assms by (simp add: threads_ok_parts states_ok_def)
    then show "pt_state (par_threads tr Reporter\<lparr>pt_pc := Pausing\<rparr>) =
      state_of_pc (pt_pc (par_threads tr Reporter\<lparr>pt_pc := Pausing\<rparr>))" by simp
  qed simp_all
  then show ?thesis using progress_refl [OF assms(1)] by (auto simp: reporter_handle_def split: libtrace_messages.splits)
qed

lemma perpkt_error_progress:
  assumes "threads_ok tr" "pc_of tr (Perpkt i) = InLoop \<or> pc_of tr (Perpkt i) = Pausing"
  shows "progress tr (perpkt_error self i tr)"
  unfolding perpkt_error_def
  by (rule progress_trans [OF perpkts_progress [OF assms(1)] stop_progress])
    (use assms progress_threads [OF assms(1) perpkts_progress [OF assms(1)]] in \<open>simp_all add: perpkts_pc\<close>)

text \<open>No assertion fails when a per-packet thread ends; the reporter may be told.\<close>

lemma perpkt_finish_cases:
  assumes "perpkt_finish self i tr = Inr tr'"
  obtains "tr' = end_thread (Perpkt i) tr" | m where "tr' = put_message Reporter m (end_thread (Perpkt i) tr)"
proof -
  let ?tr = "end_thread (Perpkt i) tr"
  have eq: "perpkt_finish self i tr = bindr (trace_has_reporter ?tr) (\<lambda>has.
      if has then bindr (trace_post_reporter self ?tr) (\<lambda>r. Inr (snd r)) else Inr ?tr)"
    unfolding perpkt_finish_def end_thread_def Let_def by (rule refl)
  have "bindr (trace_post_reporter self ?tr) (\<lambda>r. Inr (snd r)) = Inr t \<Longrightarrow>
    t = ?tr \<or> t = snd (trace_message_thread self ?tr Reporter (message MESSAGE_POST_REPORTER 0))" for t
    by (auto simp: trace_post_reporter_def trace_message_reporter_def bindr_eq_Inr Let_def split: if_splits)
  then have "tr' = ?tr \<or> tr' = snd (trace_message_thread self ?tr Reporter (message MESSAGE_POST_REPORTER 0))"
    using assms unfolding eq by (auto simp: bindr_eq_Inr split: if_splits)
  then show thesis using that unfolding message_thread_eq by blast
qed

lemma perpkt_finish_returns:
  assumes "par_state (end_thread (Perpkt i) tr) \<noteq> STATE_NEW"
  shows "\<exists>tr'. perpkt_finish self i tr = Inr tr'"
  using assms
  by (auto simp: perpkt_finish_def end_thread_def trace_has_reporter_def assertr_def trace_post_reporter_def
    trace_message_reporter_def Let_def)

lemma perpkt_finish_progress:
  assumes "threads_ok tr" "i < par_count tr" "pc_of tr (Perpkt i) = Stopping"
  obtains tr' where "perpkt_finish self i tr = Inr tr'" "progress tr tr'"
proof -
  let ?tr = "end_thread (Perpkt i) tr"
  have p: "progress tr ?tr" by (rule finish_progress) (use assms in simp_all)
  have ok: "threads_ok ?tr" by (rule progress_threads [OF assms(1) p])
  then obtain tr' where tr': "perpkt_finish self i tr = Inr tr'"
    using perpkt_finish_returns [of i tr self] by (auto simp: threads_ok_parts)
  from tr' have "progress tr tr'"
    by (rule perpkt_finish_cases) (use p progress_trans [OF p put_progress [OF ok]] in auto)
  with tr' show thesis by (rule that)
qed

lemma thread_step_progress:
  assumes "thread_step tr tr'" "threads_ok tr"
  shows "progress tr tr'"
  using assms
proof (cases rule: thread_step.cases)
  case (pp_finish i self)
  then show ?thesis using assms(2) by (metis perpkt_finish_progress sum.inject(2))
next
  case (h_message m tr1)
  then show ?thesis
    using take_other_progress [OF assms(2) h_message(3)] take_pc [OF h_message(3)] hasher_handle_progress
    by (auto intro: progress_trans)
next
  case (r_message m tr1)
  then show ?thesis
    using take_other_progress [OF assms(2) r_message(4)] take_pc [OF r_message(4)] reporter_handle_progress
    by (auto intro: progress_trans)
next
  case (k_stop m tr1)
  then show ?thesis
    using take_other_progress [OF assms(2) k_stop(4)] take_pc [OF k_stop(4)] stop_progress
    by (auto intro: progress_trans)
next
  case (end_step r)
  then show ?thesis by (auto intro!: finish_progress assms(2))
qed (use assms(2) in \<open>auto intro!: perpkt_handle_progress stop_progress perpkt_error_progress pause_progress resume_progress
  perpkts_progress message_progress\<close>)

subsection \<open>Steps of the controlling thread\<close>

lemma change_simps [simp]:
  "par_threads (libtrace_change_state tr x) = par_threads tr" "par_count (libtrace_change_state tr x) = par_count tr"
  "par_state (libtrace_change_state tr x) = x" "par_thread_states (libtrace_change_state tr x) = par_thread_states tr"
  "par_lock_left (libtrace_change_state tr x) = par_lock_left tr" "par_started (libtrace_change_state tr x) = par_started tr"
  by (simp_all add: libtrace_change_state_def)

text \<open>A state of the trace with the same threads.\<close>

lemma same_threads:
  assumes "threads_ok tr" "par_threads tr' = par_threads tr" "par_count tr' = par_count tr"
    "par_thread_states tr' = par_thread_states tr" "par_state tr' \<notin> {STATE_NEW, STATE_DESTROYED, STATE_ERROR}"
    "trace_has_finished tr' \<Longrightarrow> all_ended tr" "par_state tr' = STATE_PAUSED \<Longrightarrow> quiet tr"
    "par_state tr' = STATE_FINISHING \<Longrightarrow> \<forall>i<par_count tr. stop_asked tr i"
  shows "threads_ok tr'"
  using assms
  by (auto simp: threads_ok_parts counts_ok_def states_ok_def types_ok_def all_ended_def quiet_def stop_asked_def requested_def)

lemma requested_put: "requested c tr r \<Longrightarrow> requested c (snd (trace_message_thread self tr r' m)) r"
  by (cases "r' = r") (simp_all add: message_thread_eq requested_def)

lemma stop_messages:
  assumes "threads_ok tr"
  shows "progress tr (fold (\<lambda>i tr. snd (trace_message_thread self tr (Perpkt i) m)) xs tr) \<and>
    (\<forall>i\<in>set xs. requested (msg_code m) (fold (\<lambda>i tr. snd (trace_message_thread self tr (Perpkt i) m)) xs tr) (Perpkt i))"
  using assms
proof (induction xs arbitrary: tr)
  case Nil
  then show ?case by (simp add: progress_refl)
next
  case (Cons x xs)
  let ?tr = "snd (trace_message_thread self tr (Perpkt x) m)"
  let ?f = "fold (\<lambda>i tr. snd (trace_message_thread self tr (Perpkt i) m)) xs"
  have mono: "requested c tr r \<Longrightarrow> requested c (?f tr) r" for c r tr
    by (induction xs arbitrary: tr) (simp_all add: requested_put)
  have p: "progress tr ?tr" by (rule message_progress [OF Cons.prems])
  have "requested (msg_code m) ?tr (Perpkt x)" by (simp add: message_thread_eq requested_def)
  with mono have "requested (msg_code m) (?f ?tr) (Perpkt x)" .
  then show ?case using Cons.IH [OF progress_threads [OF Cons.prems p]] progress_trans [OF p] by auto
qed

lemma pstop_progress:
  assumes "threads_ok tr"
  shows "progress tr (pstop_messages self tr)" "\<forall>i<par_count tr. stop_asked (pstop_messages self tr) i"
proof -
  define m where "m = set_sender tr self (message MESSAGE_DO_STOP 0)"
  define tr1 where "tr1 = snd (trace_message_perpkts self tr m)"
  define tr2 where "tr2 = (if trace_has_dedicated_hasher tr1 then snd (trace_message_thread self tr1 Hasher m) else tr1)"
  have eq: "pstop_messages self tr = fold (\<lambda>i tr. snd (trace_message_thread self tr (Perpkt i) m)) [0..<par_count tr2] tr2"
    by (simp add: pstop_messages_def Let_def m_def tr1_def tr2_def)
  have p1: "progress tr tr1" unfolding tr1_def by (rule perpkts_progress [OF assms])
  have ok1: "threads_ok tr1" by (rule progress_threads [OF assms p1])
  have p2: "progress tr tr2"
    using p1 progress_trans [OF p1 message_progress [OF ok1]] by (simp add: tr2_def)
  have n: "par_count tr2 = par_count tr" using p2 by (simp add: progress_def)
  have code: "msg_code m = MESSAGE_DO_STOP" by (simp add: m_def)
  note st = stop_messages [OF progress_threads [OF assms p2], of self m "[0..<par_count tr2]", folded eq, unfolded code n]
  show "progress tr (pstop_messages self tr)" by (rule progress_trans [OF p2 conjunct1 [OF st]])
  show "\<forall>i<par_count tr. stop_asked (pstop_messages self tr) i"
    using conjunct2 [OF st] by (simp add: stop_asked_def)
qed

lemma wait_quiet:
  assumes "threads_ok tr" "par_thread_states tr THREAD_RUNNING = 0"
  shows "quiet tr"
proof -
  have "pt_state (par_threads tr (Perpkt i)) \<noteq> THREAD_RUNNING" if "i < par_count tr" for i
    using assms that card_none [of "par_count tr" "\<lambda>i. pt_state (par_threads tr (Perpkt i)) = THREAD_RUNNING"]
    by (simp add: threads_ok_parts counts_ok_def)
  moreover have "state_of_pc pc \<noteq> THREAD_RUNNING \<Longrightarrow> pc = Waiting \<or> pc = Ended" for pc
    by (cases pc) simp_all
  ultimately show ?thesis using assms(1) by (auto simp: quiet_def threads_ok_parts states_ok_def)
qed

lemma quiet_count:
  assumes "threads_ok tr" "quiet tr"
  shows "par_thread_states tr THREAD_RUNNING = 0"
proof -
  have "pt_state (par_threads tr (Perpkt i)) \<noteq> THREAD_RUNNING" if "i < par_count tr" for i
    using assms that by (auto simp: threads_ok_parts states_ok_def quiet_def)
  then show ?thesis using assms(1) card_none [of "par_count tr" "\<lambda>i. pt_state (par_threads tr (Perpkt i)) = THREAD_RUNNING"]
    by (simp add: threads_ok_parts counts_ok_def)
qed

lemma par_inv_goto [simp]: "par_inv (goto_main m tr s) \<longleftrightarrow> threads_ok tr \<and> main_ok m tr"
  by (simp add: par_inv_def goto_main_def)

lemma par_inv_flags [simp]:
  "par_inv (s\<lparr>ps_stop := b\<rparr>) \<longleftrightarrow> par_inv s" "par_inv (s\<lparr>ps_aborted := b\<rparr>) \<longleftrightarrow> par_inv s"
  by (simp_all add: par_inv_def)

lemma ppause_enter_inv:
  assumes "threads_ok tr" "ppause_enter tr = (r, tr')"
  shows "threads_ok tr'" "r = None \<Longrightarrow> par_state tr' = STATE_PAUSING" "r \<noteq> None \<Longrightarrow> par_state tr' = par_state tr"
    "r = Some 0 \<Longrightarrow> par_state tr' = STATE_PAUSED"
proof -
  have "par_threads tr' = par_threads tr" "par_count tr' = par_count tr" "par_thread_states tr' = par_thread_states tr"
    and st: "par_state tr' = STATE_PAUSING \<or> par_state tr' = par_state tr"
    using assms(2) by (auto simp: ppause_enter_def split: if_splits)
  then show "threads_ok tr'"
    by (intro same_threads [OF assms(1)]) (use assms(1) st in \<open>auto simp: threads_ok_parts trace_has_finished_def\<close>)
qed (use assms(2) in \<open>auto simp: ppause_enter_def split: if_splits\<close>)

lemma prestart_inv:
  assumes "threads_ok tr" "prestart_states err tr = Inr (r, tr')" "par_state tr \<noteq> STATE_PAUSING"
  shows "threads_ok tr'" "par_state tr' \<noteq> STATE_PAUSING"
proof -
  have "par_threads tr' = par_threads tr" "par_count tr' = par_count tr" "par_thread_states tr' = par_thread_states tr"
    and st: "par_state tr' = STATE_RUNNING \<or> par_state tr' = par_state tr"
    using assms(2) by (auto simp: prestart_states_def assertr_def split: if_splits)
  then show "threads_ok tr'"
    by (intro same_threads [OF assms(1)]) (use assms(1) st in \<open>auto simp: threads_ok_parts trace_has_finished_def\<close>)
  show "par_state tr' \<noteq> STATE_PAUSING" using st assms(3) by auto
qed

lemma ask_inv:
  assumes "threads_ok tr" "main_ok (MAsk k) tr" "k < par_count tr"
  shows "main_ok (MAsk (Suc k)) (snd (trace_message_thread self tr (Perpkt k) (message MESSAGE_DO_PAUSE 0)))" (is "main_ok _ ?tr")
proof -
  have p: "progress tr ?tr" by (rule message_progress [OF assms(1)])
  have "pause_asked ?tr k" by (simp add: pause_asked_def requested_def message_thread_eq)
  moreover have "par_count ?tr = par_count tr" using p by (simp add: progress_def)
  moreover have "main_ok (MAsk k) ?tr" by (rule progress_main [OF assms(1,2) p])
  ultimately show ?thesis using assms(3) by (auto simp: less_Suc_eq)
qed

lemma change_inv:
  assumes "threads_ok tr"
  shows "quiet tr \<Longrightarrow> threads_ok (libtrace_change_state (tr\<lparr>par_started := False\<rparr>) STATE_PAUSED)"
    "\<forall>i<par_count tr. stop_asked tr i \<Longrightarrow> threads_ok (libtrace_change_state tr STATE_FINISHING)"
    "all_ended tr \<Longrightarrow> threads_ok (libtrace_change_state tr STATE_JOINED)"
  by (rule same_threads [OF assms]; simp add: trace_has_finished_def)+

lemma main_step_inv:
  assumes "main_step s s'" "par_inv s"
  shows "par_inv s'"
proof -
  have ok: "threads_ok (ps_tr s)" and main: "main_ok (ps_main s) (ps_tr s)" using assms(2) by (auto simp: par_inv_def)
  note send = message_progress [OF ok]
  note send_ok = progress_threads [OF ok send] progress_main [OF ok _ send]
  show ?thesis
    using assms(1)
  proof (cases rule: main_step.cases)
    case (m_ask_hasher self)
    then have "main_ok MHasher (ps_tr s)" using main by simp
    from send_ok(2) [OF this] m_ask_hasher send_ok(1) show ?thesis by (simp del: main_ok.simps)
  next
    case (m_ask k self)
    with send_ok(1) ask_inv [OF ok] main show ?thesis by (simp del: main_ok.simps)
  next
    case (m_ask_reporter self)
    then have "main_ok MReporter (ps_tr s)" using main by simp
    from send_ok(2) [OF this] m_ask_reporter send_ok(1) show ?thesis by (simp del: main_ok.simps)
  next
    case (m_stop_ask self)
    then show ?thesis
      using pstop_progress [OF ok, of self] progress_threads [OF ok pstop_progress(1) [OF ok]]
        progress_main [OF ok _ pstop_progress(1) [OF ok], of MStopAsk] main by (simp add: progress_def)
  next
    case (m_joined self)
    then have "main_ok MJoinTick (ps_tr s)" using main by (simp add: threads_ended_def all_ended_def)
    from this send_ok(2) [OF this] m_joined send_ok(1) ok show ?thesis by (simp del: main_ok.simps)
  next
    case (m_pause tr stop)
    then show ?thesis using ppause_enter_inv [OF ok m_pause(4)] by simp
  next
    case (m_pause_fails tr)
    then show ?thesis using ppause_enter_inv [OF ok m_pause_fails(4)] main by simp
  next
    case (m_stop_paused tr)
    then show ?thesis using ppause_enter_inv [OF ok m_stop_paused(4)] by simp
  next
    case (m_restart err ret tr)
    then show ?thesis using prestart_inv [OF ok m_restart(4)] main by simp
  qed (use ok main assms(2) wait_quiet [OF ok] change_inv [OF ok] in \<open>simp_all\<close>)
qed

end
