(* ===== verification/Par_Pause.thy ===== *)
theory Par_Pause
  imports Par_Control
begin

text \<open>
  What the control of a parallel trace guarantees: a paused trace has no running per-packet thread,
  a pause can always be completed, and where the calls of \<open>lib/trace_parallel.c\<close> fail.
\<close>

section \<open>Reachable states\<close>

lemma thread_step_inv:
  assumes "thread_step (ps_tr s) tr" "par_inv s"
  shows "par_inv (s\<lparr>ps_tr := tr\<rparr>)"
proof -
  have ok: "threads_ok (ps_tr s)" and main: "main_ok (ps_main s) (ps_tr s)" using assms(2) by (auto simp: par_inv_def)
  have "progress (ps_tr s) tr" by (rule thread_step_progress [OF assms(1) ok])
  then show ?thesis using progress_threads [OF ok] progress_main [OF ok main] by (simp add: par_inv_def)
qed

lemma par_step_inv: "par_step s s' \<Longrightarrow> par_inv s \<Longrightarrow> par_inv s'"
proof (induction rule: par_step.induct)
  case (main s s')
  then show ?case by (blast intro: main_step_inv)
next
  case (thread s tr)
  then show ?case by (blast intro: thread_step_inv)
qed simp

lemma pstart_inv: "0 < n \<Longrightarrow> par_inv (pstart_sys n hasher reporter ticks)"
  by (auto simp: par_inv_def threads_ok_parts pstart_sys_def pstart_trace_def counts_ok_def states_ok_def types_ok_def
    started_thread_def trace_has_finished_def split: thread_ref.splits)

lemma reachable_inv:
  assumes "par_reachable (pstart_sys n hasher reporter ticks) s" "0 < n"
  shows "par_inv s"
  using assms(1) by induction (auto intro: pstart_inv [OF assms(2)] par_step_inv)

lemma reachable_steps: "par_reachable s0 s \<Longrightarrow> par_step\<^sup>*\<^sup>* s s' \<Longrightarrow> par_reachable s0 s'"
  by (rotate_tac, induction rule: rtranclp_induct) (auto intro: par_reachable.step)

text \<open>The types of the threads and the lock are left alone by the threads.\<close>

definition same_frame :: "par_trace \<Rightarrow> par_trace \<Rightarrow> bool" where
  "same_frame tr tr' \<longleftrightarrow> par_lock_left tr' = par_lock_left tr \<and> par_count tr' = par_count tr \<and>
     par_started tr' = par_started tr \<and> (\<forall>r. pt_type (par_threads tr' r) = pt_type (par_threads tr r))"

lemma message_from_frame: "same_frame tr (snd (message_from m is missed tr))"
  by (induction "is" arbitrary: tr missed) (auto simp: same_frame_def Let_def)

lemma same_frame_trans: "same_frame a b \<Longrightarrow> same_frame b c \<Longrightarrow> same_frame a c"
  by (simp add: same_frame_def)

lemma frame_simps:
  "same_frame tr (snd (trace_message_perpkts self tr m))" "same_frame tr (put_message r m tr)"
  "same_frame tr (set_pc r pc tr)" "same_frame tr (thread_change_state tr r x)" "same_frame tr tr"
  by (simp_all add: trace_message_perpkts_def message_from_frame) (simp_all add: same_frame_def)

lemma pause_frame: "same_frame tr (trace_thread_pause r tr)"
  by (auto simp: trace_thread_pause_def Let_def same_frame_def)

lemma take_frame: "take_message r tr = Some (m, tr') \<Longrightarrow> same_frame tr tr'"
  using take_pc [of r tr m tr'] by (simp add: same_frame_def)

lemma handle_frame:
  "same_frame tr (perpkt_handle i m tr)" "same_frame tr (reporter_handle m tr)"
  "hasher_handle m tr = Inr tr' \<Longrightarrow> same_frame tr tr'"
  by (auto simp: perpkt_handle_def reporter_handle_def hasher_handle_def assertr_def frame_simps pause_frame
    split: libtrace_messages.splits if_splits)

lemma finish_frame:
  assumes "perpkt_finish self i tr = Inr tr'"
  shows "same_frame tr tr'"
  using assms by (rule perpkt_finish_cases) (auto simp: end_thread_def same_frame_def)

lemma thread_step_frame:
  assumes "thread_step tr tr'"
  shows "same_frame tr tr'"
  using assms
proof (cases rule: thread_step.cases)
  case (pp_error i self)
  then show ?thesis
    by (auto simp: perpkt_error_def intro: same_frame_trans [OF frame_simps(1) frame_simps(3)])
next
  case (pp_finish i self)
  then show ?thesis by (auto intro: finish_frame)
next
  case (k_stop m tr1)
  then show ?thesis by (auto intro: same_frame_trans [OF take_frame frame_simps(3)])
qed (auto simp: frame_simps pause_frame resume_thread_def end_thread_def message_thread_eq
    intro: same_frame_trans [OF take_frame] handle_frame same_frame_trans [OF frame_simps(4) frame_simps(3)])

section \<open>Running the system\<close>

text \<open>
  The step of a thread that handles what it has to do next, as a function: \<open>None\<close> when it waits. Each
  is a step of the system, so runs of the system can be computed.
\<close>

definition rest_next :: "thread_ref \<Rightarrow> par_trace \<Rightarrow> par_trace option" where
  "rest_next r tr =
     (if par_lock_left tr then None
      else case pc_of tr r of
        Waiting \<Rightarrow> if paused tr then None else Some (resume_thread r tr)
      | Stopping \<Rightarrow> if r = Hasher \<or> r = Reporter \<or> r = Keepalive then Some (end_thread r tr) else None
      | _ \<Rightarrow> None)"

definition perpkt_next :: "nat \<Rightarrow> par_trace \<Rightarrow> par_trace option" where
  "perpkt_next i tr =
     (if \<not> i < par_count tr then None
      else case pc_of tr (Perpkt i) of
        InLoop \<Rightarrow> map_option (\<lambda>(m, tr). perpkt_handle i m tr) (take_message (Perpkt i) tr)
      | Pausing \<Rightarrow> if par_lock_left tr then None else Some (trace_thread_pause (Perpkt i) tr)
      | Stopping \<Rightarrow> if par_lock_left tr then None else (case perpkt_finish (i + 4) i tr of Inl _ \<Rightarrow> None | Inr tr \<Rightarrow> Some tr)
      | _ \<Rightarrow> rest_next (Perpkt i) tr)"

definition hasher_next :: "par_trace \<Rightarrow> par_trace res option" where
  "hasher_next tr =
     (if \<not> trace_has_dedicated_hasher tr then None
      else if pc_of tr Hasher = InLoop
      then (case take_message Hasher tr of None \<Rightarrow> None
            | Some (m, tr) \<Rightarrow> if par_lock_left tr then None else Some (hasher_handle m tr))
      else map_option Inr (rest_next Hasher tr))"

definition reporter_next :: "par_trace \<Rightarrow> par_trace option" where
  "reporter_next tr =
     (if pt_type (par_threads tr Reporter) \<noteq> THREAD_REPORTER then None
      else case pc_of tr Reporter of
        InLoop \<Rightarrow> (case take_message Reporter tr of
            Some (m, tr) \<Rightarrow> Some (reporter_handle m tr)
          | None \<Rightarrow> if trace_has_finished tr then Some (set_pc Reporter Stopping tr) else None)
      | Pausing \<Rightarrow> if par_lock_left tr then None else Some (trace_thread_pause Reporter tr)
      | _ \<Rightarrow> rest_next Reporter tr)"

text \<open>The next step of the controlling thread; when it is outside the calls it pauses or stops the trace.\<close>

definition main_next :: "bool \<Rightarrow> par_sys \<Rightarrow> par_sys option" where
  "main_next stop s =
     (let tr = ps_tr s in
      case ps_main s of
        MReady \<Rightarrow> if par_lock_left tr then None
          else (case ppause_enter tr of
              (None, tr) \<Rightarrow> Some (goto_main MStart tr s\<lparr>ps_stop := stop\<rparr>)
            | (Some c, tr) \<Rightarrow> if c = 0 then Some (goto_main MStopAsk tr s) else if c = - 1 then Some (goto_main MReady tr s) else None)
      | MStart \<Rightarrow> Some (if trace_has_dedicated_hasher tr
          then goto_main MHasher (snd (trace_message_thread 0 tr Hasher (message MESSAGE_DO_PAUSE 0))) s
          else goto_main (MAsk 0) tr s)
      | MHasher \<Rightarrow> if pt_state (par_threads tr Hasher) \<noteq> THREAD_RUNNING then Some (goto_main (MAsk 0) tr s) else None
      | MAsk k \<Rightarrow> Some (if k < par_count tr
          then goto_main (MAsk (Suc k)) (snd (trace_message_thread 0 tr (Perpkt k) (message MESSAGE_DO_PAUSE 0))) s
          else goto_main MWait tr s)
      | MWait \<Rightarrow> if par_thread_states tr THREAD_RUNNING = 0 then Some (goto_main MAskReporter tr s) else None
      | MAskReporter \<Rightarrow> (case trace_has_reporter tr of Inl _ \<Rightarrow> None
          | Inr has \<Rightarrow> Some (if has then goto_main MReporter (snd (trace_message_thread 0 tr Reporter (message MESSAGE_DO_PAUSE 0))) s
              else goto_main MFormat tr s))
      | MReporter \<Rightarrow> if pt_state (par_threads tr Reporter) \<noteq> THREAD_RUNNING then Some (goto_main MFormat tr s) else None
      | MFormat \<Rightarrow> Some (goto_main (if ps_stop s then MStopAsk else MReady)
          (libtrace_change_state (tr\<lparr>par_started := False\<rparr>) STATE_PAUSED) s)
      | MStopAsk \<Rightarrow> Some (goto_main MStopRelease (pstop_messages 0 tr) s)
      | MStopRelease \<Rightarrow> Some (goto_main MReady (libtrace_change_state tr STATE_FINISHING) s)
      | _ \<Rightarrow> None)"

datatype action = Main bool | Restart int | Own thread_ref | ReadEnd nat

fun par_next :: "action \<Rightarrow> par_sys \<Rightarrow> par_sys option" where
  "par_next (Main stop) s = main_next stop s"
| "par_next (Restart err) s =
     (if ps_main s = MReady \<and> \<not> par_lock_left (ps_tr s)
      then (case prestart_states err (ps_tr s) of
          Inl _ \<Rightarrow> Some (s\<lparr>ps_aborted := True\<rparr>) | Inr (_, tr) \<Rightarrow> Some (goto_main MReady tr s))
      else None)"
| "par_next (Own (Perpkt i)) s = map_option (\<lambda>tr. s\<lparr>ps_tr := tr\<rparr>) (perpkt_next i (ps_tr s))"
| "par_next (Own Hasher) s = (case hasher_next (ps_tr s) of
      None \<Rightarrow> None | Some (Inl _) \<Rightarrow> Some (s\<lparr>ps_aborted := True\<rparr>) | Some (Inr tr) \<Rightarrow> Some (s\<lparr>ps_tr := tr\<rparr>))"
| "par_next (Own Reporter) s = map_option (\<lambda>tr. s\<lparr>ps_tr := tr\<rparr>) (reporter_next (ps_tr s))"
| "par_next (Own Keepalive) s = map_option (\<lambda>tr. s\<lparr>ps_tr := tr\<rparr>) (rest_next Keepalive (ps_tr s))"
| "par_next (ReadEnd i) s =
     (if i < par_count (ps_tr s) \<and> pc_of (ps_tr s) (Perpkt i) = InLoop
      then Some (s\<lparr>ps_tr := set_pc (Perpkt i) Stopping (ps_tr s)\<rparr>) else None)"

fun par_run :: "action list \<Rightarrow> par_sys \<Rightarrow> par_sys option" where
  "par_run [] s = Some s"
| "par_run (a # as) s = (if ps_aborted s then None else case par_next a s of None \<Rightarrow> None | Some s \<Rightarrow> par_run as s)"

lemma rest_next_step:
  assumes "rest_next r tr = Some tr'" "of_trace tr r"
  shows "thread_step tr tr'"
  using assms(1) thread_step.resume [OF assms(2)] thread_step.end_step [of r tr]
  by (auto simp: rest_next_def split: if_splits thread_pc.splits)

lemma perpkt_next_step: "perpkt_next i tr = Some tr' \<Longrightarrow> thread_step tr tr'"
  by (auto simp: perpkt_next_def split: if_splits thread_pc.splits sum.splits
    intro: thread_step.pp_message thread_step.pp_pause thread_step.pp_finish rest_next_step)

lemma hasher_next_step:
  assumes "hasher_next tr = Some r"
  shows "(case r of Inl e \<Rightarrow> thread_abort tr | Inr tr' \<Rightarrow> thread_step tr tr')"
proof (cases "pc_of tr Hasher = InLoop")
  case True
  then obtain m tr1 where m: "take_message Hasher tr = Some (m, tr1)" "\<not> par_lock_left tr1" "r = hasher_handle m tr1"
    and h: "trace_has_dedicated_hasher tr"
    using assms by (auto simp: hasher_next_def split: if_splits option.splits)
  have "\<not> par_lock_left tr" using m(2) take_pc(5) [OF m(1)] by simp
  with m h True show ?thesis by (auto split: sum.splits intro: thread_abort.h_abort thread_step.h_message)
next
  case False
  with assms show ?thesis by (auto simp: hasher_next_def split: if_splits intro: rest_next_step [where r = Hasher, simplified])
qed

lemma reporter_next_step: "reporter_next tr = Some tr' \<Longrightarrow> thread_step tr tr'"
  by (auto simp: reporter_next_def split: if_splits thread_pc.splits option.splits
    intro: thread_step.r_message thread_step.r_pause thread_step.r_end rest_next_step)

lemma main_next_step:
  assumes "main_next stop s = Some s'"
  shows "main_step s s'"
proof (cases "ps_main s")
  case MReady
  then have free: "\<not> par_lock_left (ps_tr s)" using assms by (auto simp: main_next_def split: if_splits)
  obtain r tr where e: "ppause_enter (ps_tr s) = (r, tr)" by fastforce
  show ?thesis
    using assms MReady free e main_step.m_pause [OF MReady free] main_step.m_pause_fails [OF MReady free]
      main_step.m_stop_paused [OF MReady free]
    by (cases r) (auto simp: main_next_def split: if_splits)
next
  case MFormat
  then have "s' = goto_main (if ps_stop s then MStopAsk else MReady)
      (libtrace_change_state ((ps_tr s)\<lparr>par_started := False\<rparr>) STATE_PAUSED) s"
    using assms by (simp add: main_next_def Let_def)
  with MFormat show ?thesis using main_step.m_format by blast
next
  case MStart
  then show ?thesis using assms main_step.m_ask_hasher [OF MStart] main_step.m_no_hasher [OF MStart]
    by (auto simp: main_next_def Let_def)
next
  case (MAsk k)
  then show ?thesis using assms main_step.m_ask [OF MAsk] main_step.m_asked [OF MAsk]
    by (auto simp: main_next_def Let_def split: if_splits)
next
  case MAskReporter
  then show ?thesis using assms main_step.m_ask_reporter [OF MAskReporter] main_step.m_no_reporter [OF MAskReporter]
    by (auto simp: main_next_def Let_def split: if_splits sum.splits)
qed (use assms in \<open>auto simp: main_next_def Let_def split: if_splits
    intro: main_step.m_hasher main_step.m_wait main_step.m_reporter main_step.m_stop_ask main_step.m_stop_release\<close>)

lemma par_next_step:
  assumes "par_next a s = Some s'" "\<not> ps_aborted s"
  shows "par_step s s'"
proof (cases a)
  case (Main stop)
  then show ?thesis using assms by (auto intro: par_step.main main_next_step)
next
  case (Restart err)
  then show ?thesis using assms
    by (auto split: if_splits sum.splits prod.splits intro: par_step.main main_step.m_restart main_step.m_restart_aborts)
next
  case (Own r)
  then show ?thesis using assms hasher_next_step [of "ps_tr s"]
    by (cases r) (auto split: option.splits sum.splits
      intro: par_step.thread par_step.abort perpkt_next_step reporter_next_step rest_next_step [where r = Keepalive, simplified])
next
  case (ReadEnd i)
  then show ?thesis using assms by (auto split: if_splits intro: par_step.thread thread_step.pp_eof)
qed

lemma par_run_steps: "par_run as s = Some s' \<Longrightarrow> par_step\<^sup>*\<^sup>* s s'"
proof (induction "as" arbitrary: s)
  case (Cons a "as")
  then show ?case by (auto split: if_splits option.splits intro: converse_rtranclp_into_rtranclp par_next_step)
qed simp

lemma par_run_reachable: "par_run as s0 = Some s \<Longrightarrow> par_reachable s0 s"
  using reachable_steps [OF par_reachable.init par_run_steps] .

section \<open>Completion of a pause\<close>

text \<open>
  The work a thread has before it rests: the messages it has not looked at, and the steps from where
  it is. A pause is a rest while the trace is paused.
\<close>

definition work :: "bool \<Rightarrow> par_thread \<Rightarrow> nat" where
  "work p t = (case pt_pc t of Ended \<Rightarrow> 0 | Stopping \<Rightarrow> 1
     | InLoop \<Rightarrow> 2 + 3 * length (pt_messages t)
     | Pausing \<Rightarrow> 3 + 3 * length (pt_messages t)
     | Waiting \<Rightarrow> if p then 0 else 3 + 3 * length (pt_messages t))"

lemma pause_result:
  assumes "threads_ok tr" "i < par_count tr"
  shows "trace_thread_pause (Perpkt i) tr =
    (if paused tr then set_pc (Perpkt i) Waiting (thread_change_state tr (Perpkt i) THREAD_PAUSED)
     else resume_thread (Perpkt i) (set_pc (Perpkt i) Waiting (thread_change_state tr (Perpkt i) THREAD_PAUSED)))"
proof -
  have "counts_ok (thread_change_state tr (Perpkt i) THREAD_PAUSED)"
    by (rule change_counts) (use assms in \<open>auto simp: threads_ok_parts types_ok_def\<close>)
  from change_par_state [OF this] have "par_state (thread_change_state tr (Perpkt i) THREAD_PAUSED) = par_state tr"
    using assms(2) by (metis change_state_simps(1) fun_upd_same par_thread.select_convs(2) par_thread.surjective
        par_thread.update_convs(2) thread_states.distinct(11))
  then show ?thesis by (simp add: thread_pause_eq Let_def)
qed

lemma thread_advances:
  assumes ok: "threads_ok tr" and free: "\<not> par_lock_left tr" and i: "i < par_count tr"
    and work: "0 < work (paused tr) (par_threads tr (Perpkt i))"
    and asked: "pc_of tr (Perpkt i) = InLoop \<Longrightarrow> pt_messages (par_threads tr (Perpkt i)) \<noteq> []"
  obtains tr' where "thread_step tr tr'" "\<And>j. j \<noteq> i \<Longrightarrow> par_threads tr' (Perpkt j) = par_threads tr (Perpkt j)"
    "work (paused tr) (par_threads tr' (Perpkt i)) < work (paused tr) (par_threads tr (Perpkt i))"
proof (cases "pc_of tr (Perpkt i)")
  case InLoop
  then obtain m ms where ms: "pt_messages (par_threads tr (Perpkt i)) = m # ms" using asked by (cases "pt_messages (par_threads tr (Perpkt i))") auto
  let ?tr = "set_thread (Perpkt i) ((par_threads tr (Perpkt i))\<lparr>pt_messages := ms\<rparr>) tr"
  have "take_message (Perpkt i) tr = Some (m, ?tr)" using ms by (simp add: take_message_def)
  then have "thread_step tr (perpkt_handle i m ?tr)" by (rule thread_step.pp_message [OF i InLoop])
  then show thesis
    by (rule that) (use InLoop ms in \<open>auto simp: perpkt_handle_def set_thread_def work_def split: libtrace_messages.splits\<close>)
next
  case Pausing
  then have "thread_step tr (trace_thread_pause (Perpkt i) tr)" by (rule thread_step.pp_pause [OF i _ free])
  then show thesis
    by (rule that) (use Pausing in \<open>auto simp: pause_result [OF ok i] resume_thread_def work_def\<close>)
next
  case Stopping
  obtain tr' where tr': "perpkt_finish 0 i tr = Inr tr'" using perpkt_finish_progress [OF ok i Stopping] .
  then have "thread_step tr tr'" by (rule thread_step.pp_finish [OF i Stopping free])
  moreover have "par_threads tr' (Perpkt j) = par_threads (end_thread (Perpkt i) tr) (Perpkt j)" for j
    using tr' by (rule perpkt_finish_cases) simp_all
  ultimately show thesis
    by (intro that [of tr']) (use Stopping in \<open>auto simp: end_thread_def work_def\<close>)
next
  case Waiting
  then have "\<not> paused tr" using work by (auto simp: work_def)
  then have "thread_step tr (resume_thread (Perpkt i) tr)"
    by (intro thread_step.resume) (use i Waiting free in auto)
  then show thesis
    by (rule that) (use Waiting \<open>\<not> paused tr\<close> in \<open>auto simp: resume_thread_def work_def\<close>)
next
  case Ended
  then show thesis using work by (simp add: work_def)
qed

abbreviation total_work :: "bool \<Rightarrow> par_trace \<Rightarrow> nat" where
  "total_work p tr \<equiv> \<Sum>i<par_count tr. work p (par_threads tr (Perpkt i))"

text \<open>
  A state in which some thread of the trace is not at rest is left by a step that keeps the invariant and the controlling
  thread where it is, and leaves less work.
\<close>

lemma system_advances:
  assumes inv: "par_inv s" and s: "\<not> ps_aborted s" "\<not> par_lock_left (ps_tr s)" and i: "i < par_count (ps_tr s)"
    and work: "0 < work (paused (ps_tr s)) (par_threads (ps_tr s) (Perpkt i))"
    and asked: "pc_of (ps_tr s) (Perpkt i) = InLoop \<Longrightarrow> pt_messages (par_threads (ps_tr s) (Perpkt i)) \<noteq> []"
  obtains s' where "par_step s s'" "par_inv s'" "ps_main s' = ps_main s" "\<not> ps_aborted s'" "\<not> par_lock_left (ps_tr s')"
    "ps_stop s' = ps_stop s" "par_state (ps_tr s') = par_state (ps_tr s) \<or> all_ended (ps_tr s')"
    "total_work (paused (ps_tr s)) (ps_tr s') < total_work (paused (ps_tr s)) (ps_tr s)"
proof -
  have ok: "threads_ok (ps_tr s)" using inv by (simp add: par_inv_def)
  obtain tr' where tr': "thread_step (ps_tr s) tr'" "\<And>j. j \<noteq> i \<Longrightarrow> par_threads tr' (Perpkt j) = par_threads (ps_tr s) (Perpkt j)"
    and less: "work (paused (ps_tr s)) (par_threads tr' (Perpkt i)) < work (paused (ps_tr s)) (par_threads (ps_tr s) (Perpkt i))"
    using thread_advances [OF ok s(2) i work asked] by metis
  have step: "par_step s (s\<lparr>ps_tr := tr'\<rparr>)" by (rule par_step.thread [OF s(1) tr'(1)])
  have frame: "same_frame (ps_tr s) tr'" by (rule thread_step_frame [OF tr'(1)])
  have "total_work (paused (ps_tr s)) tr' < total_work (paused (ps_tr s)) (ps_tr s)"
    unfolding frame [unfolded same_frame_def, THEN conjunct2, THEN conjunct1]
  proof (rule sum_strict_mono_ex1)
    show "\<forall>j\<in>{..<par_count (ps_tr s)}. work (paused (ps_tr s)) (par_threads tr' (Perpkt j)) \<le>
        work (paused (ps_tr s)) (par_threads (ps_tr s) (Perpkt j))"
      using less tr'(2) by (metis order.refl order.strict_implies_order)
  qed (use i less in auto)
  then show thesis
    using that [OF step par_step_inv [OF step inv]] s frame thread_step_progress [OF tr'(1) ok]
    by (auto simp: same_frame_def progress_def)
qed

lemma perpkts_rest:
  assumes "par_inv s" "ps_main s = MWait" "\<not> ps_aborted s" "\<not> par_lock_left (ps_tr s)"
  shows "\<exists>s'. par_step\<^sup>*\<^sup>* s s' \<and> par_inv s' \<and> ps_main s' = MWait \<and> quiet (ps_tr s') \<and> \<not> ps_aborted s' \<and> \<not> par_lock_left (ps_tr s')"
  using assms
proof (induction "total_work True (ps_tr s)" arbitrary: s rule: less_induct)
  case less
  show ?case
  proof (cases "quiet (ps_tr s)")
    case True
    then show ?thesis using less.prems by blast
  next
    case False
    then obtain i where i: "i < par_count (ps_tr s)" "pc_of (ps_tr s) (Perpkt i) \<notin> {Waiting, Ended}" by (auto simp: quiet_def)
    have "\<not> all_ended (ps_tr s)" using False ended_quiet by blast
    then have p: "paused (ps_tr s)" and asked: "pause_asked (ps_tr s) i"
      using less.prems(1,2) i(1) by (auto simp: par_inv_def threads_ok_parts trace_has_finished_def)
    have "0 < work (paused (ps_tr s)) (par_threads (ps_tr s) (Perpkt i))" using i(2) by (cases "pc_of (ps_tr s) (Perpkt i)") (auto simp: work_def)
    moreover have "pc_of (ps_tr s) (Perpkt i) = InLoop \<Longrightarrow> pt_messages (par_threads (ps_tr s) (Perpkt i)) \<noteq> []"
      using asked by (auto simp: pause_asked_def requested_def)
    ultimately obtain s' where s': "par_step s s'" "par_inv s'" "ps_main s' = ps_main s" "\<not> ps_aborted s'" "\<not> par_lock_left (ps_tr s')"
      "total_work True (ps_tr s') < total_work True (ps_tr s)"
      using system_advances [OF less.prems(1,3,4) i(1)] p by auto
    then obtain s'' where "par_step\<^sup>*\<^sup>* s' s''" "par_inv s''" "ps_main s'' = MWait" "quiet (ps_tr s'')" "\<not> ps_aborted s''" "\<not> par_lock_left (ps_tr s'')"
      using less.hyps [OF s'(6,2)] less.prems(2) by auto
    then show ?thesis using s'(1) by (blast intro: converse_rtranclp_into_rtranclp)
  qed
qed

lemma perpkts_end:
  assumes "par_inv s" "par_state (ps_tr s) = STATE_FINISHING \<or> all_ended (ps_tr s)" "\<not> ps_aborted s" "\<not> par_lock_left (ps_tr s)"
  shows "\<exists>s'. par_step\<^sup>*\<^sup>* s s' \<and> par_inv s' \<and> all_ended (ps_tr s') \<and> ps_main s' = ps_main s"
  using assms
proof (induction "total_work False (ps_tr s)" arbitrary: s rule: less_induct)
  case less
  show ?case
  proof (cases "all_ended (ps_tr s)")
    case True
    then show ?thesis using less.prems by blast
  next
    case False
    then obtain i where i: "i < par_count (ps_tr s)" "pc_of (ps_tr s) (Perpkt i) \<noteq> Ended" by (auto simp: all_ended_def)
    have st: "par_state (ps_tr s) = STATE_FINISHING" using False less.prems(2) by simp
    then have p: "\<not> paused (ps_tr s)" and asked: "stop_asked (ps_tr s) i"
      using less.prems(1) i(1) by (auto simp: par_inv_def threads_ok_parts)
    have "0 < work (paused (ps_tr s)) (par_threads (ps_tr s) (Perpkt i))" using i(2) p by (cases "pc_of (ps_tr s) (Perpkt i)") (auto simp: work_def)
    moreover have "pc_of (ps_tr s) (Perpkt i) = InLoop \<Longrightarrow> pt_messages (par_threads (ps_tr s) (Perpkt i)) \<noteq> []"
      using asked by (auto simp: stop_asked_def requested_def)
    ultimately obtain s' where s': "par_step s s'" "par_inv s'" "ps_main s' = ps_main s" "\<not> ps_aborted s'" "\<not> par_lock_left (ps_tr s')"
      "par_state (ps_tr s') = STATE_FINISHING \<or> all_ended (ps_tr s')" "total_work False (ps_tr s') < total_work False (ps_tr s)"
      using system_advances [OF less.prems(1,3,4) i(1)] p st by auto
    then obtain s'' where "par_step\<^sup>*\<^sup>* s' s''" "par_inv s''" "all_ended (ps_tr s'')" "ps_main s'' = ps_main s"
      using less.hyps [OF s'(7,2)] by auto
    then show ?thesis using s'(1) by (blast intro: converse_rtranclp_into_rtranclp)
  qed
qed

lemma reporter_advances:
  assumes inv: "par_inv s" and main: "ps_main s = MReporter" and free: "\<not> par_lock_left (ps_tr s)"
    and type: "pt_type (par_threads (ps_tr s) Reporter) = THREAD_REPORTER"
    and run: "pt_state (par_threads (ps_tr s) Reporter) = THREAD_RUNNING"
    and asked: "pc_of (ps_tr s) Reporter = InLoop \<Longrightarrow> requested MESSAGE_DO_PAUSE (ps_tr s) Reporter \<or> trace_has_finished (ps_tr s)"
  obtains tr' where "thread_step (ps_tr s) tr'"
    "pc_of tr' Reporter = InLoop \<Longrightarrow> requested MESSAGE_DO_PAUSE tr' Reporter \<or> trace_has_finished tr'"
    "work True (par_threads tr' Reporter) < work True (par_threads (ps_tr s) Reporter)"
proof (cases "pc_of (ps_tr s) Reporter")
  case InLoop
  show thesis
  proof (cases "pt_messages (par_threads (ps_tr s) Reporter)")
    case Nil
    then have "trace_has_finished (ps_tr s)" using asked InLoop by (auto simp: requested_def)
    then have "thread_step (ps_tr s) (set_pc Reporter Stopping (ps_tr s))" by (rule thread_step.r_end [OF type InLoop])
    then show thesis by (rule that) (use InLoop in \<open>auto simp: work_def\<close>)
  next
    case (Cons m ms)
    let ?tr = "set_thread Reporter ((par_threads (ps_tr s) Reporter)\<lparr>pt_messages := ms\<rparr>) (ps_tr s)"
    have "take_message Reporter (ps_tr s) = Some (m, ?tr)" using Cons by (simp add: take_message_def)
    then have "thread_step (ps_tr s) (reporter_handle m ?tr)" by (rule thread_step.r_message [OF type InLoop])
    then show thesis
      by (rule that) (use InLoop Cons asked in
        \<open>auto simp: reporter_handle_def set_thread_def work_def requested_def trace_has_finished_def split: libtrace_messages.splits\<close>)
  qed
next
  case Pausing
  have step: "thread_step (ps_tr s) (trace_thread_pause Reporter (ps_tr s))" by (rule thread_step.r_pause [OF Pausing free])
  have "par_inv (s\<lparr>ps_tr := trace_thread_pause Reporter (ps_tr s)\<rparr>)"
    by (fact thread_step_inv [OF step inv])
  then have "main_ok MReporter (trace_thread_pause Reporter (ps_tr s))"
    unfolding par_inv_def using main by simp
  then have "par_state (trace_thread_pause Reporter (ps_tr s)) \<in> {STATE_PAUSING, STATE_FINISHED}"
    by (simp only: main_ok.simps)
  moreover have "\<not> paused tr \<Longrightarrow> \<not> paused (thread_change_state tr Reporter x)" for tr x
    by (auto simp: thread_change_state_def Let_def set_thread_def)
  then have "pc_of (trace_thread_pause Reporter (ps_tr s)) Reporter = InLoop \<Longrightarrow> \<not> paused (trace_thread_pause Reporter (ps_tr s))"
    by (cases "paused (thread_change_state (ps_tr s) Reporter THREAD_PAUSED)") (simp_all add: trace_thread_pause_def Let_def)
  ultimately have "pc_of (trace_thread_pause Reporter (ps_tr s)) Reporter = InLoop \<Longrightarrow> trace_has_finished (trace_thread_pause Reporter (ps_tr s))"
    unfolding trace_has_finished_def by blast
  with step show thesis
    by (intro that [OF step]) (use Pausing in \<open>auto simp: trace_thread_pause_def Let_def work_def\<close>)
next
  case Stopping
  then have "thread_step (ps_tr s) (end_thread Reporter (ps_tr s))" by (intro thread_step.end_step free) simp
  then show thesis by (rule that) (use Stopping in \<open>auto simp: end_thread_def work_def\<close>)
qed (use run inv in \<open>auto simp: par_inv_def threads_ok_parts states_ok_def\<close>)

lemma reporter_rests:
  assumes "par_inv s" "ps_main s = MReporter" "\<not> ps_aborted s" "\<not> par_lock_left (ps_tr s)"
    "pt_type (par_threads (ps_tr s) Reporter) = THREAD_REPORTER"
    "pc_of (ps_tr s) Reporter = InLoop \<Longrightarrow> requested MESSAGE_DO_PAUSE (ps_tr s) Reporter \<or> trace_has_finished (ps_tr s)"
  shows "\<exists>s'. par_step\<^sup>*\<^sup>* s s' \<and> ps_main s' = MReporter \<and> pt_state (par_threads (ps_tr s') Reporter) \<noteq> THREAD_RUNNING \<and> \<not> ps_aborted s'"
  using assms
proof (induction "work True (par_threads (ps_tr s) Reporter)" arbitrary: s rule: less_induct)
  case less
  show ?case
  proof (cases "pt_state (par_threads (ps_tr s) Reporter) = THREAD_RUNNING")
    case True
    obtain tr' where tr': "thread_step (ps_tr s) tr'"
      "pc_of tr' Reporter = InLoop \<Longrightarrow> requested MESSAGE_DO_PAUSE tr' Reporter \<or> trace_has_finished tr'"
      "work True (par_threads tr' Reporter) < work True (par_threads (ps_tr s) Reporter)"
      using reporter_advances [OF less.prems(1,2,4,5) True less.prems(6)] by metis
    have step: "par_step s (s\<lparr>ps_tr := tr'\<rparr>)" by (rule par_step.thread [OF less.prems(3) tr'(1)])
    have "same_frame (ps_tr s) tr'" by (rule thread_step_frame [OF tr'(1)])
    then have "\<exists>s'. par_step\<^sup>*\<^sup>* (s\<lparr>ps_tr := tr'\<rparr>) s' \<and> ps_main s' = MReporter \<and>
        pt_state (par_threads (ps_tr s') Reporter) \<noteq> THREAD_RUNNING \<and> \<not> ps_aborted s'"
      using less.hyps [of "s\<lparr>ps_tr := tr'\<rparr>"] tr'(2,3) par_step_inv [OF step less.prems(1)] less.prems(2-5)
      by (simp add: same_frame_def)
    then show ?thesis using step by (blast intro: converse_rtranclp_into_rtranclp)
  qed (use less.prems in blast)
qed

lemma reporter_pauses:
  assumes inv: "par_inv s" and s: "ps_main s = MAskReporter" "\<not> ps_aborted s" "\<not> par_lock_left (ps_tr s)"
  shows "\<exists>t. par_step\<^sup>*\<^sup>* s t \<and> ps_main t = MFormat \<and> \<not> ps_aborted t"
proof -
  have new: "par_state (ps_tr s) \<noteq> STATE_NEW" using inv by (simp add: par_inv_def threads_ok_parts)
  show ?thesis
  proof (cases "trace_has_reporter (ps_tr s) = Inr True")
    case True
    define s3 where "s3 = goto_main MReporter (snd (trace_message_thread 0 (ps_tr s) Reporter (message MESSAGE_DO_PAUSE 0))) s"
    have step: "par_step s s3" unfolding s3_def by (intro par_step.main main_step.m_ask_reporter True s)
    have "pt_type (par_threads (ps_tr s3) Reporter) = THREAD_REPORTER"
      using True new by (auto simp: s3_def goto_main_def message_thread_eq trace_has_reporter_def assertr_def split: if_splits)
    moreover have "requested MESSAGE_DO_PAUSE (ps_tr s3) Reporter"
      by (simp add: s3_def goto_main_def message_thread_eq requested_def)
    ultimately obtain s4 where s4: "par_step\<^sup>*\<^sup>* s3 s4" "ps_main s4 = MReporter"
        "pt_state (par_threads (ps_tr s4) Reporter) \<noteq> THREAD_RUNNING" "\<not> ps_aborted s4"
      using reporter_rests [OF par_step_inv [OF step inv]] s by (auto simp: s3_def goto_main_def message_thread_eq)
    have last: "par_step s4 (goto_main MFormat (ps_tr s4) s4)" by (intro par_step.main main_step.m_reporter s4)
    have "par_step\<^sup>*\<^sup>* s (goto_main MFormat (ps_tr s4) s4)"
      by (rule converse_rtranclp_into_rtranclp [OF step rtranclp.rtrancl_into_rtrancl [OF s4(1) last]])
    moreover have "ps_main (goto_main MFormat (ps_tr s4) s4) = MFormat" "\<not> ps_aborted (goto_main MFormat (ps_tr s4) s4)"
      using s4(4) by (simp_all add: goto_main_def)
    ultimately show ?thesis by blast
  next
    case False
    then have "trace_has_reporter (ps_tr s) = Inr False" using new by (auto simp: trace_has_reporter_def assertr_def)
    then have "par_step s (goto_main MFormat (ps_tr s) s)" by (intro par_step.main main_step.m_no_reporter s)
    then have "par_step\<^sup>*\<^sup>* s (goto_main MFormat (ps_tr s) s)" by (rule r_into_rtranclp)
    moreover have "ps_main (goto_main MFormat (ps_tr s) s) = MFormat" "\<not> ps_aborted (goto_main MFormat (ps_tr s) s)"
      using s(2) by (simp_all add: goto_main_def)
    ultimately show ?thesis by blast
  qed
qed

section \<open>The lock and the assertions\<close>

lemma fold_message_frame: "same_frame tr (fold (\<lambda>i tr. snd (trace_message_thread self tr (Perpkt i) m)) xs tr)"
proof (induction xs arbitrary: tr)
  case (Cons x xs)
  then show ?case by (auto simp: message_thread_eq intro: same_frame_trans [OF frame_simps(2)])
qed (simp add: frame_simps)

lemma pstop_frame: "same_frame tr (pstop_messages self tr)"
  unfolding pstop_messages_def Let_def message_thread_eq [of self _ Hasher]
  by (rule same_frame_trans [OF _ fold_message_frame])
    (auto intro: frame_simps same_frame_trans [OF frame_simps(1) frame_simps(2)])

lemma main_step_types:
  assumes "main_step s s'"
  shows "pt_type (par_threads (ps_tr s') r) = pt_type (par_threads (ps_tr s) r)"
  using assms
  by (cases rule: main_step.cases)
    (auto simp: goto_main_def message_thread_eq ppause_enter_def prestart_states_def assertr_def
      pstop_frame [unfolded same_frame_def] split: if_splits)

text \<open>The lock is left locked only by a call of \<open>trace_ppause\<close>, and is never free again.\<close>

definition outside :: "main_pc \<Rightarrow> bool" where
  "outside m \<longleftrightarrow> m = MReady \<or> m = MJoin \<or> m = MJoinTick"

lemma main_step_lock:
  assumes "main_step s s'" "par_lock_left (ps_tr s) \<Longrightarrow> outside (ps_main s)"
  shows "par_lock_left (ps_tr s') \<Longrightarrow> outside (ps_main s')"
  using assms
  by (cases rule: main_step.cases)
    (auto simp: outside_def goto_main_def message_thread_eq ppause_enter_def prestart_states_def assertr_def
      pstop_frame [unfolded same_frame_def] split: if_splits)

lemma par_step_lock:
  assumes "par_step s s'" "par_lock_left (ps_tr s) \<Longrightarrow> outside (ps_main s)" "par_lock_left (ps_tr s')"
  shows "outside (ps_main s')"
  using assms by cases (auto intro: main_step_lock dest: thread_step_frame simp: same_frame_def)

lemma par_lock_outside:
  assumes "par_reachable (pstart_sys n hasher reporter ticks) s"
  shows "par_lock_left (ps_tr s) \<Longrightarrow> outside (ps_main s)"
  using assms
proof (induction rule: par_reachable.induct)
  case init
  then show ?case by (simp add: pstart_sys_def pstart_trace_def)
next
  case (step s s')
  then show ?case using par_step_lock by blast
qed

lemma reachable_hasher:
  assumes "par_reachable (pstart_sys n hasher reporter ticks) s"
  shows "trace_has_dedicated_hasher (ps_tr s) \<longleftrightarrow> hasher"
  using assms
proof (induction rule: par_reachable.induct)
  case init
  then show ?case by (simp add: pstart_sys_def pstart_trace_def started_thread_def trace_has_dedicated_hasher_def)
next
  case (step s s')
  from step(2) have "pt_type (par_threads (ps_tr s') Hasher) = pt_type (par_threads (ps_tr s) Hasher)"
    by cases (auto dest: main_step_types thread_step_frame simp: same_frame_def)
  with step show ?case by (simp add: trace_has_dedicated_hasher_def)
qed

text \<open>The assertions of the controlling thread and of the per-packet threads hold.\<close>

lemma prestart_asserts:
  assumes "threads_ok tr"
  shows "prestart_states err tr \<noteq> Inl e"
  using assms quiet_count [OF assms] by (auto simp: prestart_states_def assertr_def threads_ok_parts)

lemma join_asserts_hold: "threads_ok tr \<Longrightarrow> threads_ended tr \<Longrightarrow> join_asserts tr"
  by (auto simp: join_asserts_def threads_ended_def threads_ok_parts states_ok_def)

lemma par_step_aborts:
  assumes "par_step s s'" "par_inv s" "\<not> ps_aborted s" "ps_aborted s'"
  shows "trace_has_dedicated_hasher (ps_tr s)"
proof -
  have ok: "threads_ok (ps_tr s)" using assms(2) by (simp add: par_inv_def)
  from assms(1) show ?thesis
  proof cases
    case main
    from main(2) show ?thesis
      using assms(3,4) prestart_asserts [OF ok] join_asserts_hold [OF ok]
      by (cases rule: main_step.cases) (auto simp: goto_main_def)
  next
    case abort
    from abort(3) show ?thesis
    proof cases
      case (pp_abort i self e)
      then show ?thesis using perpkt_finish_progress [OF ok pp_abort(1,2), of self] by auto
    qed
  qed (use assms(3,4) in simp)
qed

text \<open>When the lock has been left locked no thread ends any more.\<close>

lemma locked_thread_step:
  assumes "thread_step tr tr'" "par_lock_left tr"
  shows "pc_of tr' r = Ended \<longleftrightarrow> pc_of tr r = Ended"
  using assms
proof (cases rule: thread_step.cases)
  case (pp_message i m tr1)
  then show ?thesis using take_pc(1) [OF pp_message(4), of r]
    by (auto simp: perpkt_handle_def split: libtrace_messages.splits)
next
  case (h_message m tr1)
  then show ?thesis using take_pc(1) [OF h_message(3), of r] assms(2)
    by (auto simp: hasher_handle_def assertr_def split: libtrace_messages.splits if_splits)
next
  case (r_message m tr1)
  then show ?thesis using take_pc(1) [OF r_message(4), of r]
    by (auto simp: reporter_handle_def split: libtrace_messages.splits)
next
  case (k_stop m tr1)
  then show ?thesis using take_pc(1) [OF k_stop(4), of r] by auto
qed (auto simp: perpkt_error_def perpkts_pc message_thread_eq)

lemma locked_main_step:
  assumes "main_step s s'" "par_lock_left (ps_tr s)" "outside (ps_main s)"
  shows "par_lock_left (ps_tr s') \<and> outside (ps_main s') \<and> (\<forall>r. pc_of (ps_tr s') r = pc_of (ps_tr s) r) \<and>
    par_state (ps_tr s') = par_state (ps_tr s)"
  using assms by (cases rule: main_step.cases) (auto simp: outside_def goto_main_def message_thread_eq)

lemma locked_steps:
  assumes "par_step\<^sup>*\<^sup>* s s'" "par_lock_left (ps_tr s)" "outside (ps_main s)"
  shows "par_lock_left (ps_tr s') \<and> outside (ps_main s') \<and> (\<forall>r. pc_of (ps_tr s') r = Ended \<longleftrightarrow> pc_of (ps_tr s) r = Ended)"
  using assms
proof (induction rule: rtranclp_induct)
  case (step t u)
  from step(2) show ?case
    using step.IH step.prems locked_main_step [of t u] locked_thread_step [of "ps_tr t"]
    by cases (auto dest: thread_step_frame simp: same_frame_def)
qed simp

section \<open>Properties\<close>

text \<open>
  (C35) A paused trace is at rest. Whatever the interleaving of the threads, when the state of the trace
  is paused, and already when \<open>trace_ppause\<close> stops the format, no per-packet thread is running: each is
  paused or has finished, and the counters of the trace say so. So the assertion with which a restart
  begins never fails.
\<close>

theorem pause_stops_threads:
  assumes "par_reachable (pstart_sys n hasher reporter ticks) s" "0 < n"
    and "par_state (ps_tr s) = STATE_PAUSED \<or> ps_main s = MFormat"
  shows "(\<forall>i<par_count (ps_tr s). pt_state (par_threads (ps_tr s) (Perpkt i)) \<in> {THREAD_PAUSED, THREAD_FINISHED}) \<and>
    par_thread_states (ps_tr s) THREAD_RUNNING = 0 \<and> prestart_states err (ps_tr s) \<noteq> Inl e"
proof -
  have inv: "par_inv s" by (rule reachable_inv [OF assms(1,2)])
  then have ok: "threads_ok (ps_tr s)" by (simp add: par_inv_def)
  have quiet: "quiet (ps_tr s)" using inv assms(3) by (auto simp: par_inv_def threads_ok_parts)
  then have "\<forall>i<par_count (ps_tr s). pt_state (par_threads (ps_tr s) (Perpkt i)) \<in> {THREAD_PAUSED, THREAD_FINISHED}"
    using ok by (auto simp: quiet_def threads_ok_parts states_ok_def)
  then show ?thesis using quiet_count [OF ok quiet] prestart_asserts [OF ok] by blast
qed

definition pause_run :: "action list" where
  "pause_run = [Main False, Main False, Main False, Main False, Main False, Own (Perpkt 0), Own (Perpkt 0),
     Own (Perpkt 1), Own (Perpkt 1), Main False, Main False, Own Reporter, Own Reporter, Main False, Main False]"

definition two_threads_sys :: par_sys where
  "two_threads_sys = pstart_sys 2 False True False"

lemma pause_run_eval:
  "map_option (\<lambda>s. (par_state (ps_tr s), ps_main s, ps_aborted s)) (par_run pause_run two_threads_sys) = Some (STATE_PAUSED, MReady, False)"
  "map_option (\<lambda>s. (ps_main s, ps_aborted s)) (par_run (take 5 pause_run) two_threads_sys) = Some (MWait, False)"
  by code_simp+

theorem pause_stops_threads_witness:
  "\<exists>s. par_reachable (pstart_sys 2 False True False) s \<and> par_thread_states (ps_tr s) THREAD_RUNNING = 0"
proof -
  obtain s where s: "par_run pause_run two_threads_sys = Some s" "par_state (ps_tr s) = STATE_PAUSED"
    using pause_run_eval(1) by auto
  have r: "par_reachable (pstart_sys 2 False True False) s"
    using par_run_reachable [OF s(1)] by (simp add: two_threads_sys_def)
  then show ?thesis using pause_stops_threads [OF r] s(2) by auto
qed



text \<open>
  A stop can always be completed. In every reachable state in which \<open>trace_pstop\<close> has released the
  threads, and the lock has not been left behind by a failed pause, the per-packet threads can go on until all have
  finished: each has a request to stop in its queue or is on its way out.
\<close>

theorem stop_completes:
  assumes "par_reachable (pstart_sys n hasher reporter ticks) s" "0 < n" "par_state (ps_tr s) = STATE_FINISHING"
    and "\<not> ps_aborted s" "\<not> par_lock_left (ps_tr s)"
  shows "\<exists>s'. par_step\<^sup>*\<^sup>* s s' \<and> (\<forall>i<par_count (ps_tr s'). pt_state (par_threads (ps_tr s') (Perpkt i)) = THREAD_FINISHED)"
proof -
  obtain s' where s': "par_step\<^sup>*\<^sup>* s s'" "par_inv s'" "all_ended (ps_tr s')"
    using perpkts_end [OF reachable_inv [OF assms(1,2)] _ assms(4,5)] assms(3) by blast
  then show ?thesis by (auto simp: par_inv_def threads_ok_parts states_ok_def all_ended_def)
qed

lemma stop_run_eval:
  "map_option (\<lambda>s. (par_state (ps_tr s), ps_aborted s, par_lock_left (ps_tr s)))
     (par_run (pause_run @ [Main False, Main False, Main False]) two_threads_sys) = Some (STATE_FINISHING, False, False)"
  by code_simp

theorem stop_completes_witness:
  "\<exists>s s'. par_reachable (pstart_sys 2 False True False) s \<and> par_state (ps_tr s) = STATE_FINISHING \<and> par_step\<^sup>*\<^sup>* s s' \<and>
     (\<forall>i<par_count (ps_tr s'). pt_state (par_threads (ps_tr s') (Perpkt i)) = THREAD_FINISHED)"
proof -
  obtain s where s: "par_run (pause_run @ [Main False, Main False, Main False]) two_threads_sys = Some s"
      "par_state (ps_tr s) = STATE_FINISHING" "\<not> ps_aborted s" "\<not> par_lock_left (ps_tr s)"
    using stop_run_eval by auto
  have r: "par_reachable (pstart_sys 2 False True False) s"
    using par_run_reachable [OF s(1)] by (simp add: two_threads_sys_def)
  then show ?thesis using stop_completes [OF r _ s(2-4)] s(2) by auto
qed

definition hasher_stop_run :: "action list" where
  "hasher_stop_run = [Main True, Main True, Own Hasher, Main True, Main True, Main True, Own (Perpkt 0), Own (Perpkt 0),
     Main True, Main True, Main True, Main True, Main True, Own Hasher, Own Hasher]"

lemma hasher_stop_eval: "map_option ps_aborted (par_run hasher_stop_run (pstart_sys 1 True False False)) = Some True"
  by code_simp



text \<open>
  A trace whose threads have all ended while it was being paused is left in the state paused, and a
  restart makes it running for ever: \<open>trace_ppause\<close> overwrites the state finished.
\<close>

lemma pause_hides_finish:
  "map_option (\<lambda>s. (par_state (ps_tr s), pc_of (ps_tr s) (Perpkt 0)))
     (par_run [Main False, Main False, Main False, Main False, ReadEnd 0, Own (Perpkt 0), Main False, Main False, Main False, Restart 0]
       (pstart_sys 1 False False False)) = Some (STATE_RUNNING, Ended)"
  by code_simp

text \<open>
  (C38) A pause that fails blocks the trace. When \<open>trace_ppause\<close> or \<open>trace_pstop\<close> is called on a trace that is
  neither running nor paused, as one that has just finished, it returns -1 and leaves the lock of the trace locked.
  From then on, in every run, no thread that has not yet ended can end, so a reporter that is still at work never does and
  \<open>trace_join\<close> waits for ever.
\<close>

theorem failed_pause_blocks:
  assumes "ps_main s = MReady" "\<not> par_lock_left (ps_tr s)" "\<not> ps_aborted s"
    and "\<not> par_started (ps_tr s) \<or> par_state (ps_tr s) \<noteq> STATE_RUNNING" "par_state (ps_tr s) \<noteq> STATE_PAUSED"
  shows "\<exists>s'. ppause_enter (ps_tr s) = (Some (- 1), ps_tr s') \<and> par_step s s' \<and>
    (\<forall>s'' r. par_step\<^sup>*\<^sup>* s' s'' \<longrightarrow> (pc_of (ps_tr s'') r = Ended) = (pc_of (ps_tr s) r = Ended))"
proof -
  let ?tr = "(ps_tr s)\<lparr>par_lock_left := True\<rparr>"
  have enter: "ppause_enter (ps_tr s) = (Some (- 1), ?tr)" using assms by (simp add: ppause_enter_def)
  have "par_step s (goto_main MReady ?tr s)"
    by (intro par_step.main main_step.m_pause_fails enter assms)
  then show ?thesis
    using enter locked_steps [of "goto_main MReady ?tr s"]
    by (intro exI [of _ "goto_main MReady ?tr s"]) (auto simp: goto_main_def outside_def)
qed

definition finished_sys :: par_sys where
  "finished_sys = the (par_run [ReadEnd 0, Own (Perpkt 0)] (pstart_sys 1 False True False))"

lemma finished_sys_eval:
  "(ps_main finished_sys, par_lock_left (ps_tr finished_sys), ps_aborted finished_sys, par_state (ps_tr finished_sys),
    pc_of (ps_tr finished_sys) Reporter) = (MReady, False, False, STATE_FINISHED, InLoop)"
  by code_simp

theorem failed_pause_blocks_witness:
  "\<exists>s'. par_step finished_sys s' \<and> (\<forall>s''. par_step\<^sup>*\<^sup>* s' s'' \<longrightarrow> pc_of (ps_tr s'') Reporter \<noteq> Ended)"
  using failed_pause_blocks [of finished_sys] finished_sys_eval by auto

end
