(* ===== verification/Par_Start.thy ===== *)
theory Par_Start
  imports Par_Pause
begin

text \<open>
  Starting a parallel trace: \<open>trace_start_thread\<close> and \<open>trace_pstart\<close> of \<open>lib/trace_parallel.c\<close>, with what
  happens when a thread cannot be created or memory is short. The threads that have been created wait for the
  lock; when the start fails they see the state error and end.
\<close>

section \<open>Operations\<close>

text \<open>
  What the environment gives: whether the trace has an error, the callbacks (for those of the packets whether there is one
  for packets), the result of starting the format, which threads can be created (with the number the system gives them), and
  whether the memory for the table of threads, and that for the first packets and the free list of packets, could be had.
\<close>

record start_env =
  se_err :: bool
  se_perpkt_cbs :: "bool option"
  se_reporter_cbs :: bool
  se_tick_interval :: u64
  se_format :: int
  se_table :: bool
  se_create :: "thread_ref \<Rightarrow> nat option"
  se_memory :: bool

definition libtrace_zero_thread :: "par_thread \<Rightarrow> par_thread" where
  "libtrace_zero_thread t = t\<lparr>pt_type := THREAD_EMPTY\<rparr>"

definition trace_start_thread :: "nat option \<Rightarrow> thread_types \<Rightarrow> thread_ref \<Rightarrow> par_trace \<Rightarrow> (bool \<times> par_trace) res" where
  "trace_start_thread create ty r tr =
     (let t = par_threads tr r in
      assertr (pt_type t = THREAD_EMPTY)
       (case create of
          None \<Rightarrow> Inr (False, set_thread r (libtrace_zero_thread (t\<lparr>pt_state := THREAD_RUNNING\<rparr>)) tr)
        | Some tid \<Rightarrow> Inr (True, set_thread r (started_thread ty tid) tr)))"

fun start_threads :: "(thread_ref \<Rightarrow> nat option) \<Rightarrow> (thread_ref \<times> thread_types) list \<Rightarrow> par_trace \<Rightarrow> (bool \<times> par_trace) res" where
  "start_threads create [] tr = Inr (True, tr)"
| "start_threads create ((r, ty) # rs) tr =
     bindr (trace_start_thread (create r) ty r tr) (\<lambda>(ok, tr).
       if ok then start_threads create rs tr else Inr (False, tr))"

text \<open>The end of a thread that finds the state error, and the join that follows.\<close>

definition reap :: "thread_ref \<Rightarrow> par_trace \<Rightarrow> par_trace" where
  "reap r tr =
     (let tr = thread_change_state tr r THREAD_FINISHED in
      set_thread r (libtrace_zero_thread (par_threads tr r)) tr)"

fun reap_perpkts :: "nat list \<Rightarrow> par_trace \<Rightarrow> par_trace" where
  "reap_perpkts [] tr = tr"
| "reap_perpkts (i # is) tr =
     (if pt_type (par_threads tr (Perpkt i)) = THREAD_PERPKT then reap_perpkts is (reap (Perpkt i) tr) else tr)"

definition reap_if :: "thread_ref \<Rightarrow> thread_types \<Rightarrow> par_trace \<Rightarrow> par_trace" where
  "reap_if r ty tr = (if pt_type (par_threads tr r) = ty then reap r tr else tr)"

definition cleanup_threads :: "par_trace \<Rightarrow> (int \<times> par_trace) res" where
  "cleanup_threads tr =
     (let tr = libtrace_change_state tr STATE_ERROR;
          tr = reap_if Hasher THREAD_HASHER tr;
          tr = reap_perpkts [0..<par_count tr] tr;
          tr = reap_if Reporter THREAD_REPORTER tr;
          tr = reap_if Keepalive THREAD_KEEPALIVE tr;
          tr = libtrace_change_state tr STATE_NEW in
      assertr (par_thread_states tr THREAD_RUNNING = 0)
        (Inr (- 1, tr\<lparr>par_thread_states := (par_thread_states tr)(THREAD_FINISHED := 0)\<rparr>)))"

definition other_threads :: "start_env \<Rightarrow> nat \<Rightarrow> (thread_ref \<times> thread_types) list" where
  "other_threads env n = map (\<lambda>i. (Perpkt i, THREAD_PERPKT)) [0..<n] @
     (if se_reporter_cbs env then [(Reporter, THREAD_REPORTER)] else []) @
     (if 0 < se_tick_interval env then [(Keepalive, THREAD_KEEPALIVE)] else [])"

text \<open>The second half of the start: everything but the hasher.\<close>

definition start_others :: "start_env \<Rightarrow> par_trace \<Rightarrow> (int \<times> par_trace) res" where
  "start_others env tr =
     (if \<not> se_table env then cleanup_threads tr
      else bindr (start_threads (se_create env) (other_threads env (par_count tr))
          (tr\<lparr>par_threads := (\<lambda>r. case r of Perpkt i \<Rightarrow> libtrace_zero_thread (par_threads tr r) | _ \<Rightarrow> par_threads tr r)\<rparr>)) (\<lambda>(ok, tr).
        if \<not> ok then cleanup_threads tr
        else
          let tr = tr\<lparr>par_thread_states := (par_thread_states tr)(THREAD_RUNNING := int (par_count tr))\<rparr> in
          if \<not> se_memory env then cleanup_threads tr
          else Inr (0, libtrace_change_state (tr\<lparr>par_started := True\<rparr>) STATE_RUNNING)))"

definition trace_pstart :: "start_env \<Rightarrow> par_trace \<Rightarrow> (int \<times> par_trace) res" where
  "trace_pstart env tr =
     (if se_err env then Inr (- 1, tr)
      else if par_state tr = STATE_PAUSED then prestart_states (se_format env) tr
      else if par_state tr \<noteq> STATE_NEW \<or> se_perpkt_cbs env = None \<or> se_perpkt_cbs env = Some False then Inr (- 1, tr)
      else let tr = tr\<lparr>par_reporter_cbs := par_reporter_cbs tr \<or> se_reporter_cbs env, par_thread_states := (\<lambda>_. 0)\<rparr> in
        if se_format env \<noteq> 0 then Inr (se_format env, tr)
        else
          let hasher = trace_has_dedicated_hasher tr;
              tr = set_thread Hasher (par_threads tr Hasher\<lparr>pt_type := THREAD_EMPTY\<rparr>) tr in
          bindr (if hasher then trace_start_thread (se_create env Hasher) THREAD_HASHER Hasher tr else Inr (True, tr)) (\<lambda>(ok, tr).
            if ok then start_others env tr else Inr (- 1, tr)))"

section \<open>Threads that are started and ended\<close>

lemma start_threads_all:
  assumes "distinct (map fst rs)" "\<And>r ty. (r, ty) \<in> set rs \<Longrightarrow> pt_type (par_threads tr r) = THREAD_EMPTY \<and> create r \<noteq> None"
  shows "start_threads create rs tr = Inr (True, tr\<lparr>par_threads := (\<lambda>r. case map_of rs r of
      None \<Rightarrow> par_threads tr r | Some ty \<Rightarrow> started_thread ty (the (create r)))\<rparr>)"
  using assms
proof (induction rs arbitrary: tr)
  case (Cons p rs)
  obtain r ty where p: "p = (r, ty)" by fastforce
  have r: "r \<notin> fst ` set rs" "pt_type (par_threads tr r) = THREAD_EMPTY" "create r \<noteq> None" using Cons.prems p by auto
  let ?tr = "set_thread r (started_thread ty (the (create r))) tr"
  have "start_threads create rs ?tr = Inr (True, ?tr\<lparr>par_threads := (\<lambda>r. case map_of rs r of
      None \<Rightarrow> par_threads ?tr r | Some ty \<Rightarrow> started_thread ty (the (create r)))\<rparr>)"
    by (rule Cons.IH) (use Cons.prems p r(1) in \<open>force simp: set_thread_def\<close>)+
  moreover have "map_of rs r = None" using r(1) by (simp add: map_of_eq_None_iff)
  ultimately show ?case using r
    by (auto simp: p trace_start_thread_def assertr_def set_thread_def fun_eq_iff split: option.splits intro!: arg_cong [where f = "\<lambda>f. tr\<lparr>par_threads := f\<rparr>"])
qed simp

lemma start_threads_fails:
  assumes "start_threads create rs tr = Inr (True, tr1)" "create r = None" "pt_type (par_threads tr1 r) = THREAD_EMPTY"
  shows "start_threads create (rs @ (r, ty) # rs') tr = Inr (False, set_thread r (libtrace_zero_thread ((par_threads tr1 r)\<lparr>pt_state := THREAD_RUNNING\<rparr>)) tr1)"
  using assms
proof (induction rs arbitrary: tr)
  case Nil
  then show ?case by (simp add: trace_start_thread_def assertr_def)
next
  case (Cons p rs)
  then show ?case by (cases p) (auto simp: bindr_eq_Inr split: if_splits)
qed

lemma reap_simps [simp]:
  "par_threads (reap r tr) = (par_threads tr)(r := (par_threads tr r)\<lparr>pt_state := THREAD_FINISHED, pt_type := THREAD_EMPTY\<rparr>)"
  "par_count (reap r tr) = par_count tr"
  "par_thread_states (reap r tr) = (if pt_type (par_threads tr r) = THREAD_PERPKT
     then count_state (pt_state (par_threads tr r)) THREAD_FINISHED (par_thread_states tr) else par_thread_states tr)"
  by (simp_all add: reap_def libtrace_zero_thread_def set_thread_def Let_def thread_change_state_def libtrace_change_state_def)

lemma reap_perpkts_counts:
  assumes "j \<le> k" "k \<le> n" "\<And>i. i < k \<Longrightarrow> j \<le> i \<Longrightarrow> pt_type (par_threads tr (Perpkt i)) = THREAD_PERPKT \<and> pt_state (par_threads tr (Perpkt i)) = THREAD_RUNNING"
    and "k < n \<Longrightarrow> pt_type (par_threads tr (Perpkt k)) = THREAD_EMPTY"
  shows "par_thread_states (reap_perpkts [j..<n] tr) THREAD_RUNNING = par_thread_states tr THREAD_RUNNING - int (k - j) \<and>
    (\<forall>r. (\<forall>i. r \<noteq> Perpkt i) \<longrightarrow> par_threads (reap_perpkts [j..<n] tr) r = par_threads tr r)"
  using assms
proof (induction "n - j" arbitrary: j tr)
  case 0
  then show ?case by simp
next
  case (Suc x)
  then have l: "[j..<n] = j # [Suc j..<n]" by (simp add: upt_conv_Cons)
  show ?case
  proof (cases "j = k")
    case True
    then show ?thesis using Suc l by (simp add: l)
  next
    case False
    have "par_thread_states (reap_perpkts [Suc j..<n] (reap (Perpkt j) tr)) THREAD_RUNNING =
        par_thread_states (reap (Perpkt j) tr) THREAD_RUNNING - int (k - Suc j) \<and>
      (\<forall>r. (\<forall>i. r \<noteq> Perpkt i) \<longrightarrow> par_threads (reap_perpkts [Suc j..<n] (reap (Perpkt j) tr)) r = par_threads (reap (Perpkt j) tr) r)"
      by (rule Suc.hyps(1)) (use Suc.hyps(2) Suc.prems False in auto)
    then show ?thesis using Suc.prems False by (auto simp: l count_state_def Let_def)
  qed
qed

text \<open>A trace that has not been started, after its configuration has been verified.\<close>

fun thread_number :: "thread_ref \<Rightarrow> nat" where
  "thread_number (Perpkt i) = i + 4"
| "thread_number Hasher = 1"
| "thread_number Reporter = 2"
| "thread_number Keepalive = 3"

definition new_trace :: "nat \<Rightarrow> bool \<Rightarrow> par_trace" where
  "new_trace n hasher =
     \<lparr>par_state = STATE_NEW, par_started = False,
      par_threads = (\<lambda>r. started_thread (if r = Hasher \<and> hasher then THREAD_HASHER else THREAD_EMPTY) (thread_number r)),
      par_count = n, par_thread_states = (\<lambda>_. 0), par_reporter_cbs = False, par_lock_left = False\<rparr>"

text \<open>The trace before the per-packet threads are started.\<close>

definition hasher_started :: "start_env \<Rightarrow> nat \<Rightarrow> bool \<Rightarrow> par_trace" where
  "hasher_started env n hasher = (new_trace n hasher)\<lparr>par_reporter_cbs := se_reporter_cbs env\<rparr>"

lemma pstart_unfold:
  assumes "\<not> se_err env" "se_perpkt_cbs env = Some True" "se_format env = 0"
    and "hasher \<Longrightarrow> se_create env Hasher = Some 1"
  shows "trace_pstart env (new_trace n hasher) = start_others env (hasher_started env n hasher)"
proof -
  have "par_threads (new_trace n hasher) =
      (par_threads (new_trace n hasher))(Hasher := started_thread (if hasher then THREAD_HASHER else THREAD_EMPTY) 1)"
    by (simp add: new_trace_def fun_eq_iff)
  then have eq: "hasher_started env n hasher = set_thread Hasher (started_thread (if hasher then THREAD_HASHER else THREAD_EMPTY) 1) (hasher_started env n hasher)"
    by (cases "new_trace n hasher") (simp add: hasher_started_def set_thread_def)
  let ?tr = "set_thread Hasher (started_thread THREAD_EMPTY 1) (hasher_started env n hasher)"
  have "(new_trace n h)\<lparr>par_reporter_cbs := par_reporter_cbs (new_trace n h) \<or> se_reporter_cbs env, par_thread_states := (\<lambda>_. 0)\<rparr> =
      hasher_started env n h" "par_state (new_trace n h) = STATE_NEW"
    "par_threads (hasher_started env n h) Hasher\<lparr>pt_type := THREAD_EMPTY\<rparr> = started_thread THREAD_EMPTY 1"
    "trace_has_dedicated_hasher (hasher_started env n h) = h" for h
    by (simp_all add: hasher_started_def new_trace_def started_thread_def trace_has_dedicated_hasher_def)
  then have "trace_pstart env (new_trace n hasher) =
      bindr (if hasher then trace_start_thread (se_create env Hasher) THREAD_HASHER Hasher ?tr else Inr (True, ?tr)) (\<lambda>(ok, tr).
        if ok then start_others env tr else Inr (- 1, tr))"
    using assms(1-3) by (simp only: trace_pstart_def Let_def if_False if_True simp_thms trace_state.distinct option.distinct option.inject refl)
  also have "(if hasher then trace_start_thread (se_create env Hasher) THREAD_HASHER Hasher ?tr else Inr (True, ?tr)) =
      Inr (True, set_thread Hasher (started_thread (if hasher then THREAD_HASHER else THREAD_EMPTY) 1) (hasher_started env n hasher))"
    using assms(4) by (auto simp: trace_start_thread_def assertr_def set_thread_def started_thread_def)
  finally show ?thesis unfolding eq [symmetric] by simp
qed

text \<open>The threads besides the hasher.\<close>

lemma hasher_started_simps:
  "(\<lambda>r. case r of Perpkt i \<Rightarrow> libtrace_zero_thread (par_threads (hasher_started env n hasher) r)
     | _ \<Rightarrow> par_threads (hasher_started env n hasher) r) = par_threads (hasher_started env n hasher)"
  "par_count (hasher_started env n hasher) = n" "par_thread_states (hasher_started env n hasher) = (\<lambda>_. 0)"
  "r \<noteq> Hasher \<Longrightarrow> pt_type (par_threads (hasher_started env n hasher) r) = THREAD_EMPTY"
  by (auto simp: hasher_started_def new_trace_def libtrace_zero_thread_def started_thread_def fun_eq_iff split: thread_ref.splits)

lemma distinct_others: "distinct (map fst (other_threads env n))"
  by (auto simp: other_threads_def distinct_map inj_on_def)

lemma map_of_others:
  "map_of (other_threads env n) r = (case r of
      Perpkt i \<Rightarrow> if i < n then Some THREAD_PERPKT else None
    | Reporter \<Rightarrow> if se_reporter_cbs env then Some THREAD_REPORTER else None
    | Keepalive \<Rightarrow> if 0 < se_tick_interval env then Some THREAD_KEEPALIVE else None
    | Hasher \<Rightarrow> None)"
proof -
  have "map_of (map (\<lambda>i. (Perpkt i, THREAD_PERPKT)) xs) r = (case r of Perpkt i \<Rightarrow> if i \<in> set xs then Some THREAD_PERPKT else None | _ \<Rightarrow> None)" for xs
    by (induction xs) (auto split: thread_ref.splits)
  then show ?thesis by (auto simp: other_threads_def map_add_def split: thread_ref.splits option.splits)
qed

lemma start_others_unfold:
  assumes "se_table env"
  shows "start_others env (hasher_started env n hasher) =
    bindr (start_threads (se_create env) (other_threads env n) (hasher_started env n hasher)) (\<lambda>(ok, tr).
        if \<not> ok then cleanup_threads tr
        else
          let tr = tr\<lparr>par_thread_states := (par_thread_states tr)(THREAD_RUNNING := int (par_count tr))\<rparr> in
          if \<not> se_memory env then cleanup_threads tr
          else Inr (0, libtrace_change_state (tr\<lparr>par_started := True\<rparr>) STATE_RUNNING))"
proof -
  have "(hasher_started env n hasher)\<lparr>par_threads := par_threads (hasher_started env n hasher)\<rparr> = hasher_started env n hasher"
    by simp
  with assms show ?thesis by (simp only: start_others_def hasher_started_simps not_True_eq_False if_False)
qed

lemma reap_if_simps [simp]:
  "par_threads (reap_if r ty tr) = (if pt_type (par_threads tr r) = ty
     then (par_threads tr)(r := (par_threads tr r)\<lparr>pt_state := THREAD_FINISHED, pt_type := THREAD_EMPTY\<rparr>) else par_threads tr)"
  "par_count (reap_if r ty tr) = par_count tr"
  "ty \<noteq> THREAD_PERPKT \<Longrightarrow> par_thread_states (reap_if r ty tr) = par_thread_states tr"
  by (auto simp: reap_if_def)

text \<open>The clean-up succeeds exactly when the counter of running threads is the number of per-packet threads that were created.\<close>

lemma cleanup_counts:
  assumes "\<And>i. i < k \<Longrightarrow> pt_type (par_threads tr (Perpkt i)) = THREAD_PERPKT \<and> pt_state (par_threads tr (Perpkt i)) = THREAD_RUNNING"
    and "k \<le> par_count tr" "k < par_count tr \<Longrightarrow> pt_type (par_threads tr (Perpkt k)) = THREAD_EMPTY"
  shows "if par_thread_states tr THREAD_RUNNING = int k then \<exists>tr'. cleanup_threads tr = Inr (- 1, tr') else cleanup_threads tr = Inl AssertFail"
proof -
  let ?tr = "reap_if Hasher THREAD_HASHER (libtrace_change_state tr STATE_ERROR)"
  have "par_thread_states (reap_perpkts [0..<par_count ?tr] ?tr) THREAD_RUNNING = par_thread_states ?tr THREAD_RUNNING - int (k - 0)"
    by (rule conjunct1 [OF reap_perpkts_counts]) (use assms in auto)
  then show ?thesis by (auto simp: cleanup_threads_def Let_def assertr_def)
qed

lemma map_of_perpkts: "map_of (map (\<lambda>i. (Perpkt i, THREAD_PERPKT)) [0..<k]) (Perpkt i) = (if i < k then Some THREAD_PERPKT else None)"
proof -
  have "map_of (map (\<lambda>i. (Perpkt i, THREAD_PERPKT)) xs) (Perpkt i) = (if i \<in> set xs then Some THREAD_PERPKT else None)" for xs
    by (induction xs) auto
  then show ?thesis by simp
qed

section \<open>Properties\<close>

text \<open>
  (C39) Starting a trace. When nothing fails, \<open>trace_pstart\<close> on a new trace returns 0 with exactly the threads asked for
  started and counted, in the state from which the properties of the control of the threads hold; it calls for a
  callback for packets, and does nothing to a trace that is neither new nor paused.
\<close>

theorem pstart_starts:
  assumes "\<not> se_err env" "se_format env = 0" "se_table env" "se_memory env" "\<And>r. se_create env r = Some (thread_number r)"
  shows "(se_perpkt_cbs env = Some True \<longrightarrow>
      trace_pstart env (new_trace n hasher) = Inr (0, pstart_trace n hasher (se_reporter_cbs env) (0 < se_tick_interval env))) \<and>
    (se_perpkt_cbs env \<noteq> Some True \<longrightarrow> trace_pstart env (new_trace n hasher) = Inr (- 1, new_trace n hasher)) \<and>
    (par_state tr \<notin> {STATE_NEW, STATE_PAUSED} \<longrightarrow> trace_pstart env tr = Inr (- 1, tr))"
proof (intro conjI impI)
  assume cbs: "se_perpkt_cbs env = Some True"
  have st: "start_threads (se_create env) (other_threads env n) (hasher_started env n hasher) =
      Inr (True, (hasher_started env n hasher)\<lparr>par_threads := (\<lambda>r. case map_of (other_threads env n) r of
        None \<Rightarrow> par_threads (hasher_started env n hasher) r | Some ty \<Rightarrow> started_thread ty (the (se_create env r)))\<rparr>)"
    by (rule start_threads_all [OF distinct_others])
      (use assms(5) in \<open>auto simp: hasher_started_simps other_threads_def split: if_splits\<close>)
  have "trace_pstart env (new_trace n hasher) = start_others env (hasher_started env n hasher)"
    by (rule pstart_unfold [OF assms(1) cbs assms(2)]) (simp add: assms(5))
  moreover have "(\<lambda>r. case map_of (other_threads env n) r of None \<Rightarrow> par_threads (hasher_started env n hasher) r
      | Some ty \<Rightarrow> started_thread ty (the (se_create env r))) =
      par_threads (pstart_trace n hasher (se_reporter_cbs env) (0 < se_tick_interval env))" (is "?f = _")
  proof
    show "?f r = par_threads (pstart_trace n hasher (se_reporter_cbs env) (0 < se_tick_interval env)) r" for r
      by (cases r) (simp_all add: map_of_others assms(5) hasher_started_def new_trace_def pstart_trace_def)
  qed
  ultimately have "trace_pstart env (new_trace n hasher) =
      Inr (0, libtrace_change_state ((hasher_started env n hasher)\<lparr>par_threads := par_threads (pstart_trace n hasher (se_reporter_cbs env) (0 < se_tick_interval env)),
        par_thread_states := (\<lambda>_. 0)(THREAD_RUNNING := int n), par_started := True\<rparr>) STATE_RUNNING)"
    using assms(4) by (simp add: start_others_unfold [OF assms(3)] st Let_def hasher_started_simps)
  then show "trace_pstart env (new_trace n hasher) = Inr (0, pstart_trace n hasher (se_reporter_cbs env) (0 < se_tick_interval env))"
    by (simp add: libtrace_change_state_def hasher_started_def new_trace_def pstart_trace_def)
next
  assume "se_perpkt_cbs env \<noteq> Some True"
  then have "se_perpkt_cbs env = None \<or> se_perpkt_cbs env = Some False" by (cases "se_perpkt_cbs env") auto
  then show "trace_pstart env (new_trace n hasher) = Inr (- 1, new_trace n hasher)"
    using assms(1) by (auto simp: trace_pstart_def new_trace_def)
next
  assume "par_state tr \<notin> {STATE_NEW, STATE_PAUSED}"
  then show "trace_pstart env tr = Inr (- 1, tr)" using assms(1) by (simp add: trace_pstart_def)
qed

definition example_env :: start_env where
  "example_env = \<lparr>se_err = False, se_perpkt_cbs = Some True, se_reporter_cbs = True, se_tick_interval = 0, se_format = 0,
     se_table = True, se_create = (\<lambda>r. Some (thread_number r)), se_memory = True\<rparr>"

theorem pstart_starts_witness:
  "trace_pstart example_env (new_trace 2 False) = Inr (0, pstart_trace 2 False True False)"
  using pstart_starts [of example_env 2 False] by (simp add: example_env_def)

text \<open>
  (C40) Starting a trace fails. When a per-packet thread cannot be created and no other one has been, the call returns -1. When one
  has been, the program aborts: the threads that end are taken off a counter of running threads that is only set after the last
  one has been created, and the clean-up asserts that the counter is zero.
\<close>

theorem pstart_failure_aborts:
  assumes "\<not> se_err env" "se_perpkt_cbs env = Some True" "se_format env = 0" "se_table env"
    and "k < n" "se_create env (Perpkt k) = None" "\<And>r. r \<noteq> Perpkt k \<Longrightarrow> se_create env r = Some (thread_number r)"
  shows "(k = 0 \<longrightarrow> (\<exists>tr. trace_pstart env (new_trace n hasher) = Inr (- 1, tr))) \<and>
    (0 < k \<longrightarrow> trace_pstart env (new_trace n hasher) = Inl AssertFail)"
proof -
  let ?rs = "map (\<lambda>i. (Perpkt i, THREAD_PERPKT)) [0..<k]" and ?h = "hasher_started env n hasher"
  define tr where "tr = ?h\<lparr>par_threads := (\<lambda>r. case map_of ?rs r of
      None \<Rightarrow> par_threads ?h r | Some ty \<Rightarrow> started_thread ty (the (se_create env r)))\<rparr>"
  have st: "start_threads (se_create env) ?rs ?h = Inr (True, tr)" unfolding tr_def
    by (rule start_threads_all) (use assms(7) in \<open>auto simp: hasher_started_simps distinct_map inj_on_def\<close>)
  have "[0..<n] = [0..<k] @ k # [Suc k..<n]"
    using assms(5) upt_add_eq_append [of 0 k "n - k"] by (simp add: upt_conv_Cons)
  then have "\<exists>rs'. other_threads env n = ?rs @ (Perpkt k, THREAD_PERPKT) # rs'" by (auto simp: other_threads_def)
  then obtain rs' where rs': "other_threads env n = ?rs @ (Perpkt k, THREAD_PERPKT) # rs'" by blast
  have empty: "pt_type (par_threads tr (Perpkt k)) = THREAD_EMPTY" by (simp add: tr_def map_of_perpkts hasher_started_simps)
  have "trace_pstart env (new_trace n hasher) = start_others env ?h"
    by (rule pstart_unfold [OF assms(1,2,3)]) (simp add: assms(7))
  also have "\<dots> = cleanup_threads (set_thread (Perpkt k) (libtrace_zero_thread (par_threads tr (Perpkt k)\<lparr>pt_state := THREAD_RUNNING\<rparr>)) tr)" (is "_ = cleanup_threads ?tr")
    unfolding start_others_unfold [OF assms(4)] rs' start_threads_fails [OF st assms(6) empty]
    by simp
  finally have eq: "trace_pstart env (new_trace n hasher) = cleanup_threads ?tr" .
  have "pt_type (par_threads ?tr (Perpkt i)) = THREAD_PERPKT \<and> pt_state (par_threads ?tr (Perpkt i)) = THREAD_RUNNING" if "i < k" for i
    using that by (auto simp: set_thread_def tr_def started_thread_def map_of_perpkts)
  moreover have "pt_type (par_threads ?tr (Perpkt k)) = THREAD_EMPTY" "par_count ?tr = n" "par_thread_states ?tr = (\<lambda>_. 0)"
    by (simp_all add: set_thread_def libtrace_zero_thread_def tr_def hasher_started_simps)
  ultimately show ?thesis
    unfolding eq using cleanup_counts [of k ?tr] assms(5) by auto
qed

theorem pstart_failure_aborts_witness:
  "trace_pstart (example_env\<lparr>se_create := (\<lambda>r. if r = Perpkt 1 then None else Some (thread_number r))\<rparr>) (new_trace 2 False) = Inl AssertFail"
  using pstart_failure_aborts [of "example_env\<lparr>se_create := (\<lambda>r. if r = Perpkt 1 then None else Some (thread_number r))\<rparr>" 1 2 False]
  by (simp add: example_env_def)

end
