(* ===== verification/Spec2Isabelle.thy ===== *)
theory Spec2Isabelle
  imports Ring_Buffer_Conc Sliding_Window Linked_List Message_Queue Combiner_Ordered Checksum Par_Hasher Par_Start
begin

text \<open>
  A verification library for libtrace, the packet capture and analysis library under
  \<open>src/lib\<close>.
\<close>

end
